(* ===== verification/Prelude.thy ===== *)
theory Prelude
  imports Main "HOL-Library.Word" "HOL-Library.Sublist"
begin

text \<open>
  Shared vocabulary of the development: the C integer types of \<^verbatim>\<open>util/types.h\<close> as
  machine words, the outcome of a kernel operation, sequencing of operations, and the
  collections of simplification rules the component theories use.

  An operation of the kernel is a function from a state to an \<open>outcome\<close>.  It returns a
  value and a new state, or it never returns to its caller: it stops the machine
  (\<open>Halt\<close>), it leaves the handler by \<^verbatim>\<open>sret\<close> or \<^verbatim>\<open>mret\<close> and execution goes on at another
  place in another mode (\<open>Resume\<close>), it runs forever without stopping the machine
  (\<open>Diverge\<close>), or it reaches behaviour that C leaves undefined (\<open>Undef\<close>).
\<close>

unbundle bit_operations_syntax

named_theorems mem_simps \<open>reading memory after writing it\<close>
named_theorems const_defs \<open>numeric constants of the headers\<close>
named_theorems op_defs \<open>definitions of kernel operations without loops\<close>

subsection \<open>C integer types (util/types.h)\<close>

type_synonym uint8 = "8 word"
type_synonym uint16 = "16 word"
type_synonym uint32 = "32 word"
type_synonym uint64 = "64 word"

text \<open>Signed C integers are the same words; \<^const>\<open>sint\<close> reads them as two's complement.\<close>

type_synonym int32 = "32 word"
type_synonym int64 = "64 word"

subsection \<open>Outcomes and sequencing\<close>

datatype halt =
    Exit int32        \<comment> \<open>\<^verbatim>\<open>shutdown(code)\<close>: the host is asked to exit, the hart spins\<close>
  | PowerOff          \<comment> \<open>\<^verbatim>\<open>htif_poweroff()\<close>\<close>

datatype undef =
    VaArgs            \<comment> \<open>\<^verbatim>\<open>va_arg\<close> with no or a wrongly typed next argument\<close>
  | BufOverflow       \<comment> \<open>an array used outside its bounds\<close>
  | NullDeref         \<comment> \<open>a null pointer followed\<close>
  | DivByZero         \<comment> \<open>an integer division by zero\<close>
  | NoReturn          \<comment> \<open>the end of a value-returning function reached\<close>

datatype ('s, 'a) outcome =
    Ret 'a 's
  | Halt halt 's
  | Resume 's
  | Diverge
  | Undef undef

definition ret :: "'a \<Rightarrow> 's \<Rightarrow> ('s, 'a) outcome" where
  "ret x s = Ret x s"

fun and_then :: "('s \<Rightarrow> ('s, 'a) outcome) \<Rightarrow> ('a \<Rightarrow> 's \<Rightarrow> ('s, 'b) outcome) \<Rightarrow> 's \<Rightarrow> ('s, 'b) outcome" where
  "and_then f g s =
     (case f s of
        Ret x s' \<Rightarrow> g x s'
      | Halt h s' \<Rightarrow> Halt h s'
      | Resume s' \<Rightarrow> Resume s'
      | Diverge \<Rightarrow> Diverge
      | Undef u \<Rightarrow> Undef u)"

text \<open>\<open>seq f g\<close> runs \<open>f\<close>, drops its value and runs \<open>g\<close>.\<close>

definition seq :: "('s \<Rightarrow> ('s, 'a) outcome) \<Rightarrow> ('s \<Rightarrow> ('s, 'b) outcome) \<Rightarrow> 's \<Rightarrow> ('s, 'b) outcome" where
  "seq f g = and_then f (\<lambda>_. g)"

definition gets :: "('s \<Rightarrow> 'a) \<Rightarrow> 's \<Rightarrow> ('s, 'a) outcome" where
  "gets f s = Ret (f s) s"

definition modify :: "('s \<Rightarrow> 's) \<Rightarrow> 's \<Rightarrow> ('s, unit) outcome" where
  "modify f s = Ret () (f s)"

lemmas outcome_defs = ret_def gets_def modify_def seq_def

text \<open>The state an operation leaves, where it leaves one.\<close>

fun state_of :: "('s, 'a) outcome \<Rightarrow> 's option" where
  "state_of (Ret _ s) = Some s"
| "state_of (Halt _ s) = Some s"
| "state_of (Resume s) = Some s"
| "state_of Diverge = None"
| "state_of (Undef _) = None"

lemma and_then_ret [simp]: "f s = Ret x s' \<Longrightarrow> and_then f g s = g x s'"
  by simp

lemma and_then_RetE:
  assumes "and_then f g s = Ret y t"
  obtains x s' where "f s = Ret x s'" and "g x s' = Ret y t"
  using assms by (auto split: outcome.splits)

lemma and_then_state:
  assumes "state_of (and_then f g s) = Some t"
  obtains s' where "state_of (f s) = Some s'" and "t = s'"
        | x s' where "f s = Ret x s'" and "state_of (g x s') = Some t"
  using assms by (cases "f s") auto

lemma and_then_assoc: "and_then (and_then f g) h s = and_then f (\<lambda>x. and_then (g x) h) s"
  by (simp split: outcome.splits)

subsection \<open>Lists and words\<close>

lemma take_Suc_list_update:
  "i < length xs \<Longrightarrow> take (Suc i) (xs[i := x]) = take i xs @ [x]"
  by (simp add: take_Suc_conv_app_nth)

lemma map_nth_upt: "map (\<lambda>i. xs ! i) [0..<length xs] = xs"
  by (simp add: map_nth)

lemma unat_sub_le_word: "(b :: 'a::len word) \<le> a \<Longrightarrow> unat (a - b) = unat a - unat b"
  by (simp add: unat_sub word_le_nat_alt)

lemma of_nat_unat_eq [simp]: "of_nat (unat (w :: 'a::len word)) = w"
  by simp

lemma unat_bound64: "unat (w :: uint64) < 2 ^ 64"
  using unsigned_less [where 'a = nat, of w] by simp

lemma uint_eq_iff: "uint a = uint b \<longleftrightarrow> (a :: 'a::len word) = b"
  by (rule word_uint_eq_iff [symmetric])

lemma unat_of_nat_small: "n < 2 ^ LENGTH('a) \<Longrightarrow> unat (of_nat n :: 'a::len word) = n"
  by (simp add: unat_of_nat take_bit_nat_eq_self)

lemma sint_small: "unat (w :: 'a::len word) < 2 ^ (LENGTH('a) - 1) \<Longrightarrow> sint w = int (unat w)"
proof -
  assume "unat w < 2 ^ (LENGTH('a) - 1)"
  then have "int (unat w) < 2 ^ (LENGTH('a) - 1)"
    by (metis of_nat_less_iff of_nat_numeral of_nat_power)
  moreover have "- (2 ^ (LENGTH('a) - 1)) \<le> int (unat w)"
    using of_nat_0_le_iff [of "unat w", where 'a = int] zero_le_power [of "2 :: int" "LENGTH('a) - 1"] by linarith
  ultimately show ?thesis
    by (simp add: sint_uint signed_take_bit_int_eq_self)
qed

lemma unat_ucast_small: "unat w < 2 ^ LENGTH('b) \<Longrightarrow> unat (ucast (w :: 'a::len word) :: 'b::len word) = unat w"
  by (simp add: unsigned_ucast_eq take_bit_nat_eq_self)

lemma scast_small_int32: "n < 2 ^ 31 \<Longrightarrow> (scast (of_nat n :: 32 word) :: 64 word) = of_nat n"
  by (simp add: scast_eq signed_of_nat signed_take_bit_int_eq_self)

end
