(* ===== verification/CMem.thy ===== *)
theory CMem
  imports Prelude
begin

text \<open>
  The flat physical memory of the emulated machine (the kernel runs in Bare mode, so a
  pointer is a physical address), and the typed accesses of C on it.  RISC-V is little
  endian.  Address arithmetic wraps at 64 bits.

  The interface between typed data and raw bytes is the locale \<open>byte_codec\<close>: a value of
  fixed width is written as bytes and read back.  Its client lemmas (a load after a store
  to the same place, and after a store to a separate place) are proved once and
  interpreted for every scalar width the sources use.
\<close>

type_synonym memory = "uint64 \<Rightarrow> uint8"

subsection \<open>Byte ranges\<close>

definition write_bytes :: "memory \<Rightarrow> uint64 \<Rightarrow> uint8 list \<Rightarrow> memory" where
  "write_bytes m a bs = (\<lambda>x. if unat (x - a) < length bs then bs ! unat (x - a) else m x)"

definition read_bytes :: "memory \<Rightarrow> uint64 \<Rightarrow> nat \<Rightarrow> uint8 list" where
  "read_bytes m a n = map (\<lambda>i. m (a + of_nat i)) [0..<n]"

text \<open>Two byte ranges that share no address (ranges may wrap around the address space).\<close>

definition apart :: "uint64 \<Rightarrow> nat \<Rightarrow> uint64 \<Rightarrow> nat \<Rightarrow> bool" where
  "apart a n b k \<longleftrightarrow> n = 0 \<or> k = 0 \<or> n \<le> unat (b - a) \<and> k \<le> unat (a - b)"

lemma length_read_bytes [simp]: "length (read_bytes m a n) = n"
  by (simp add: read_bytes_def)

lemma nth_read_bytes [simp]: "i < n \<Longrightarrow> read_bytes m a n ! i = m (a + of_nat i)"
  by (simp add: read_bytes_def)

lemma read_bytes_0 [simp]: "read_bytes m a 0 = []"
  by (simp add: read_bytes_def)

lemma read_bytes_Suc: "read_bytes m a (Suc n) = m a # read_bytes m (a + 1) n"
  by (simp add: read_bytes_def map_upt_Suc add.assoc del: upt_Suc)

lemma read_bytes_add: "read_bytes m a (i + j) = read_bytes m a i @ read_bytes m (a + of_nat i) j"
  by (induction i arbitrary: a) (simp_all add: read_bytes_Suc add.assoc)

lemma take_read_bytes: "k \<le> n \<Longrightarrow> take k (read_bytes m a n) = read_bytes m a k"
  by (simp add: read_bytes_def take_map)

lemma drop_read_bytes: "drop k (read_bytes m a n) = read_bytes m (a + of_nat k) (n - k)"
  by (rule nth_equalityI) (simp_all add: add.assoc)

lemma write_bytes_Nil [simp]: "write_bytes m a [] = m"
  by (simp add: write_bytes_def)

lemma write_bytes_out: "length bs \<le> unat (x - a) \<Longrightarrow> write_bytes m a bs x = m x"
  by (simp add: write_bytes_def)

lemma write_bytes_in:
  "i < length bs \<Longrightarrow> length bs \<le> 2 ^ 64 \<Longrightarrow> write_bytes m a bs (a + of_nat i) = bs ! i"
  by (simp add: write_bytes_def unat_of_nat_small)

lemma read_write_bytes_same:
  assumes "length bs \<le> 2 ^ 64"
  shows "read_bytes (write_bytes m a bs) a (length bs) = bs"
  using assms by (intro nth_equalityI) (simp_all add: write_bytes_in)

text \<open>An address within \<open>k\<close> bytes of \<open>b\<close> is outside the range of \<open>n\<close> bytes at \<open>a\<close>.\<close>

lemma unat_minus_nonzero: "(d :: uint64) \<noteq> 0 \<Longrightarrow> unat (- d) = 2 ^ 64 - unat d"
  using unat_sub_if' [of 0 d] by (simp add: unat_gt_0 [symmetric] del: unat_gt_0)

text \<open>\<open>apart\<close> through the distance of the two starting points, without wrap-around.\<close>

lemma apart_nat:
  "apart a n b k \<longleftrightarrow> n = 0 \<or> k = 0 \<or> n \<le> unat (b - a) \<and> unat (b - a) + k \<le> 2 ^ 64"
proof (cases "b = a")
  case True
  then show ?thesis by (auto simp: apart_def)
next
  case False
  then have "unat (a - b) = 2 ^ 64 - unat (b - a)"
    using unat_minus_nonzero [of "b - a"] by simp
  moreover have "unat (b - a) < 2 ^ 64"
    by (rule unat_bound64)
  ultimately show ?thesis
    unfolding apart_def by linarith
qed

lemma unat_add_small: "unat (d :: uint64) + i < 2 ^ 64 \<Longrightarrow> unat (d + of_nat i) = unat d + i"
  by (simp add: unat_word_ariths unat_of_nat_small)

lemma apart_offset:
  assumes "apart a n b k" and "i < k"
  shows "n \<le> unat ((b + of_nat i) - a)"
proof (cases "n = 0")
  case False
  with assms have *: "n \<le> unat (b - a)" "unat (b - a) + i < 2 ^ 64"
    by (auto simp: apart_nat)
  have "(b + of_nat i) - a = (b - a) + of_nat i"
    by simp
  with * show ?thesis
    by (simp only: unat_add_small trans_le_add1)
qed simp

text \<open>Parts of separate ranges are separate.\<close>

lemma apart_sub:
  assumes "apart a n b k" and "i + n' \<le> n" and "j + k' \<le> k"
  shows "apart (a + of_nat i) n' (b + of_nat j) k'"
proof (cases "n' = 0 \<or> k' = 0")
  case True
  then show ?thesis by (auto simp: apart_def)
next
  case False
  define D where "D = b - a"
  from False assms have D: "n \<le> unat D" "unat D + k \<le> 2 ^ 64"
    by (auto simp: apart_nat D_def)
  have iD: "i \<le> unat D" using assms(2) D(1) by simp
  then have i64: "i < 2 ^ 64" using unat_bound64 [of D] by simp
  have le: "of_nat i \<le> D"
    using iD i64 by (simp add: word_le_nat_alt unat_of_nat_small)
  have sub: "unat (D - of_nat i) = unat D - i"
    using unat_sub_le_word [OF le] i64 by (simp add: unat_of_nat_small)
  have "unat (D - of_nat i) + j < 2 ^ 64"
    using sub D(2) assms(3) False by auto
  then have "unat (D - of_nat i + of_nat j) = unat D - i + j"
    using unat_add_small [of "D - of_nat i" j] sub by simp
  moreover have "(b + of_nat j) - (a + of_nat i) = D - of_nat i + of_nat j"
    by (simp add: D_def)
  ultimately have "unat ((b + of_nat j) - (a + of_nat i)) = unat D - i + j"
    by (simp only:)
  then show ?thesis
    using D assms(2,3) iD by (simp only: apart_nat) linarith
qed

lemma read_write_bytes_apart:
  assumes "apart a (length bs) b k"
  shows "read_bytes (write_bytes m a bs) b k = read_bytes m b k"
  using apart_offset [OF assms] by (intro nth_equalityI) (simp_all add: write_bytes_out)

lemma write_write_bytes_apart:
  assumes "apart a (length bs) b (length cs)" and "length bs \<le> 2 ^ 64"
  shows "write_bytes (write_bytes m a bs) b cs x = write_bytes (write_bytes m b cs) a bs x"
proof -
  have "\<not> (unat (x - a) < length bs \<and> unat (x - b) < length cs)"
  proof
    assume *: "unat (x - a) < length bs \<and> unat (x - b) < length cs"
    have "b + of_nat (unat (x - b)) = x" by simp
    with apart_offset [OF assms(1), of "unat (x - b)"] * show False
      by (metis not_le)
  qed
  then show ?thesis
    by (auto simp: write_bytes_def)
qed

lemma write_bytes_append:
  assumes "length xs + length ys \<le> 2 ^ 64"
  shows "write_bytes (write_bytes m a xs) (a + of_nat (length xs)) ys = write_bytes m a (xs @ ys)"
proof
  fix x
  define e where "e = x - a"
  have e: "x - (a + of_nat (length xs)) = e - of_nat (length xs)"
    by (simp add: e_def)
  show "write_bytes (write_bytes m a xs) (a + of_nat (length xs)) ys x = write_bytes m a (xs @ ys) x"
  proof (cases "unat e < length xs")
    case True
    have "length ys \<le> unat (e - of_nat (length xs))"
    proof (cases "length xs = 2 ^ 64")
      case False
      with assms have "unat (of_nat (length xs) :: uint64) = length xs"
        by (intro unat_of_nat_small) simp
      with True assms show ?thesis
        by (simp add: unat_sub_if')
    qed (use assms in simp)
    with True show ?thesis
      by (simp add: write_bytes_def e_def [symmetric] e nth_append)
  next
    case False
    then have small: "length xs < 2 ^ 64"
      using unat_bound64 [of e] by simp
    then have "of_nat (length xs) \<le> e"
      using False by (simp add: word_le_nat_alt unat_of_nat_small)
    then have "unat (e - of_nat (length xs)) = unat e - length xs"
      using small by (simp add: unat_sub_le_word unat_of_nat_small)
    with False show ?thesis
      by (auto simp: write_bytes_def e_def [symmetric] e nth_append)
  qed
qed

lemma fun_upd_write_bytes: "m(a := b) = write_bytes m a [b]"
  by (auto simp: write_bytes_def unat_eq_0)

lemma apart_sym: "apart a n b k \<longleftrightarrow> apart b k a n"
  by (auto simp: apart_def)

lemma apart_add [simp]: "apart (p + a) n (p + b) k \<longleftrightarrow> apart a n b k"
  by (simp add: apart_def)

lemma apart_add0 [simp]:
  "apart p n (p + b) k \<longleftrightarrow> apart 0 n b k"
  "apart (p + a) n p k \<longleftrightarrow> apart a n 0 k"
  by (simp_all add: apart_def)

subsection \<open>Little-endian scalars\<close>

primrec le_bytes :: "nat \<Rightarrow> 'a::len word \<Rightarrow> uint8 list" where
  "le_bytes 0 v = []"
| "le_bytes (Suc n) v = ucast v # le_bytes n (drop_bit 8 v)"

primrec le_word :: "uint8 list \<Rightarrow> 'a::len word" where
  "le_word [] = 0"
| "le_word (b # bs) = ucast b OR push_bit 8 (le_word bs)"

lemma length_le_bytes [simp]: "length (le_bytes n v) = n"
  by (induction n arbitrary: v) simp_all

lemma le_word_le_bytes: "le_word (le_bytes n v) = (take_bit (8 * n) v :: 'a::len word)"
proof (induction n arbitrary: v)
  case 0
  then show ?case by simp
next
  case (Suc n)
  have "ucast (ucast v :: uint8) OR push_bit 8 (take_bit (8 * n) (drop_bit 8 v))
        = (take_bit (8 + 8 * n) v :: 'a word)"
    by (rule bit_word_eqI)
      (auto simp: bit_simps not_le add.commute)
  with Suc show ?case by simp
qed

lemma le_bytes_le_word:
  "8 * length bs \<le> LENGTH('a) \<Longrightarrow> le_bytes (length bs) (le_word bs :: 'a::len word) = bs"
proof (induction bs)
  case Nil
  then show ?case by simp
next
  case (Cons b bs)
  let ?w = "le_word bs :: 'a word"
  have len: "8 \<le> LENGTH('a)" using Cons.prems by simp
  have lo: "ucast (ucast b OR push_bit 8 ?w) = b"
    using len by (intro bit_word_eqI) (auto simp: bit_simps)
  have small: "take_bit (8 * length bs) ?w = ?w" if "le_bytes (length bs) ?w = bs"
    using le_word_le_bytes [of "length bs" ?w] that by simp
  have IH: "le_bytes (length bs) ?w = bs" using Cons by simp
  have "drop_bit 8 (ucast b OR push_bit 8 ?w) = ?w"
  proof (rule bit_word_eqI)
    fix n assume n: "n < LENGTH('a)"
    have "bit ?w n \<Longrightarrow> n < 8 * length bs"
      using small [OF IH] by (metis bit_take_bit_iff)
    then have "bit ?w n \<Longrightarrow> n + 8 < LENGTH('a)"
      using Cons.prems by simp
    then show "bit (drop_bit 8 (ucast b OR push_bit 8 ?w)) n = bit ?w n"
      by (auto simp: bit_simps add.commute dest: bit_imp_le_length)
  qed
  with lo IH show ?case by simp
qed

subsection \<open>The codec interface\<close>

locale byte_codec =
  fixes width :: nat
    and enc :: "'v \<Rightarrow> uint8 list"
    and dec :: "uint8 list \<Rightarrow> 'v"
  assumes enc_length: "length (enc v) = width"
    and dec_enc: "dec (enc v) = v"
    and width_bound: "width \<le> 2 ^ 64"
begin

lemma load_store_same: "dec (read_bytes (write_bytes m a (enc v)) a width) = v"
  using read_write_bytes_same [of "enc v" m a] width_bound by (simp add: enc_length dec_enc)

lemma load_store_apart:
  "apart a width b k \<Longrightarrow> read_bytes (write_bytes m a (enc v)) b k = read_bytes m b k"
  by (simp add: read_write_bytes_apart enc_length)

lemma store_frame: "width \<le> unat (x - a) \<Longrightarrow> write_bytes m a (enc v) x = m x"
  by (simp add: write_bytes_out enc_length)

lemma enc_inject: "enc v = enc w \<longleftrightarrow> v = w"
  by (metis dec_enc)

end

definition read16 :: "memory \<Rightarrow> uint64 \<Rightarrow> uint16" where
  "read16 m a = le_word (read_bytes m a 2)"

definition read32 :: "memory \<Rightarrow> uint64 \<Rightarrow> uint32" where
  "read32 m a = le_word (read_bytes m a 4)"

definition read64 :: "memory \<Rightarrow> uint64 \<Rightarrow> uint64" where
  "read64 m a = le_word (read_bytes m a 8)"

definition write32 :: "memory \<Rightarrow> uint64 \<Rightarrow> uint32 \<Rightarrow> memory" where
  "write32 m a v = write_bytes m a (le_bytes 4 v)"

definition write64 :: "memory \<Rightarrow> uint64 \<Rightarrow> uint64 \<Rightarrow> memory" where
  "write64 m a v = write_bytes m a (le_bytes 8 v)"

interpretation u16: byte_codec 2 "le_bytes 2 :: uint16 \<Rightarrow> uint8 list" le_word
  by unfold_locales (simp_all add: le_word_le_bytes take_bit_word_eq_self del: le_bytes.simps)

interpretation u32: byte_codec 4 "le_bytes 4 :: uint32 \<Rightarrow> uint8 list" le_word
  by unfold_locales (simp_all add: le_word_le_bytes take_bit_word_eq_self del: le_bytes.simps)

interpretation u64: byte_codec 8 "le_bytes 8 :: uint64 \<Rightarrow> uint8 list" le_word
  by unfold_locales (simp_all add: le_word_le_bytes take_bit_word_eq_self del: le_bytes.simps)

lemma read64_write64_same [simp, mem_simps]: "read64 (write64 m a v) a = v"
  unfolding read64_def write64_def by (rule u64.load_store_same)

lemma read32_write32_same [simp, mem_simps]: "read32 (write32 m a v) a = v"
  unfolding read32_def write32_def by (rule u32.load_store_same)

lemma read64_write64_apart [mem_simps]:
  "apart a 8 b 8 \<Longrightarrow> read64 (write64 m a v) b = read64 m b"
  unfolding read64_def write64_def by (simp add: u64.load_store_apart)

lemma read32_write64_apart [mem_simps]:
  "apart a 8 b 4 \<Longrightarrow> read32 (write64 m a v) b = read32 m b"
  unfolding read32_def write64_def by (simp add: u64.load_store_apart)

lemma read64_write32_apart [mem_simps]:
  "apart a 4 b 8 \<Longrightarrow> read64 (write32 m a v) b = read64 m b"
  unfolding read64_def write32_def by (simp add: u32.load_store_apart)

lemma read_bytes_write64_apart [mem_simps]:
  "apart a 8 b k \<Longrightarrow> read_bytes (write64 m a v) b k = read_bytes m b k"
  unfolding write64_def by (rule u64.load_store_apart)

lemma read16_write_bytes_apart [mem_simps]:
  "apart a (length bs) b 2 \<Longrightarrow> read16 (write_bytes m a bs) b = read16 m b"
  by (simp add: read16_def read_write_bytes_apart)

lemma read32_write_bytes_apart [mem_simps]:
  "apart a (length bs) b 4 \<Longrightarrow> read32 (write_bytes m a bs) b = read32 m b"
  by (simp add: read32_def read_write_bytes_apart)

lemma read64_write_bytes_apart [mem_simps]:
  "apart a (length bs) b 8 \<Longrightarrow> read64 (write_bytes m a bs) b = read64 m b"
  by (simp add: read64_def read_write_bytes_apart)

subsection \<open>What a write leaves alone\<close>

text \<open>\<open>only_changes a n m m'\<close>: the two memories differ at most in the \<open>n\<close> bytes from \<open>a\<close>.\<close>

definition only_changes :: "uint64 \<Rightarrow> nat \<Rightarrow> memory \<Rightarrow> memory \<Rightarrow> bool" where
  "only_changes a n m m' \<longleftrightarrow> (\<forall>x. n \<le> unat (x - a) \<longrightarrow> m' x = m x)"

lemma only_changes_refl [simp]: "only_changes a n m m"
  by (simp add: only_changes_def)

lemma only_changes_trans:
  "only_changes a n m m' \<Longrightarrow> only_changes a n m' m'' \<Longrightarrow> only_changes a n m m''"
  by (simp add: only_changes_def)

lemma only_changes_mono:
  assumes "only_changes (a + of_nat i) k m m'" and "i + k \<le> n"
  shows "only_changes a n m m'"
  unfolding only_changes_def
proof (intro allI impI)
  fix x
  assume n: "n \<le> unat (x - a)"
  have i: "i < 2 ^ 64"
    using n assms(2) unat_bound64 [of "x - a"] by simp
  have le: "of_nat i \<le> x - a"
    using n assms(2) i by (simp add: word_le_nat_alt unat_of_nat_small)
  have "unat (x - a - of_nat i) = unat (x - a) - i"
    using unat_sub_le_word [OF le] i by (simp add: unat_of_nat_small)
  then have "k \<le> unat (x - (a + of_nat i))"
    using n assms(2) by (simp add: diff_diff_eq)
  with assms(1) show "m' x = m x"
    by (simp add: only_changes_def)
qed

lemma only_changes_write_bytes: "only_changes a (length bs) m (write_bytes m a bs)"
  by (simp add: only_changes_def write_bytes_out)

lemma only_changes_write64: "only_changes a 8 m (write64 m a v)"
  unfolding write64_def using only_changes_write_bytes [of a "le_bytes 8 v" m] by simp

lemma only_changes_read_bytes:
  "only_changes a n m m' \<Longrightarrow> apart a n b k \<Longrightarrow> read_bytes m' b k = read_bytes m b k"
  by (intro nth_equalityI) (simp_all add: only_changes_def apart_offset)

lemma only_changes_read64:
  "only_changes a n m m' \<Longrightarrow> apart a n b 8 \<Longrightarrow> read64 m' b = read64 m b"
  by (simp add: read64_def only_changes_read_bytes)

lemma only_changes_write_both:
  "only_changes a n m m' \<Longrightarrow> only_changes a n (write_bytes m b bs) (write_bytes m' b bs)"
  by (simp add: only_changes_def write_bytes_def)

lemma read_write_bytes_sub:
  assumes "j + k \<le> length bs" and "length bs \<le> 2 ^ 64"
  shows "read_bytes (write_bytes m a bs) (a + of_nat j) k = take k (drop j bs)"
proof -
  have "read_bytes (write_bytes m a bs) a (length bs) = bs"
    using assms(2) by (rule read_write_bytes_same)
  then have "take k (drop j bs) = take k (drop j (read_bytes (write_bytes m a bs) a (length bs)))"
    by simp
  also have "\<dots> = read_bytes (write_bytes m a bs) (a + of_nat j) k"
    using assms(1) by (simp add: drop_read_bytes take_read_bytes)
  finally show ?thesis by simp
qed

lemma apart_const:
  assumes "unat a + n \<le> unat b" and "unat b + k \<le> 2 ^ 64"
  shows "apart a n b (k :: nat)"
proof (cases "n = 0")
  case False
  have "a \<le> b" using assms(1) by (simp add: word_le_nat_alt)
  then have "unat (b - a) = unat b - unat a" by (rule unat_sub_le_word)
  then show ?thesis
    unfolding apart_nat using assms by linarith
qed (simp add: apart_def)

lemma read64_zero [simp]: "read64 (\<lambda>_. 0) a = 0"
  by (simp add: read64_def read_bytes_def upt_rec)

text \<open>Words byte by byte.\<close>

lemma le_word_append: "le_word (xs @ ys) = (le_word xs OR push_bit (8 * length xs) (le_word ys) :: 'a::len word)"
  by (induction xs) (simp_all add: push_bit_or ac_simps)

lemma bit_le_word:
  "bit (le_word bs :: 'a::len word) n \<longleftrightarrow> n < LENGTH('a) \<and> n div 8 < length bs \<and> bit (bs ! (n div 8)) (n mod 8)"
proof (induction bs arbitrary: n)
  case (Cons b bs)
  show ?case
  proof (cases "n < 8")
    case True
    then show ?thesis
      by (auto simp: bit_or_iff bit_push_bit_iff bit_ucast_iff)
  next
    case False
    then obtain k where k: "n = k + 8" using le_add_diff_inverse2 [of 8 n] by (metis not_less)
    have "\<not> bit b (k + 8)" "(k + 8) div 8 = Suc (k div 8)" "(k + 8) mod 8 = k mod 8"
      by (auto dest: bit_imp_le_length)
    then show ?thesis
      unfolding k using Cons [of k]
      by (simp add: bit_or_iff bit_push_bit_iff bit_ucast_iff) (auto dest: bit_imp_le_length)
  qed
qed simp

lemma le_word_zeros: "le_word (replicate n 0) = 0"
  by (induction n) simp_all

text \<open>\<open>changes_in rs m m'\<close>: the two memories differ at most in the regions \<open>rs\<close>, given by address and
  length.\<close>

definition changes_in :: "(uint64 \<times> nat) list \<Rightarrow> memory \<Rightarrow> memory \<Rightarrow> bool" where
  "changes_in rs m m' \<longleftrightarrow> (\<forall>x. (\<forall>(a, n)\<in>set rs. n \<le> unat (x - a)) \<longrightarrow> m' x = m x)"

lemma changes_in_single: "changes_in [(a, n)] m m' \<longleftrightarrow> only_changes a n m m'"
  by (simp add: changes_in_def only_changes_def)

lemma changes_in_refl [simp]: "changes_in rs m m"
  by (simp add: changes_in_def)

lemma changes_in_trans: "changes_in rs m m' \<Longrightarrow> changes_in rs m' m'' \<Longrightarrow> changes_in rs m m''"
  by (simp add: changes_in_def)

lemma changes_in_mono: "changes_in rs m m' \<Longrightarrow> set rs \<subseteq> set rs' \<Longrightarrow> changes_in rs' m m'"
  unfolding changes_in_def by blast

lemma only_changes_in: "only_changes a n m m' \<Longrightarrow> (a, n) \<in> set rs \<Longrightarrow> changes_in rs m m'"
  by (rule changes_in_mono [of "[(a, n)]"]) (simp_all add: changes_in_single)

lemma changes_in_read_bytes:
  assumes "changes_in rs m m'" and "\<forall>(a, n)\<in>set rs. apart a n b k"
  shows "read_bytes m' b k = read_bytes m b k"
proof (rule nth_equalityI; simp)
  fix i
  assume "i < k"
  then have "\<forall>(a, n)\<in>set rs. n \<le> unat (b + of_nat i - a)"
    using apart_offset [of _ _ b k i] assms(2) by auto
  then show "m' (b + of_nat i) = m (b + of_nat i)"
    using assms(1) unfolding changes_in_def by blast
qed

lemma changes_in_read64:
  "changes_in rs m m' \<Longrightarrow> \<forall>(a, n)\<in>set rs. apart a n b 8 \<Longrightarrow> read64 m' b = read64 m b"
  by (simp add: read64_def changes_in_read_bytes)

end
