(* ===== verification/StringLib.thy ===== *)
theory StringLib
  imports CMem
begin

text \<open>
  The C string library of \<^verbatim>\<open>util/string.c\<close> over flat memory: \<^verbatim>\<open>memcpy\<close>, \<^verbatim>\<open>memset\<close>,
  \<^verbatim>\<open>strlen\<close>, \<^verbatim>\<open>strcmp\<close>, \<^verbatim>\<open>strcpy\<close>, \<^verbatim>\<open>atol\<close>, \<^verbatim>\<open>memmove\<close> and \<^verbatim>\<open>safestrcpy\<close>.  Each C loop is a
  \<^theory_text>\<open>partial_function (option)\<close>: \<open>None\<close> means the loop never ends (a string without
  terminator in an address space full of non-zero bytes, a range that wraps around).
  The theorems show that the loops end and what they compute.  On RISC-V plain
  \<^verbatim>\<open>char\<close> is unsigned.
\<close>

subsection \<open>Strings in memory\<close>

text \<open>\<open>cstr_at m p bs\<close>: the bytes \<open>bs\<close>, none of them zero, stand at \<open>p\<close> and a zero follows.\<close>

primrec cstr_at :: "memory \<Rightarrow> uint64 \<Rightarrow> uint8 list \<Rightarrow> bool" where
  "cstr_at m p [] \<longleftrightarrow> m p = 0"
| "cstr_at m p (b # bs) \<longleftrightarrow> b \<noteq> 0 \<and> m p = b \<and> cstr_at m (p + 1) bs"

lemma cstr_at_unique: "cstr_at m p bs \<Longrightarrow> cstr_at m p cs \<Longrightarrow> bs = cs"
proof (induction bs arbitrary: p cs)
  case Nil
  then show ?case by (cases cs) auto
next
  case (Cons b bs)
  then show ?case by (cases cs) auto
qed

lemma cstr_at_read_bytes:
  "cstr_at m p bs \<longleftrightarrow>
     0 \<notin> set bs \<and> read_bytes m p (length bs) = bs \<and> m (p + of_nat (length bs)) = 0"
  by (induction bs arbitrary: p) (auto simp: read_bytes_Suc add.assoc)

lemma cstr_at_iff:
  "cstr_at m p bs \<longleftrightarrow> 0 \<notin> set bs \<and> read_bytes m p (Suc (length bs)) = bs @ [0]"
  by (auto simp: cstr_at_read_bytes read_bytes_def)

lemma cstr_at_write_apart:
  "apart a (length xs) p (Suc (length bs)) \<Longrightarrow> cstr_at (write_bytes m a xs) p bs \<longleftrightarrow> cstr_at m p bs"
  by (simp only: cstr_at_iff read_write_bytes_apart)

lemma cstr_at_cong:
  "(\<And>i. i \<le> length bs \<Longrightarrow> m' (p + of_nat i) = m (p + of_nat i)) \<Longrightarrow>
    cstr_at m' p bs \<longleftrightarrow> cstr_at m p bs"
proof (induction bs arbitrary: p)
  case Nil
  from Nil [of 0] show ?case by simp
next
  case (Cons b bs)
  have "m' (p + 1 + of_nat i) = m (p + 1 + of_nat i)" if "i \<le> length bs" for i
    using Cons.prems [of "Suc i"] that by (simp add: add.assoc)
  from Cons.IH [OF this] Cons.prems [of 0] show ?case by simp
qed

text \<open>A string ends before the address space does, and a zero byte ends every string before it.\<close>

lemma cstr_at_length: "cstr_at m p bs \<Longrightarrow> length bs < 2 ^ 64"
proof (rule ccontr)
  assume str: "cstr_at m p bs" and "\<not> length bs < 2 ^ 64"
  then have long: "2 ^ 64 \<le> length bs" by simp
  let ?i = "length bs mod 2 ^ 64"
  have lt: "?i < length bs"
    using long by (metis mod_less_divisor less_le_trans zero_less_power zero_less_numeral)
  have "m (p + of_nat (length bs)) = 0"
    using str by (simp add: cstr_at_read_bytes)
  moreover have "(of_nat (length bs) :: uint64) = of_nat ?i"
    by (simp add: word_of_nat_eq_iff take_bit_eq_mod)
  moreover have "m (p + of_nat ?i) \<noteq> 0"
  proof -
    have "read_bytes m p (length bs) ! ?i \<in> set bs"
      using str lt by (metis cstr_at_read_bytes nth_mem)
    then show ?thesis
      using str lt by (metis cstr_at_read_bytes nth_read_bytes)
  qed
  ultimately show False by simp
qed

lemma cstr_at_exists: "m (q + of_nat n) = 0 \<Longrightarrow> \<exists>bs. length bs \<le> n \<and> cstr_at m q bs"
proof (induction n arbitrary: q)
  case 0
  then show ?case by (intro exI [of _ "[]"]) simp
next
  case (Suc n)
  show ?case
  proof (cases "m q = 0")
    case True
    then show ?thesis by (intro exI [of _ "[]"]) simp
  next
    case False
    have "m (q + 1 + of_nat n) = 0"
      using Suc.prems by (simp add: add.assoc)
    from Suc.IH [OF this] obtain bs where "length bs \<le> n" "cstr_at m (q + 1) bs"
      by blast
    with False show ?thesis by (intro exI [of _ "m q # bs"]) simp
  qed
qed

subsection \<open>strlen\<close>

partial_function (option) strlen_loop :: "memory \<Rightarrow> uint64 \<Rightarrow> uint64 option" where
  "strlen_loop m p = (if m p \<noteq> 0 then strlen_loop m (p + 1) else Some p)"

definition strlen :: "memory \<Rightarrow> uint64 \<Rightarrow> uint64 option" where
  "strlen m s = map_option (\<lambda>p. p - s) (strlen_loop m s)"

lemma strlen_loop_cstr: "cstr_at m p bs \<Longrightarrow> strlen_loop m p = Some (p + of_nat (length bs))"
  by (induction bs arbitrary: p) (simp_all add: strlen_loop.simps add.assoc)

lemma strlen_cstr: "cstr_at m p bs \<Longrightarrow> strlen m p = Some (of_nat (length bs))"
  by (simp add: strlen_def strlen_loop_cstr)

subsection \<open>strcmp\<close>

partial_function (option) strcmp :: "memory \<Rightarrow> uint64 \<Rightarrow> uint64 \<Rightarrow> int option" where
  "strcmp m s1 s2 =
     (let c1 = m s1; c2 = m s2
      in if c1 \<noteq> 0 \<and> c1 = c2 then strcmp m (s1 + 1) (s2 + 1)
         else Some (uint c1 - uint c2))"

text \<open>Where one operand is a string literal of the source, its bytes are given directly.\<close>

fun strcmp_lit :: "memory \<Rightarrow> uint64 \<Rightarrow> uint8 list \<Rightarrow> int" where
  "strcmp_lit m s [] = uint (m s)"
| "strcmp_lit m s (b # bs) =
     (if m s \<noteq> 0 \<and> m s = b then strcmp_lit m (s + 1) bs else uint (m s) - uint b)"

text \<open>The reference: comparison of byte strings as C orders them.\<close>

fun lex_diff :: "uint8 list \<Rightarrow> uint8 list \<Rightarrow> int" where
  "lex_diff [] [] = 0"
| "lex_diff [] (b # bs) = - uint b"
| "lex_diff (a # as) [] = uint a"
| "lex_diff (a # as) (b # bs) = (if a = b then lex_diff as bs else uint a - uint b)"

lemma lex_diff_0_iff: "0 \<notin> set as \<Longrightarrow> 0 \<notin> set bs \<Longrightarrow> lex_diff as bs = 0 \<longleftrightarrow> as = bs"
  by (induction as bs rule: lex_diff.induct) (auto simp: uint_0_iff uint_eq_iff)

lemma strcmp_cstr:
  "cstr_at m p as \<Longrightarrow> cstr_at m q bs \<Longrightarrow> strcmp m p q = Some (lex_diff as bs)"
  by (induction as bs arbitrary: p q rule: lex_diff.induct) (auto simp: strcmp.simps Let_def)

lemma strcmp_lit_cstr:
  "cstr_at m p as \<Longrightarrow> 0 \<notin> set bs \<Longrightarrow> strcmp_lit m p bs = lex_diff as bs"
  by (induction as bs arbitrary: p rule: lex_diff.induct) auto

lemma strcmp_lit_is_strcmp:
  "cstr_at m p as \<Longrightarrow> cstr_at m q bs \<Longrightarrow> strcmp m p q = Some (strcmp_lit m p bs)"
  by (metis cstr_at_read_bytes strcmp_cstr strcmp_lit_cstr)

lemma strcmp_lit_eq_0_iff:
  "0 \<notin> set bs \<Longrightarrow> strcmp_lit m p bs = 0 \<longleftrightarrow> cstr_at m p bs"
  by (induction bs arbitrary: p) (auto simp: uint_0_iff uint_eq_iff)

subsection \<open>memcpy\<close>

partial_function (option)
  memcpy_words :: "memory \<Rightarrow> uint64 \<Rightarrow> uint64 \<Rightarrow> uint64 \<Rightarrow> (memory \<times> uint64 \<times> uint64) option" where
  "memcpy_words m d s lim =
     (if d < lim then memcpy_words (write64 m d (read64 m s)) (d + 8) (s + 8) lim
      else Some (m, d, s))"

partial_function (option)
  memcpy_bytes :: "memory \<Rightarrow> uint64 \<Rightarrow> uint64 \<Rightarrow> uint64 \<Rightarrow> memory option" where
  "memcpy_bytes m d s lim =
     (if d < lim then memcpy_bytes (m(d := m s)) (d + 1) (s + 1) lim else Some m)"

definition memcpy :: "memory \<Rightarrow> uint64 \<Rightarrow> uint64 \<Rightarrow> uint64 \<Rightarrow> (uint64 \<times> memory) option" where
  "memcpy m dest src len =
     (let words =
        (if (dest OR src) AND 7 = 0 then memcpy_words m dest src (dest + len - 7)
         else Some (m, dest, src))
      in case words of
           None \<Rightarrow> None
         | Some (m', d, s) \<Rightarrow> map_option (Pair dest) (memcpy_bytes m' d s (dest + len)))"

subsection \<open>memset\<close>

partial_function (option)
  memset_words :: "memory \<Rightarrow> uint64 \<Rightarrow> uint64 \<Rightarrow> uint64 \<Rightarrow> memory option" where
  "memset_words m d lim word =
     (if d < lim then memset_words (write64 m d word) (d + 8) lim word else Some m)"

partial_function (option)
  memset_bytes :: "memory \<Rightarrow> uint64 \<Rightarrow> uint64 \<Rightarrow> uint8 \<Rightarrow> memory option" where
  "memset_bytes m d lim b =
     (if d < lim then memset_bytes (m(d := b)) (d + 1) lim b else Some m)"

definition memset_pattern :: "int32 \<Rightarrow> uint64" where
  "memset_pattern byte =
     (let w0 = ucast (byte AND 0xFF) :: uint64;
          w1 = w0 OR push_bit 8 w0;
          w2 = w1 OR push_bit 16 w1
      in w2 OR push_bit 16 (push_bit 16 w2))"

definition memset :: "memory \<Rightarrow> uint64 \<Rightarrow> int32 \<Rightarrow> uint64 \<Rightarrow> (uint64 \<times> memory) option" where
  "memset m dest byte len =
     map_option (Pair dest)
       (if (dest OR len) AND 7 = 0 then memset_words m dest (dest + len) (memset_pattern byte)
        else memset_bytes m dest (dest + len) (ucast byte))"

subsection \<open>memmove\<close>

text \<open>\<^verbatim>\<open>while (n-- > 0)\<close> counts an unsigned \<^verbatim>\<open>size_t\<close> down: structural recursion on its value.\<close>

primrec memmove_up :: "memory \<Rightarrow> uint64 \<Rightarrow> uint64 \<Rightarrow> nat \<Rightarrow> memory" where
  "memmove_up m d s 0 = m"
| "memmove_up m d s (Suc n) = memmove_up (m(d := m s)) (d + 1) (s + 1) n"

primrec memmove_down :: "memory \<Rightarrow> uint64 \<Rightarrow> uint64 \<Rightarrow> nat \<Rightarrow> memory" where
  "memmove_down m d s 0 = m"
| "memmove_down m d s (Suc n) = memmove_down (m(d - 1 := m (s - 1))) (d - 1) (s - 1) n"

definition memmove :: "memory \<Rightarrow> uint64 \<Rightarrow> uint64 \<Rightarrow> uint64 \<Rightarrow> uint64 \<times> memory" where
  "memmove m dst src n =
     (dst, if src < dst \<and> src + n > dst then memmove_down m (dst + n) (src + n) (unat n)
           else memmove_up m dst src (unat n))"

subsection \<open>strcpy and safestrcpy\<close>

partial_function (option) strcpy_loop :: "memory \<Rightarrow> uint64 \<Rightarrow> uint64 \<Rightarrow> memory option" where
  "strcpy_loop m d src =
     (let m' = m(d := m src) in if m src \<noteq> 0 then strcpy_loop m' (d + 1) (src + 1) else Some m')"

definition strcpy :: "memory \<Rightarrow> uint64 \<Rightarrow> uint64 \<Rightarrow> (uint64 \<times> memory) option" where
  "strcpy m dest src = map_option (Pair dest) (strcpy_loop m dest src)"

text \<open>
  \<^verbatim>\<open>while (--n > 0 && (*s++ = *t++) != 0);\<close> with \<open>n\<close> the value before the decrement: the loop
  returns the memory and the pointer \<open>s\<close> it ends with.
\<close>

fun safestrcpy_loop :: "memory \<Rightarrow> uint64 \<Rightarrow> uint64 \<Rightarrow> nat \<Rightarrow> memory \<times> uint64" where
  "safestrcpy_loop m s t 0 = (m, s)"
| "safestrcpy_loop m s t (Suc n) =
     (if n > 0 then
        (let m' = m(s := m t) in
         if m t \<noteq> 0 then safestrcpy_loop m' (s + 1) (t + 1) n else (m', s + 1))
      else (m, s))"

definition safestrcpy :: "memory \<Rightarrow> uint64 \<Rightarrow> uint64 \<Rightarrow> int32 \<Rightarrow> uint64 \<times> memory" where
  "safestrcpy m s t n =
     (if sint n \<le> 0 then (s, m)
      else let (m', s') = safestrcpy_loop m s t (nat (sint n)) in (s, m'(s' := 0)))"

subsection \<open>atol\<close>

partial_function (option) skip_spaces :: "memory \<Rightarrow> uint64 \<Rightarrow> uint64 option" where
  "skip_spaces m p = (if m p = 32 then skip_spaces m (p + 1) else Some p)"

partial_function (option) atol_digits :: "memory \<Rightarrow> uint64 \<Rightarrow> int64 \<Rightarrow> int64 option" where
  "atol_digits m p res =
     (if m p \<noteq> 0 then atol_digits m (p + 1) (res * 10 + (ucast (m p) - 48)) else Some res)"

definition atol :: "memory \<Rightarrow> uint64 \<Rightarrow> int64 option" where
  "atol m str =
     (case skip_spaces m str of
        None \<Rightarrow> None
      | Some p \<Rightarrow>
          let signed = (m p = 45 \<or> m p = 43);
              sign = (signed \<and> m p = 45)
          in map_option (\<lambda>res. if sign then - res else res)
               (atol_digits m (if signed then p + 1 else p) 0))"

subsection \<open>Correctness of the copies\<close>

lemma write64_read64: "write64 m d (read64 m s) = write_bytes m d (read_bytes m s 8)"
  using le_bytes_le_word [of "read_bytes m s 8", where 'a = 64]
  by (simp add: write64_def read64_def del: le_bytes.simps)

lemma read_bytes_upd_apart:
  "apart d 1 s n \<Longrightarrow> read_bytes (m(d := b)) s n = read_bytes m s n"
  by (simp add: fun_upd_write_bytes read_write_bytes_apart)

lemma less_add_of_nat:
  "unat (d :: uint64) + n < 2 ^ 64 \<Longrightarrow> d < d + of_nat n \<longleftrightarrow> 0 < n"
  by (simp add: word_less_nat_alt unat_add_small)

text \<open>Where writing \<open>d, d+1, ...\<close> from \<open>s, s+1, ...\<close> never reads a byte already written.\<close>

definition forward_safe :: "uint64 \<Rightarrow> uint64 \<Rightarrow> nat \<Rightarrow> bool" where
  "forward_safe d s n \<longleftrightarrow> unat (s - d) + n \<le> 2 ^ 64"

lemma forward_safe_apart: "forward_safe d s (Suc n) \<Longrightarrow> apart d 1 (s + 1) n"
proof -
  assume "forward_safe d s (Suc n)"
  then have *: "unat (s - d) + Suc n \<le> 2 ^ 64" by (simp add: forward_safe_def)
  show ?thesis
  proof (cases n)
    case (Suc k)
    with * have "unat (s - d + of_nat 1) = unat (s - d) + 1"
      by (intro unat_add_small) simp
    moreover have "s + 1 - d = s - d + of_nat 1" by simp
    ultimately have "unat (s + 1 - d) = unat (s - d) + 1" by (simp only:)
    with * show ?thesis by (simp add: apart_nat)
  qed (simp add: apart_def)
qed

lemma forward_safe_Suc: "forward_safe d s (Suc n) \<Longrightarrow> forward_safe (d + 1) (s + 1) n"
  by (simp add: forward_safe_def)

lemma apart_forward_safe: "apart d n s n \<Longrightarrow> forward_safe d s n"
  using unat_bound64 [of "s - d"] by (auto simp: apart_nat forward_safe_def)

lemma write_bytes_Cons:
  "length (b # bs) \<le> 2 ^ 64 \<Longrightarrow> write_bytes (m(a := b)) (a + 1) bs = write_bytes m a (b # bs)"
  using write_bytes_append [of "[b]" bs m a] by (simp add: fun_upd_write_bytes)

lemma memmove_up_correct:
  "forward_safe d s n \<Longrightarrow> n \<le> 2 ^ 64 \<Longrightarrow>
    memmove_up m d s n = write_bytes m d (read_bytes m s n)"
proof (induction n arbitrary: m d s)
  case 0
  then show ?case by simp
next
  case (Suc n)
  note safe = Suc.prems(1)
  have "memmove_up m d s (Suc n) =
      write_bytes (m(d := m s)) (d + 1) (read_bytes (m(d := m s)) (s + 1) n)"
    using Suc.IH [OF forward_safe_Suc [OF safe]] Suc.prems(2) by simp
  also have "read_bytes (m(d := m s)) (s + 1) n = read_bytes m (s + 1) n"
    by (rule read_bytes_upd_apart [OF forward_safe_apart [OF safe]])
  also have "write_bytes (m(d := m s)) (d + 1) \<dots> = write_bytes m d (m s # \<dots>)"
    using Suc.prems(2) by (intro write_bytes_Cons) simp
  finally show ?case by (simp add: read_bytes_Suc)
qed

lemma read_bytes_snoc: "read_bytes m a (Suc n) = read_bytes m a n @ [m (a + of_nat n)]"
  by (simp add: read_bytes_def)

lemma backward_apart:
  assumes "unat (d - s) + Suc n \<le> 2 ^ 64"
  shows "apart (d - 1) 1 (s - of_nat (Suc n)) n"
proof (cases n)
  case (Suc k)
  have "unat (d - s + of_nat n) = unat (d - s) + n"
    using assms by (intro unat_add_small) simp
  moreover have "(d - 1) - (s - of_nat (Suc n)) = d - s + of_nat n"
    by simp
  ultimately have "unat ((d - 1) - (s - of_nat (Suc n))) = unat (d - s) + n"
    by (simp only:)
  then have "apart (s - of_nat (Suc n)) n (d - 1) 1"
    using assms by (simp only: apart_nat) simp
  then show ?thesis by (simp add: apart_sym)
qed (simp add: apart_def)

lemma memmove_down_correct:
  "unat (d - s) + n \<le> 2 ^ 64 \<Longrightarrow> n \<le> 2 ^ 64 \<Longrightarrow>
    memmove_down m d s n = write_bytes m (d - of_nat n) (read_bytes m (s - of_nat n) n)"
proof (induction n arbitrary: m d s)
  case 0
  then show ?case by simp
next
  case (Suc n)
  let ?m1 = "m(d - 1 := m (s - 1))" and ?a = "d - of_nat (Suc n)" and ?b = "s - of_nat (Suc n)"
  let ?xs = "read_bytes m ?b n"
  have addr: "d - 1 - of_nat n = ?a" "s - 1 - of_nat n = ?b"
    by (simp_all add: algebra_simps)
  have "memmove_down ?m1 (d - 1) (s - 1) n =
      write_bytes ?m1 (d - 1 - of_nat n) (read_bytes ?m1 (s - 1 - of_nat n) n)"
    using Suc.prems by (intro Suc.IH) simp_all
  then have IH: "memmove_down m d s (Suc n) = write_bytes ?m1 ?a (read_bytes ?m1 ?b n)"
    unfolding memmove_down.simps addr .
  have rd: "read_bytes ?m1 ?b n = ?xs"
    by (rule read_bytes_upd_apart [OF backward_apart [OF Suc.prems(1)]])
  have last: "d - 1 = ?a + of_nat (length ?xs)" "m (s - 1) = m (?b + of_nat n)"
    by simp_all
  have "apart ?a n (?a + of_nat n) 1"
    using Suc.prems(2) by (simp only: apart_add0 apart_nat) (simp add: unat_of_nat_small)
  then have "apart (?a + of_nat (length ?xs)) (length [m (s - 1)]) ?a (length ?xs)"
    by (subst apart_sym) (simp only: length_read_bytes list.size add_0 One_nat_def)
  then have sep: "apart (d - 1) (length [m (s - 1)]) ?a (length ?xs)"
    by (simp only: last(1))
  have "write_bytes ?m1 ?a ?xs x = write_bytes m ?a (?xs @ [m (s - 1)]) x" for x
  proof -
    have "write_bytes ?m1 ?a ?xs x = write_bytes (write_bytes m ?a ?xs) (d - 1) [m (s - 1)] x"
      unfolding fun_upd_write_bytes by (rule write_write_bytes_apart [OF sep]) simp
    also have "\<dots> = write_bytes m ?a (?xs @ [m (s - 1)]) x"
      using write_bytes_append [of ?xs "[m (s - 1)]" m ?a] Suc.prems(2) unfolding last(1) by simp
    finally show ?thesis .
  qed
  then show ?case
    unfolding IH rd read_bytes_snoc last(2) [symmetric] by blast
qed

lemma memcpy_bytes_correct:
  "forward_safe d s n \<Longrightarrow> unat d + n < 2 ^ 64 \<Longrightarrow>
    memcpy_bytes m d s (d + of_nat n) = Some (write_bytes m d (read_bytes m s n))"
proof (induction n arbitrary: m d s)
  case 0
  then show ?case by (simp add: memcpy_bytes.simps)
next
  case (Suc n)
  have "unat (d + 1) = unat d + 1"
    using Suc.prems(2) unat_add_small [of d 1] by simp
  with Suc.prems have nxt: "memcpy_bytes (m(d := m s)) (d + 1) (s + 1) (d + 1 + of_nat n) =
      Some (write_bytes (m(d := m s)) (d + 1) (read_bytes (m(d := m s)) (s + 1) n))"
    by (intro Suc.IH forward_safe_Suc) simp_all
  have "d < d + of_nat (Suc n)"
    using Suc.prems(2) less_add_of_nat by blast
  then have "memcpy_bytes m d s (d + of_nat (Suc n)) =
      memcpy_bytes (m(d := m s)) (d + 1) (s + 1) (d + 1 + of_nat n)"
    by (subst memcpy_bytes.simps) (simp add: add.assoc)
  with nxt Suc.prems(2) show ?case
    by (simp add: read_bytes_upd_apart [OF forward_safe_apart [OF Suc.prems(1)]]
        write_bytes_Cons read_bytes_Suc)
qed

lemma and_7_unat: "unat ((d :: uint64) AND 7) = unat d mod 8"
proof -
  have "d AND 7 = take_bit 3 d"
    by (simp add: take_bit_eq_mask mask_eq_decr_exp)
  then show ?thesis
    by (simp add: take_bit_eq_mod unat_mod)
qed

lemma and_7_or_eq_0:
  "((a :: uint64) OR b) AND 7 = 0 \<longleftrightarrow> unat a mod 8 = 0 \<and> unat b mod 8 = 0"
proof -
  have "(a OR b) AND 7 = (a AND 7) OR (b AND 7)"
    by (rule bit.conj_disj_distrib2)
  then have "(a OR b) AND 7 = 0 \<longleftrightarrow> a AND 7 = 0 \<and> b AND 7 = 0"
    by (simp add: or_eq_0_iff)
  then show ?thesis
    by (simp flip: and_7_unat add: unat_eq_0)
qed

lemma unat_add_mod: "unat (d :: uint64) + unat n < 2 ^ 64 \<Longrightarrow> unat (d + n) = unat d + unat n"
  using unat_add_small [of d "unat n"] by simp

lemma apart_shift8: "apart d (8 + n) s (8 + n) \<Longrightarrow> apart d 8 (s + 8) n"
  using apart_sub [of d "8 + n" s "8 + n" 0 8 8 n] by simp

lemma memcpy_words_correct:
  assumes "r < 8" and "apart d (8 * k + r) s (8 * k + r)"
    and "unat d + (8 * k + r) < 2 ^ 64" and "8 \<le> unat d"
  shows "memcpy_words m d s (d + of_nat (8 * k + r) - 7) =
     Some (write_bytes m d (read_bytes m s (8 * k)), d + of_nat (8 * k), s + of_nat (8 * k))"
  using assms
proof (induction k arbitrary: m d s)
  case 0
  have "unat (d + of_nat r - 7) = unat d + r - 7"
    using 0 by (subst unat_sub_le_word) (simp_all add: word_le_nat_alt unat_add_small)
  with 0 have "\<not> d < d + of_nat r - 7"
    by (simp add: word_less_nat_alt)
  then show ?case by (subst memcpy_words.simps) simp
next
  case (Suc k)
  let ?n = "8 * k + r"
  let ?lim = "d + of_nat (8 * Suc k + r) - 7"
  let ?m1 = "write_bytes m d (read_bytes m s 8)"
  have d8: "unat (d + 8) = unat d + 8"
    using Suc.prems(3) unat_add_small [of d 8] by simp
  have ap: "apart d (8 + ?n) s (8 + ?n)"
    using Suc.prems(2) by (simp add: add.assoc)
  have "unat ?lim = unat d + (8 * Suc k + r) - 7"
    using Suc.prems by (subst unat_sub_le_word) (simp_all only: word_le_nat_alt unat_add_small, simp_all)
  then have guard: "d < ?lim"
    by (simp only: word_less_nat_alt) simp
  have lim: "?lim = (d + 8) + of_nat ?n - 7"
    by simp
  have "memcpy_words ?m1 (d + 8) (s + 8) ((d + 8) + of_nat ?n - 7) =
     Some (write_bytes ?m1 (d + 8) (read_bytes ?m1 (s + 8) (8 * k)),
           d + 8 + of_nat (8 * k), s + 8 + of_nat (8 * k))"
    using Suc.prems ap d8 apart_sub [OF ap, of 8 ?n 8 ?n]
    by (intro Suc.IH) simp_all
  moreover have "read_bytes ?m1 (s + 8) (8 * k) = read_bytes m (s + 8) (8 * k)"
    using apart_sub [OF apart_shift8 [OF ap], of 0 8 0 "8 * k"]
    by (intro read_write_bytes_apart) simp
  moreover have "write_bytes ?m1 (d + 8) (read_bytes m (s + 8) (8 * k)) =
      write_bytes m d (read_bytes m s (8 * Suc k))"
    using write_bytes_append [of "read_bytes m s 8" "read_bytes m (s + 8) (8 * k)" m d]
      read_bytes_add [of m s 8 "8 * k"] Suc.prems(3) by simp
  ultimately show ?case
    using guard by (subst memcpy_words.simps) (simp add: lim write64_read64 algebra_simps)
qed

text \<open>
  C39.  \<^verbatim>\<open>memcpy\<close> copies: for disjoint ranges that do not wrap around, with a non-null
  destination, both the word-wise and the byte-wise path end, return \<open>dest\<close>, put the
  source bytes at \<open>dest\<close> and leave every other byte alone.
\<close>

theorem memcpy_correct:
  assumes "apart dest (unat len) src (unat len)" and "unat dest + unat len < 2 ^ 64" and "dest \<noteq> 0"
  shows "memcpy m dest src len = Some (dest, write_bytes m dest (read_bytes m src (unat len)))"
proof (cases "(dest OR src) AND 7 = 0")
  case False
  then show ?thesis
    using memcpy_bytes_correct [OF apart_forward_safe [OF assms(1)] assms(2)]
    by (simp add: memcpy_def)
next
  case True
  define k r where "k = unat len div 8" and "r = unat len mod 8"
  have n: "unat len = 8 * k + r" and r: "r < 8"
    by (simp_all add: k_def r_def)
  have len: "len = of_nat (8 * k + r)"
    by (simp flip: n)
  have "8 \<le> unat dest"
  proof (rule ccontr)
    assume "\<not> 8 \<le> unat dest"
    then have "unat dest mod 8 = unat dest" by simp
    with True assms(3) show False by (simp add: and_7_or_eq_0 unat_eq_0)
  qed
  then have words: "memcpy_words m dest src (dest + len - 7) =
      Some (write_bytes m dest (read_bytes m src (8 * k)), dest + of_nat (8 * k), src + of_nat (8 * k))"
    unfolding len using assms(1,2) unfolding n by (intro memcpy_words_correct [OF r])
  let ?m1 = "write_bytes m dest (read_bytes m src (8 * k))"
  have ap: "apart (dest + of_nat (8 * k)) r (src + of_nat (8 * k)) r"
    using assms(1) by (rule apart_sub) (simp_all add: n)
  have dk: "unat (dest + of_nat (8 * k)) + r < 2 ^ 64"
    using assms(2) by (subst unat_add_small) (simp_all add: n)
  have "memcpy_bytes ?m1 (dest + of_nat (8 * k)) (src + of_nat (8 * k)) (dest + of_nat (8 * k) + of_nat r) =
      Some (write_bytes ?m1 (dest + of_nat (8 * k)) (read_bytes ?m1 (src + of_nat (8 * k)) r))"
    by (rule memcpy_bytes_correct [OF apart_forward_safe [OF ap] dk])
  moreover have "read_bytes ?m1 (src + of_nat (8 * k)) r = read_bytes m (src + of_nat (8 * k)) r"
    using apart_sub [OF assms(1), of 0 "8 * k" "8 * k" r] n
    by (intro read_write_bytes_apart) simp
  moreover have "write_bytes ?m1 (dest + of_nat (8 * k)) (read_bytes m (src + of_nat (8 * k)) r) =
      write_bytes m dest (read_bytes m src (8 * k + r))"
    using write_bytes_append [of "read_bytes m src (8 * k)" "read_bytes m (src + of_nat (8 * k)) r" m dest]
      assms(2) n by (simp add: read_bytes_add)
  moreover have "dest + of_nat (8 * k) + of_nat r = dest + len"
    by (simp add: len)
  ultimately have "memcpy_bytes ?m1 (dest + of_nat (8 * k)) (src + of_nat (8 * k)) (dest + len) =
      Some (write_bytes m dest (read_bytes m src (unat len)))"
    by (simp only: n)
  then show ?thesis
    by (simp add: memcpy_def words True del: of_nat_mult)
qed

theorem memcpy_correct_witness:
  "memcpy (\<lambda>a. ucast a) 0x1000 0x2003 5 =
     Some (0x1000, write_bytes (\<lambda>a. ucast a) 0x1000 (read_bytes (\<lambda>a. ucast a) 0x2003 5))"
  using memcpy_correct [of "0x1000" 5 "0x2003" "\<lambda>a. ucast a"] by (simp add: apart_def)

text \<open>
  C40.  \<^verbatim>\<open>memmove\<close> copies also between overlapping ranges: for ranges that do not wrap
  around, the destination holds the bytes the source held before the call and every other
  byte is unchanged.
\<close>

theorem memmove_correct:
  assumes "unat src + unat n < 2 ^ 64" and "unat dst + unat n < 2 ^ 64"
  shows "memmove m dst src n = (dst, write_bytes m dst (read_bytes m src (unat n)))"
proof (cases "src < dst \<and> src + n > dst")
  case True
  have "unat (dst - src) = unat dst - unat src"
    using True unat_sub_le_word [of src dst] by (simp add: less_imp_le)
  then have "memmove_down m (dst + n) (src + n) (unat n) =
      write_bytes m (dst + n - of_nat (unat n)) (read_bytes m (src + n - of_nat (unat n)) (unat n))"
    using assms(2) unat_bound64 [of n] by (intro memmove_down_correct) simp_all
  with True show ?thesis by (simp add: memmove_def)
next
  case False
  have "forward_safe dst src (unat n)"
  proof (cases "src < dst")
    case True
    with False have "unat src + unat n \<le> unat dst"
      using unat_add_mod [OF assms(1)] by (simp add: word_less_nat_alt)
    moreover have "unat (src - dst) = 2 ^ 64 - (unat dst - unat src)"
      using True unat_minus_nonzero [of "dst - src"] unat_sub_le_word [of src dst] by simp
    ultimately show ?thesis
      using unat_bound64 [of dst] by (simp add: forward_safe_def)
  next
    case False
    then have "unat (src - dst) = unat src - unat dst"
      by (simp add: unat_sub_le_word)
    with assms(1) show ?thesis by (simp add: forward_safe_def)
  qed
  with False show ?thesis
    using memmove_up_correct [of dst src "unat n"] unat_bound64 [of n] by (auto simp: memmove_def)
qed

theorem memmove_correct_witness:
  "memmove (\<lambda>a. ucast a) 0x1002 0x1000 8 =
     (0x1002, write_bytes (\<lambda>a. ucast a) 0x1002 (read_bytes (\<lambda>a. ucast a) 0x1000 8))"
  using memmove_correct [of "0x1000" 8 "0x1002" "\<lambda>a. ucast a"] by simp

subsection \<open>Correctness of memset\<close>

lemma memset_pattern_le_word: "memset_pattern byte = le_word (replicate 8 (ucast byte))"
proof -
  have "ucast (byte AND 0xFF) = (ucast (ucast byte :: uint8) :: uint64)"
  proof (rule bit_word_eqI)
    fix n
    have "byte AND 0xFF = take_bit 8 byte"
      by (simp add: take_bit_eq_mask mask_eq_decr_exp)
    then show "bit (ucast (byte AND 0xFF) :: uint64) n = bit (ucast (ucast byte :: uint8) :: uint64) n"
      by (auto simp: bit_simps)
  qed
  moreover have "replicate 8 x = [x, x, x, x, x, x, x, x]" for x :: uint8
    by (simp add: numeral_eq_Suc)
  ultimately show ?thesis
    by (simp add: memset_pattern_def Let_def push_bit_or ac_simps)
qed

lemma memset_pattern_bytes: "le_bytes 8 (memset_pattern byte) = replicate 8 (ucast byte)"
  using le_bytes_le_word [of "replicate 8 (ucast byte)", where 'a = 64]
  by (simp add: memset_pattern_le_word del: le_bytes.simps le_word.simps)


lemma memset_bytes_correct:
  "unat d + n < 2 ^ 64 \<Longrightarrow>
    memset_bytes m d (d + of_nat n) b = Some (write_bytes m d (replicate n b))"
proof (induction n arbitrary: m d)
  case 0
  then show ?case by (simp add: memset_bytes.simps)
next
  case (Suc n)
  have d1: "unat (d + 1) = unat d + 1"
    using Suc.prems unat_add_small [of d 1] by simp
  have guard: "d < d + of_nat (Suc n)"
    using Suc.prems less_add_of_nat by blast
  have "memset_bytes (m(d := b)) (d + 1) (d + 1 + of_nat n) b =
      Some (write_bytes (m(d := b)) (d + 1) (replicate n b))"
    using Suc.prems d1 by (intro Suc.IH) simp
  with guard Suc.prems show ?case
    by (subst memset_bytes.simps) (simp add: write_bytes_Cons add.assoc)
qed

lemma memset_words_correct:
  "unat d + 8 * k < 2 ^ 64 \<Longrightarrow> le_bytes 8 w = replicate 8 b \<Longrightarrow>
    memset_words m d (d + of_nat (8 * k)) w = Some (write_bytes m d (replicate (8 * k) b))"
proof (induction k arbitrary: m d)
  case 0
  then show ?case by (simp add: memset_words.simps)
next
  case (Suc k)
  have d8: "unat (d + 8) = unat d + 8"
    using Suc.prems(1) unat_add_small [of d 8] by simp
  have guard: "d < d + of_nat (8 * Suc k)"
    using Suc.prems(1) by (simp only: less_add_of_nat) simp
  have w: "write64 m d w = write_bytes m d (replicate 8 b)"
    using Suc.prems(2) by (simp only: write64_def)
  have "memset_words (write64 m d w) (d + 8) (d + 8 + of_nat (8 * k)) w =
      Some (write_bytes (write64 m d w) (d + 8) (replicate (8 * k) b))"
    using Suc.prems d8 by (intro Suc.IH) simp_all
  moreover have "write_bytes (write64 m d w) (d + 8) (replicate (8 * k) b) =
      write_bytes m d (replicate (8 * Suc k) b)"
    using write_bytes_append [of "replicate 8 b" "replicate (8 * k) b" m d] Suc.prems(1) w
    by (simp add: replicate_add)
  moreover have "d + 8 + of_nat (8 * k) = d + of_nat (8 * Suc k)"
    by simp
  ultimately show ?case
    using guard by (subst memset_words.simps) (simp only: if_True)
qed

lemma memset_fill:
  assumes "unat dest + unat len < 2 ^ 64"
  shows "memset m dest byte len = Some (dest, write_bytes m dest (replicate (unat len) (ucast byte)))"
proof (cases "(dest OR len) AND 7 = 0")
  case True
  then have "8 * (unat len div 8) = unat len"
    by (auto simp: and_7_or_eq_0)
  then show ?thesis
    using True assms memset_words_correct [of dest "unat len div 8" _ _ m, OF _ memset_pattern_bytes]
    by (simp add: memset_def del: of_nat_mult of_nat_numeral)
next
  case False
  then show ?thesis
    using memset_bytes_correct [OF assms, of m] by (simp add: memset_def)
qed


subsection \<open>Correctness of the string copies\<close>

lemma strcpy_loop_correct:
  "cstr_at m src bs \<Longrightarrow> forward_safe d src (Suc (length bs)) \<Longrightarrow>
    strcpy_loop m d src = Some (write_bytes m d (bs @ [0]))"
proof (induction bs arbitrary: m d src)
  case Nil
  then show ?case by (simp add: strcpy_loop.simps fun_upd_write_bytes)
next
  case (Cons b bs)
  have ap: "apart d 1 (src + 1) (Suc (length bs))"
    using forward_safe_apart [OF Cons.prems(2)] by simp
  have str: "cstr_at (m(d := b)) (src + 1) bs"
    using Cons.prems(1) ap by (simp add: fun_upd_write_bytes cstr_at_write_apart)
  have "forward_safe (d + 1) (src + 1) (Suc (length bs))"
    using Cons.prems(2) by (auto dest: forward_safe_Suc)
  with str have "strcpy_loop (m(d := b)) (d + 1) (src + 1) =
      Some (write_bytes (m(d := b)) (d + 1) (bs @ [0]))"
    by (rule Cons.IH)
  moreover have "length (b # bs @ [0]) \<le> 2 ^ 64"
    using Cons.prems(2) by (simp add: forward_safe_def)
  ultimately show ?case
    using Cons.prems(1) by (subst strcpy_loop.simps) (simp add: Let_def write_bytes_Cons)
qed

lemma strcpy_correct:
  assumes "cstr_at m src bs" and "apart dest (Suc (length bs)) src (Suc (length bs))"
  shows "strcpy m dest src = Some (dest, write_bytes m dest (bs @ [0]))"
  using strcpy_loop_correct [OF assms(1) apart_forward_safe [OF assms(2)]] by (simp add: strcpy_def)

text \<open>
  The loop of \<^verbatim>\<open>safestrcpy\<close> copies at most \<open>n - 1\<close> bytes and stops after the terminator.
\<close>

lemma safestrcpy_loop_correct:
  "cstr_at m t bs \<Longrightarrow> forward_safe s t (Suc (length bs)) \<Longrightarrow>
    safestrcpy_loop m s t (Suc n) =
      (write_bytes m s (take n (bs @ [0])), s + of_nat (min n (Suc (length bs))))"
proof (induction bs arbitrary: m s t n)
  case Nil
  then show ?case by (cases n) (simp_all add: Let_def fun_upd_write_bytes)
next
  case (Cons b bs)
  show ?case
  proof (cases n)
    case (Suc k)
    have ap: "apart s 1 (t + 1) (Suc (length bs))"
      using forward_safe_apart [OF Cons.prems(2)] by simp
    have str: "cstr_at (m(s := b)) (t + 1) bs"
      using Cons.prems(1) ap by (simp add: fun_upd_write_bytes cstr_at_write_apart)
    have "forward_safe (s + 1) (t + 1) (Suc (length bs))"
      using Cons.prems(2) by (auto dest: forward_safe_Suc)
    with str have "safestrcpy_loop (m(s := b)) (s + 1) (t + 1) (Suc k) =
        (write_bytes (m(s := b)) (s + 1) (take k (bs @ [0])), s + 1 + of_nat (min k (Suc (length bs))))"
      by (rule Cons.IH)
    moreover have "length (b # take k (bs @ [0])) \<le> 2 ^ 64"
      using Cons.prems(2) by (simp add: forward_safe_def min_def)
    ultimately show ?thesis
      using Cons.prems(1) Suc by (simp add: Let_def write_bytes_Cons add.assoc)
  qed simp
qed

lemma cstr_at_write_bytes:
  assumes "0 \<notin> set cs" and "length cs < length bs" and "length bs \<le> 2 ^ 64"
    and "take (length cs) bs = cs" and "bs ! length cs = 0"
  shows "cstr_at (write_bytes m a bs) a cs"
proof -
  have "read_bytes (write_bytes m a bs) a (length cs) = cs"
  proof (rule nth_equalityI)
    fix i assume "i < length (read_bytes (write_bytes m a bs) a (length cs))"
    then have i: "i < length cs" by simp
    have "bs ! i = take (length cs) bs ! i" using i by simp
    then show "read_bytes (write_bytes m a bs) a (length cs) ! i = cs ! i"
      using i assms by (simp add: write_bytes_in)
  qed simp
  with assms show ?thesis
    by (simp add: cstr_at_read_bytes write_bytes_in)
qed

text \<open>
  \<^verbatim>\<open>safestrcpy(s, t, n)\<close> with \<open>n > 0\<close> always leaves a terminated string at \<open>s\<close>, namely
  the first \<open>n - 1\<close> characters of \<open>t\<close>, and writes nothing outside the \<open>n\<close> bytes at \<open>s\<close>.
\<close>

lemma safestrcpy_correct:
  assumes "cstr_at m t bs" and "apart s (Suc (length bs)) t (Suc (length bs))" and "0 < sint n"
  shows "fst (safestrcpy m s t n) = s
    \<and> cstr_at (snd (safestrcpy m s t n)) s (take (nat (sint n) - 1) bs)
    \<and> (\<forall>x. nat (sint n) \<le> unat (x - s) \<longrightarrow> snd (safestrcpy m s t n) x = m x)"
proof -
  define k where "k = nat (sint n) - 1"
  have n: "nat (sint n) = Suc k"
    using assms(3) by (simp add: k_def)
  let ?bs = "take k (bs @ [0]) @ [0]"
  have safe: "forward_safe s t (Suc (length bs))"
    by (rule apart_forward_safe [OF assms(2)])
  have "sint n < 2 ^ 31"
    using sint_lt [of n] by simp
  then have k_bound: "Suc k \<le> 2 ^ 64"
    by (simp add: k_def)
  have len: "length ?bs \<le> Suc k" "length ?bs \<le> 2 ^ 64"
    using k_bound by simp_all
  have "(write_bytes m s (take k (bs @ [0]))) (s + of_nat (min k (Suc (length bs))) := 0) = write_bytes m s ?bs"
  proof -
    have "min k (Suc (length bs)) = length (take k (bs @ [0]))" by simp
    then show ?thesis
      using write_bytes_append [of "take k (bs @ [0])" "[0]" m s] len(2)
      by (simp only: fun_upd_write_bytes) simp
  qed
  then have res: "safestrcpy m s t n = (s, write_bytes m s ?bs)"
    using assms(3) safestrcpy_loop_correct [OF assms(1) safe, of k] by (simp add: safestrcpy_def n)
  have "cstr_at (write_bytes m s ?bs) s (take k bs)"
  proof (rule cstr_at_write_bytes)
    show "0 \<notin> set (take k bs)"
      using assms(1) by (auto simp: cstr_at_read_bytes dest: in_set_takeD)
    show "?bs ! length (take k bs) = 0"
      by (auto simp: nth_append min_def)
  qed (use len(2) in \<open>auto simp: min_def\<close>)
  with res n show ?thesis
    using len(1) by (auto simp: k_def [symmetric] intro!: write_bytes_out)
qed

subsection \<open>Correctness of atol\<close>

text \<open>The value of a decimal numeral given by its digits, most significant first.\<close>

fun dec_value :: "nat \<Rightarrow> nat list \<Rightarrow> nat" where
  "dec_value acc [] = acc"
| "dec_value acc (d # ds) = dec_value (10 * acc + d) ds"

lemma digit_byte:
  assumes "d < 10"
  shows "48 + of_nat d \<notin> {0, 32, 43, 45 :: uint8}"
proof -
  define w where "w = (48 + of_nat d :: uint8)"
  have "unat (of_nat (48 + d) :: uint8) = 48 + d"
    using assms by (intro unat_of_nat_small) simp
  then have "unat w = 48 + d" by (simp add: w_def)
  then have "w \<notin> {0, 32, 43, 45}" by auto
  then show ?thesis unfolding w_def .
qed

lemma atol_digits_correct:
  "cstr_at m p (map (\<lambda>d. of_nat (48 + d)) ds) \<Longrightarrow> (\<forall>d\<in>set ds. d < 10) \<Longrightarrow>
    atol_digits m p (of_nat acc) = Some (of_nat (dec_value acc ds))"
proof (induction ds arbitrary: p acc)
  case Nil
  then show ?case by (simp add: atol_digits.simps)
next
  case (Cons d ds)
  then have d: "d < 10" by simp
  then have "ucast (of_nat (48 + d) :: uint8) = (of_nat (48 + d) :: uint64)"
    by (simp only: unsigned_of_nat) (simp add: take_bit_nat_eq_self)
  moreover have "of_nat acc * 10 + ((of_nat (48 + d) :: uint64) - 48) = of_nat (10 * acc + d)"
    by simp
  ultimately show ?case
    using Cons by (subst atol_digits.simps) (simp del: of_nat_add of_nat_mult)
qed

lemma skip_spaces_correct:
  "cstr_at m p (replicate k 32 @ bs) \<Longrightarrow> hd (bs @ [0]) \<noteq> 32 \<Longrightarrow>
    skip_spaces m p = Some (p + of_nat k) \<and> cstr_at m (p + of_nat k) bs"
proof (induction k arbitrary: p)
  case 0
  then show ?case by (cases bs) (auto simp: skip_spaces.simps)
next
  case (Suc k)
  then have "skip_spaces m (p + 1) = Some (p + 1 + of_nat k) \<and> cstr_at m (p + 1 + of_nat k) bs"
    by simp
  with Suc.prems show ?case by (subst skip_spaces.simps) (simp add: add.assoc)
qed

lemma atol_dec:
  assumes "cstr_at m p (replicate k 32 @ (if neg then [45] else []) @ map (\<lambda>d. of_nat (48 + d)) ds)"
    and "\<forall>d\<in>set ds. d < 10"
  shows "atol m p = Some (if neg then - of_nat (dec_value 0 ds) else of_nat (dec_value 0 ds))"
proof -
  let ?ds = "map (\<lambda>d. of_nat (48 + d)) ds :: uint8 list"
  have digit: "(of_nat (48 + d) :: uint8) \<notin> {32, 43, 45}" if "d < 10" for d :: nat
    using digit_byte [OF that] by auto
  have hd: "hd (((if neg then [45] else []) @ ?ds) @ [0]) \<noteq> 32"
    using assms(2) digit by (cases ds) auto
  from skip_spaces_correct [OF assms(1) hd]
  have skip: "skip_spaces m p = Some (p + of_nat k)"
    and str: "cstr_at m (p + of_nat k) ((if neg then [45] else []) @ ?ds)"
    by simp_all
  show ?thesis
  proof (cases neg)
    case True
    with str have "m (p + of_nat k) = 45" "cstr_at m (p + of_nat k + 1) ?ds" by simp_all
    with True skip atol_digits_correct [of m "p + of_nat k + 1" ds 0] assms(2) show ?thesis
      by (simp add: atol_def)
  next
    case False
    with str have ds: "cstr_at m (p + of_nat k) ?ds" by simp
    then have "m (p + of_nat k) \<notin> {43, 45}"
      using assms(2) digit by (cases ds) auto
    with False skip ds atol_digits_correct [of m "p + of_nat k" ds 0] assms(2) show ?thesis
      by (simp add: atol_def)
  qed
qed

end
