(* ===== verification/Snprintf.thy ===== *)
theory Snprintf
  imports StringLib "HOL-Library.Signed_Division"
begin

text \<open>
  \<^verbatim>\<open>vsnprintf\<close> of \<^verbatim>\<open>util/snprintf.c\<close>, the formatter behind every message of the kernel and of
  the user library.  A format string is a HOL \<^typ>\<open>string\<close> (HOL characters are bytes), the output
  buffer a list of characters, and a variadic argument is one 64-bit slot: a number, or a
  pointer given by the string it points to (up to its terminator).  Taking an argument that is not there, or one of
  the wrong kind, is undefined behaviour in C and an error of the model, as is a write
  outside the buffer.

  The reference definition \<open>expand\<close> says what a format string means without any buffer;
  \<^verbatim>\<open>vsnprintf\<close> is shown to write exactly its truncation.
\<close>

datatype va = VaWord uint64 | VaStr string

subsection \<open>The pieces of vsnprintf\<close>

type_synonym buf = "char list"

text \<open>\<^verbatim>\<open>if (++pos < n) out[pos - 1] = c;\<close>\<close>

definition put :: "nat \<Rightarrow> char \<Rightarrow> buf \<times> nat \<Rightarrow> undef + buf \<times> nat" where
  "put n c = (\<lambda>(out, pos).
     let pos' = Suc pos in
     if pos' < n then
       (if pos' - 1 < length out then Inr (out[pos' - 1 := c], pos') else Inl BufOverflow)
     else Inr (out, pos'))"

fun bind_sum :: "undef + 'a \<Rightarrow> ('a \<Rightarrow> undef + 'b) \<Rightarrow> undef + 'b" where
  "bind_sum (Inl e) f = Inl e"
| "bind_sum (Inr x) f = f x"

fun map_ok :: "('a \<Rightarrow> 'b) \<Rightarrow> undef + 'a \<Rightarrow> undef + 'b" where
  "map_ok f (Inl e) = Inl e"
| "map_ok f (Inr x) = Inr (f x)"

text \<open>\<^verbatim>\<open>longarg ? va_arg(vl, long) : va_arg(vl, int)\<close>, widened to \<^verbatim>\<open>long\<close>.\<close>

fun va_num :: "bool \<Rightarrow> va list \<Rightarrow> undef + int64 \<times> va list" where
  "va_num longarg (VaWord w # vl) =
     Inr (if longarg then w else scast (ucast w :: int32), vl)"
| "va_num longarg _ = Inl VaArgs"

fun va_str :: "va list \<Rightarrow> undef + string \<times> va list" where
  "va_str (VaStr t # vl) = Inr (t, vl)"
| "va_str _ = Inl VaArgs"

definition hex_digit :: "int64 \<Rightarrow> nat \<Rightarrow> char" where
  "hex_digit num i =
     (let d = uint (signed_drop_bit (4 * i) num AND 0xF)
      in char_of (if d < 10 then 48 + d else 97 + d - 10))"

text \<open>The loop of \<^verbatim>\<open>%x\<close>: \<open>i\<close> runs down from its argument minus one to zero.\<close>

primrec hex_loop :: "nat \<Rightarrow> int64 \<Rightarrow> nat \<Rightarrow> buf \<times> nat \<Rightarrow> undef + buf \<times> nat" where
  "hex_loop n num 0 st = Inr st"
| "hex_loop n num (Suc i) st = bind_sum (put n (hex_digit num i) st) (hex_loop n num i)"

text \<open>\<^verbatim>\<open>long digits = 1; for (long nn = num; nn /= 10; digits++);\<close>\<close>

function count_digits :: "int \<Rightarrow> nat" where
  "count_digits nn = (let q = nn sdiv 10 in if q \<noteq> 0 then Suc (count_digits q) else 1)"
  by pat_completeness auto
termination
proof (relation "measure (\<lambda>nn. nat \<bar>nn\<bar>)")
  fix nn q :: int
  assume q: "q = nn sdiv 10" and "q \<noteq> 0"
  have "\<bar>nn sdiv 10\<bar> = \<bar>nn\<bar> div 10"
    by (cases "nn = 0") (simp_all add: signed_divide_int_def abs_mult abs_sgn_eq)
  moreover have "nn \<noteq> 0"
    using q \<open>q \<noteq> 0\<close> by auto
  ultimately have "\<bar>q\<bar> < \<bar>nn\<bar>"
    using q by simp
  then show "(q, nn) \<in> measure (\<lambda>nn. nat \<bar>nn\<bar>)"
    by simp
qed simp

declare count_digits.simps [simp del]

text \<open>The loop of \<^verbatim>\<open>%d\<close>, which writes the digits from the last to the first.\<close>

primrec dec_loop :: "nat \<Rightarrow> nat \<Rightarrow> nat \<Rightarrow> int \<Rightarrow> buf \<Rightarrow> undef + buf" where
  "dec_loop n pos 0 num out = Inr out"
| "dec_loop n pos (Suc i) num out =
     bind_sum
       (if pos + i + 1 < n then
          (if pos + i < length out then Inr (out[pos + i := char_of (48 + num smod 10)])
           else Inl BufOverflow)
        else Inr out)
       (dec_loop n pos i (num sdiv 10))"

primrec str_loop :: "nat \<Rightarrow> string \<Rightarrow> buf \<times> nat \<Rightarrow> undef + buf \<times> nat" where
  "str_loop n [] st = Inr st"
| "str_loop n (c # cs) st = bind_sum (put n c st) (str_loop n cs)"

definition conv_x :: "nat \<Rightarrow> bool \<Rightarrow> va list \<Rightarrow> buf \<times> nat \<Rightarrow> undef + (buf \<times> nat) \<times> va list" where
  "conv_x n longarg vl st =
     bind_sum (va_num longarg vl) (\<lambda>(num, vl').
       bind_sum (hex_loop n num (if longarg then 16 else 8) st) (\<lambda>st'. Inr (st', vl')))"

definition conv_d :: "nat \<Rightarrow> bool \<Rightarrow> va list \<Rightarrow> buf \<times> nat \<Rightarrow> undef + (buf \<times> nat) \<times> va list" where
  "conv_d n longarg vl st =
     bind_sum (va_num longarg vl) (\<lambda>(num, vl').
       let num' = (if sint num < 0 then - num else num) in
       bind_sum (if sint num < 0 then put n (CHR ''-'') st else Inr st) (\<lambda>(out, pos).
         let digits = count_digits (sint num') in
         bind_sum (dec_loop n pos digits (sint num') out) (\<lambda>out'.
           Inr ((out', pos + digits), vl'))))"

definition conv_s :: "nat \<Rightarrow> va list \<Rightarrow> buf \<times> nat \<Rightarrow> undef + (buf \<times> nat) \<times> va list" where
  "conv_s n vl st =
     bind_sum (va_str vl) (\<lambda>(s2, vl'). bind_sum (str_loop n s2 st) (\<lambda>st'. Inr (st', vl')))"

text \<open>\<^verbatim>\<open>if (++pos < n) out[pos - 1] = (char)va_arg(vl, int);\<close>: where the output is cut the argument is
  not taken.\<close>

definition conv_c :: "nat \<Rightarrow> va list \<Rightarrow> buf \<times> nat \<Rightarrow> undef + (buf \<times> nat) \<times> va list" where
  "conv_c n vl st =
     (if Suc (snd st) < n then
        bind_sum (va_num False vl) (\<lambda>(num, vl').
          bind_sum (put n (char_of (uint num)) st) (\<lambda>st'. Inr (st', vl')))
      else Inr ((fst st, Suc (snd st)), vl))"

text \<open>The main loop, over the format string.\<close>

fun format_loop :: "nat \<Rightarrow> bool \<Rightarrow> bool \<Rightarrow> string \<Rightarrow> va list \<Rightarrow> buf \<times> nat \<Rightarrow> undef + buf \<times> nat" where
  "format_loop n format longarg [] vl st = Inr st"
| "format_loop n format longarg (c # s) vl st =
     (if format then
        (if c = CHR ''l'' then format_loop n True True s vl st
         else if c = CHR ''p'' then
           bind_sum (put n (CHR ''0'') st) (\<lambda>st1.
           bind_sum (put n (CHR ''x'') st1) (\<lambda>st2.
           bind_sum (conv_x n True vl st2) (\<lambda>(st3, vl'). format_loop n False False s vl' st3)))
         else if c = CHR ''x'' then
           bind_sum (conv_x n longarg vl st) (\<lambda>(st', vl'). format_loop n False False s vl' st')
         else if c = CHR ''d'' then
           bind_sum (conv_d n longarg vl st) (\<lambda>(st', vl'). format_loop n False False s vl' st')
         else if c = CHR ''s'' then
           bind_sum (conv_s n vl st) (\<lambda>(st', vl'). format_loop n False False s vl' st')
         else if c = CHR ''c'' then
           bind_sum (conv_c n vl st) (\<lambda>(st', vl'). format_loop n False False s vl' st')
         else format_loop n format longarg s vl st)
      else if c = CHR ''%'' then format_loop n True longarg s vl st
      else bind_sum (put n c st) (format_loop n format longarg s vl))"

text \<open>\<^verbatim>\<open>vsnprintf\<close>: the formatted text, the terminator, and the returned length.\<close>

definition vsnprintf :: "buf \<Rightarrow> nat \<Rightarrow> string \<Rightarrow> va list \<Rightarrow> undef + int32 \<times> buf" where
  "vsnprintf out n s vl =
     bind_sum (format_loop n False False s vl (out, 0)) (\<lambda>(out', pos).
       if pos < n then
         (if pos < length out' then Inr (of_nat pos, out'[pos := CHR 0x00]) else Inl BufOverflow)
       else if n \<noteq> 0 then
         (if n - 1 < length out' then Inr (of_nat pos, out'[n - 1 := CHR 0x00]) else Inl BufOverflow)
       else Inr (of_nat pos, out'))"

subsection \<open>The reference definition\<close>

text \<open>The decimal numeral of a number, of a given number of digits.\<close>

primrec dec_chars :: "nat \<Rightarrow> int \<Rightarrow> string" where
  "dec_chars 0 num = []"
| "dec_chars (Suc i) num = dec_chars i (num sdiv 10) @ [char_of (48 + num smod 10)]"

definition hex_chars :: "nat \<Rightarrow> int64 \<Rightarrow> string" where
  "hex_chars k num = map (hex_digit num) (rev [0..<k])"

definition expand_d :: "int64 \<Rightarrow> string" where
  "expand_d num =
     (let num' = (if sint num < 0 then - num else num)
      in (if sint num < 0 then ''-'' else '''') @ dec_chars (count_digits (sint num')) (sint num'))"

text \<open>\<open>expand n pos\<close> is the text of a format string that starts at position \<open>pos\<close> of a buffer
  of \<open>n\<close> bytes.  Only a \<^verbatim>\<open>%c\<close> past the end of the buffer looks at the two: it keeps its place, which
  is cut from the output, and takes no argument.\<close>

fun expand :: "nat \<Rightarrow> nat \<Rightarrow> bool \<Rightarrow> bool \<Rightarrow> string \<Rightarrow> va list \<Rightarrow> undef + string" where
  "expand n pos format longarg [] vl = Inr []"
| "expand n pos format longarg (c # s) vl =
     (if format then
        (if c = CHR ''l'' then expand n pos True True s vl
         else if c = CHR ''p'' then
           bind_sum (va_num True vl) (\<lambda>(num, vl').
             let t = ''0x'' @ hex_chars 16 num in
             map_ok (\<lambda>e. t @ e) (expand n (pos + length t) False False s vl'))
         else if c = CHR ''x'' then
           bind_sum (va_num longarg vl) (\<lambda>(num, vl').
             let t = hex_chars (if longarg then 16 else 8) num in
             map_ok (\<lambda>e. t @ e) (expand n (pos + length t) False False s vl'))
         else if c = CHR ''d'' then
           bind_sum (va_num longarg vl) (\<lambda>(num, vl').
             map_ok (\<lambda>e. expand_d num @ e) (expand n (pos + length (expand_d num)) False False s vl'))
         else if c = CHR ''s'' then
           bind_sum (va_str vl) (\<lambda>(t, vl').
             map_ok (\<lambda>e. t @ e) (expand n (pos + length t) False False s vl'))
         else if c = CHR ''c'' then
           (if Suc pos < n then
              bind_sum (va_num False vl) (\<lambda>(num, vl').
                map_ok (\<lambda>e. char_of (uint num) # e) (expand n (Suc pos) False False s vl'))
            else map_ok (\<lambda>e. CHR 0x00 # e) (expand n (Suc pos) False False s vl))
         else expand n pos format longarg s vl)
      else if c = CHR ''%'' then expand n pos True longarg s vl
      else map_ok (\<lambda>e. c # e) (expand n (Suc pos) format longarg s vl))"

text \<open>The characters that end a conversion and take an argument; after a percent sign every other one is skipped,
  and an \<^verbatim>\<open>l\<close> among them makes a number long.\<close>

definition conversion :: "char \<Rightarrow> bool" where
  "conversion c \<longleftrightarrow> c \<in> set ''pxdsc''"

definition number_text :: "bool \<Rightarrow> char \<Rightarrow> uint64 \<Rightarrow> string" where
  "number_text longarg c w =
     (let num = (if longarg then w else scast (ucast w :: int32)) in
      if c = CHR ''p'' then ''0x'' @ hex_chars 16 w
      else if c = CHR ''x'' then hex_chars (if longarg then 16 else 8) num
      else expand_d num)"

text \<open>The text a terminated array holds.\<close>

definition c_text :: "string \<Rightarrow> string" where
  "c_text cs = takeWhile (\<lambda>c. c \<noteq> CHR 0x00) cs"

text \<open>A buffer after the text \<open>e\<close> was written into its first \<open>n - 1\<close> places.\<close>

definition fill :: "nat \<Rightarrow> buf \<Rightarrow> string \<Rightarrow> buf" where
  "fill n out e = take (n - 1) e @ drop (length (take (n - 1) e)) out"

subsection \<open>vsnprintf against its reference\<close>

lemma length_fill [simp]: "n \<le> length out \<Longrightarrow> length (fill n out e) = length out"
  by (simp add: fill_def)

lemma fill_Nil [simp]: "fill n out [] = out"
  by (simp add: fill_def)

lemma fill_0 [simp]: "fill 0 out e = out"
  by (simp add: fill_def)

lemma nth_fill:
  "n \<le> length out \<Longrightarrow> i < length out \<Longrightarrow>
    fill n out e ! i = (if i < length e \<and> i + 1 < n then e ! i else out ! i)"
  by (auto simp: fill_def nth_append min_def)

lemma put_fill:
  assumes "n \<le> length out"
  shows "put n c (fill n out e, length e) = Inr (fill n out (e @ [c]), length (e @ [c]))"
proof (cases "Suc (length e) < n")
  case True
  have "(fill n out e)[length e := c] = fill n out (e @ [c])"
    using assms True
    by (intro nth_equalityI) (auto simp: nth_fill nth_list_update nth_append less_Suc_eq)
  with assms True show ?thesis by (simp add: put_def)
next
  case False
  then have "fill n out (e @ [c]) = fill n out e"
    by (simp add: fill_def)
  with False show ?thesis by (simp add: put_def)
qed

lemma put_fill_Suc:
  "n \<le> length out \<Longrightarrow> put n c (fill n out e, length e) = Inr (fill n out (e @ [c]), Suc (length e))"
  by (simp add: put_fill)

lemma str_loop_fill:
  "n \<le> length out \<Longrightarrow>
    str_loop n cs (fill n out e, length e) = Inr (fill n out (e @ cs), length (e @ cs))"
proof (induction cs arbitrary: e)
  case (Cons c cs)
  from Cons.IH [of "e @ [c]"] Cons.prems show ?case by (simp add: put_fill_Suc)
qed simp

lemma hex_chars_Suc: "hex_chars (Suc k) num = hex_digit num k # hex_chars k num"
  by (simp add: hex_chars_def)

lemma hex_loop_str_loop: "hex_loop n num k st = str_loop n (hex_chars k num) st"
proof (induction k arbitrary: st)
  case 0
  then show ?case by (simp add: hex_chars_def)
next
  case (Suc k)
  then have "hex_loop n num k = str_loop n (hex_chars k num)" by blast
  then show ?case by (simp add: hex_chars_Suc)
qed

lemma length_dec_chars [simp]: "length (dec_chars k num) = k"
  by (induction k arbitrary: num) simp_all

lemma dec_loop_nth:
  "n \<le> length out \<Longrightarrow>
    \<exists>out'. dec_loop n pos k num out = Inr out' \<and> length out' = length out \<and>
      (\<forall>j<length out. out' ! j =
         (if pos \<le> j \<and> j < pos + k \<and> j + 1 < n then dec_chars k num ! (j - pos) else out ! j))"
proof (induction k arbitrary: num out)
  case 0
  then show ?case by auto
next
  case (Suc k)
  let ?c = "char_of (48 + num smod 10)"
  let ?out1 = "if pos + k + 1 < n then out[pos + k := ?c] else out"
  have "n \<le> length ?out1" using Suc.prems by simp
  from Suc.IH [OF this, of "num sdiv 10"] obtain out' where
    out': "dec_loop n pos k (num sdiv 10) ?out1 = Inr out'" "length out' = length out"
      "\<forall>j<length out. out' ! j =
         (if pos \<le> j \<and> j < pos + k \<and> j + 1 < n then dec_chars k (num sdiv 10) ! (j - pos) else ?out1 ! j)"
    by auto
  have "dec_loop n pos (Suc k) num out = Inr out'"
    using out'(1) Suc.prems by (simp split: if_splits)
  moreover have "out' ! j =
     (if pos \<le> j \<and> j < pos + Suc k \<and> j + 1 < n then dec_chars (Suc k) num ! (j - pos) else out ! j)"
    if "j < length out" for j
    using that out'(3) Suc.prems by (auto simp: nth_append nth_list_update)
  ultimately show ?case using out'(2) by blast
qed

lemma dec_loop_fill:
  assumes "n \<le> length out"
  shows "dec_loop n (length e) k num (fill n out e) = Inr (fill n out (e @ dec_chars k num))"
proof -
  have "n \<le> length (fill n out e)" using assms by simp
  from dec_loop_nth [OF this, of "length e" k num] obtain out' where
    out': "dec_loop n (length e) k num (fill n out e) = Inr out'" "length out' = length out"
      "\<forall>j<length out. out' ! j =
         (if length e \<le> j \<and> j < length e + k \<and> j + 1 < n then dec_chars k num ! (j - length e)
          else fill n out e ! j)"
    using assms by auto
  have "out' = fill n out (e @ dec_chars k num)"
    using out'(2,3) assms by (intro nth_equalityI) (auto simp: nth_fill nth_append)
  with out'(1) show ?thesis by simp
qed

text \<open>Each conversion appends the text the reference gives it.\<close>

lemma conv_x_fill:
  "n \<le> length out \<Longrightarrow> conv_x n longarg vl (fill n out e, length e) =
    bind_sum (va_num longarg vl) (\<lambda>(num, vl').
      let e' = e @ hex_chars (if longarg then 16 else 8) num in Inr ((fill n out e', length e'), vl'))"
  unfolding conv_x_def hex_loop_str_loop
  by (cases "va_num longarg vl") (auto simp: str_loop_fill Let_def)

lemma conv_s_fill:
  "n \<le> length out \<Longrightarrow> conv_s n vl (fill n out e, length e) =
    bind_sum (va_str vl) (\<lambda>(t, vl'). let e' = e @ t in Inr ((fill n out e', length e'), vl'))"
  unfolding conv_s_def by (cases "va_str vl") (auto simp: str_loop_fill Let_def)

lemma conv_c_fill:
  assumes "n \<le> length out"
  shows "conv_c n vl (fill n out e, length e) =
    (if Suc (length e) < n then
       bind_sum (va_num False vl) (\<lambda>(num, vl').
         let e' = e @ [char_of (uint num)] in Inr ((fill n out e', length e'), vl'))
     else let e' = e @ [CHR 0x00] in Inr ((fill n out e', length e'), vl))"
proof (cases "Suc (length e) < n")
  case True
  with assms show ?thesis
    unfolding conv_c_def by (cases "va_num False vl") (auto simp: put_fill_Suc Let_def)
next
  case False
  then have "fill n out (e @ [CHR 0x00]) = fill n out e"
    by (simp add: fill_def)
  with False show ?thesis by (simp add: conv_c_def)
qed

lemma conv_d_fill:
  assumes "n \<le> length out"
  shows "conv_d n longarg vl (fill n out e, length e) =
    bind_sum (va_num longarg vl) (\<lambda>(num, vl').
      let e' = e @ expand_d num in Inr ((fill n out e', length e'), vl'))"
proof -
  have minus: "dec_loop n (Suc (length e)) k num (fill n out (e @ ''-'')) =
      Inr (fill n out (e @ ''-'' @ dec_chars k num))" for k num
    using dec_loop_fill [OF assms, of "e @ ''-''" k num] by simp
  show ?thesis
    unfolding conv_d_def
    by (cases "va_num longarg vl")
      (auto simp: put_fill_Suc [OF assms] dec_loop_fill [OF assms] minus expand_d_def Let_def)
qed

lemmas conv_fill = conv_x_fill conv_s_fill conv_c_fill conv_d_fill

lemma map_ok_map_ok: "map_ok f (map_ok g x) = map_ok (\<lambda>y. f (g y)) x"
  by (cases x) simp_all

lemma map_ok_bind_sum: "map_ok f (bind_sum x g) = bind_sum x (\<lambda>y. map_ok f (g y))"
  by (cases x) simp_all

lemma bind_sum_cong: "(\<And>y. x = Inr y \<Longrightarrow> f y = g y) \<Longrightarrow> bind_sum x f = bind_sum x g"
  by (cases x) simp_all

lemma bind_sum_assoc: "bind_sum (bind_sum x f) g = bind_sum x (\<lambda>y. bind_sum (f y) g)"
  by (cases x) simp_all

lemma format_loop_expand:
  "n \<le> length out \<Longrightarrow> format_loop n format longarg s vl (fill n out e, length e) =
    map_ok (\<lambda>e'. (fill n out (e @ e'), length (e @ e'))) (expand n (length e) format longarg s vl)"
proof (induction s arbitrary: format longarg vl e)
  case Nil
  then show ?case by simp
next
  case (Cons c s)
  have IH: "format_loop n format longarg s vl (fill n out e', l) =
      map_ok (\<lambda>x. (fill n out (e' @ x), l + length x)) (expand n l format longarg s vl)"
    if "l = length e'" for format longarg vl e' l
    using Cons.IH [OF Cons.prems, of format longarg vl e'] that by simp
  have p: "conv_x n True vl (fill n out (e @ ''0x''), Suc (Suc (length e))) =
      bind_sum (va_num True vl) (\<lambda>(num, vl').
        Inr ((fill n out (e @ ''0x'' @ hex_chars 16 num),
          Suc (Suc (length e + length (hex_chars 16 num)))), vl'))"
    using conv_x_fill [OF Cons.prems, of True vl "e @ ''0x''"] by (simp add: Let_def)
  have put2: "put n (CHR ''x'') (fill n out (e @ ''0''), Suc (length e)) =
      Inr (fill n out (e @ ''0x''), Suc (Suc (length e)))"
    using put_fill [OF Cons.prems, of "CHR ''x''" "e @ ''0''"] by simp
  show ?case
    by (simp add: put_fill [OF Cons.prems] put2 p conv_fill [OF Cons.prems] Let_def IH map_ok_bind_sum
        bind_sum_assoc map_ok_map_ok case_prod_unfold add.assoc)
qed

lemma vsnprintf_expand:
  assumes "n \<le> length out"
  shows "vsnprintf out n s vl =
    map_ok (\<lambda>e. (of_nat (length e),
      if n = 0 then out
      else take (n - 1) e @ [CHR 0x00] @ drop (Suc (min (length e) (n - 1))) out))
    (expand n 0 False False s vl)"
proof (cases "expand n 0 False False s vl")
  case (Inl u)
  then show ?thesis
    using format_loop_expand [OF assms, of False False s vl "[]"] by (simp add: vsnprintf_def)
next
  case (Inr e)
  have loop: "format_loop n False False s vl (out, 0) = Inr (fill n out e, length e)"
    using format_loop_expand [OF assms, of False False s vl "[]"] Inr by simp
  have cut: "(fill n out e)[min (length e) (n - 1) := CHR 0x00] =
      take (n - 1) e @ [CHR 0x00] @ drop (Suc (min (length e) (n - 1))) out" if "n \<noteq> 0"
    using assms that
    by (intro nth_equalityI) (auto simp: nth_list_update nth_fill nth_append min_def)
  show ?thesis
    using Inr loop cut assms by (auto simp: vsnprintf_def min_def)
qed

text \<open>
  C35.  \<^verbatim>\<open>vsnprintf(out, n, s, ...)\<close> never writes outside its buffer of at least \<open>n\<close> bytes; it
  returns the length of the full expansion of the format string, and leaves in the buffer
  the expansion cut to \<open>n - 1\<close> characters, followed by a terminator, the rest of the buffer
  as it was.  It fails only where the arguments do not match the format string.  (The reference
  \<open>expand\<close> records the one place where the buffer size shows in the arguments: a \<^verbatim>\<open>%c\<close> that is
  cut takes none.)
\<close>

theorem vsnprintf_correct:
  assumes "n \<le> length out"
  shows "vsnprintf out n s vl =
    map_ok (\<lambda>e. (of_nat (length e),
      if n = 0 then out
      else take (n - 1) e @ [CHR 0x00] @ drop (Suc (min (length e) (n - 1))) out))
    (expand n 0 False False s vl)"
  by (rule vsnprintf_expand [OF assms])

subsection \<open>Decimal numerals\<close>

lemma sdiv_10_nonneg: "0 \<le> v \<Longrightarrow> v sdiv 10 = v div 10" for v :: int
  by (cases "v = 0") (simp_all add: signed_divide_int_def)

lemma smod_10_nonneg: "0 \<le> v \<Longrightarrow> v smod 10 = v mod 10" for v :: int
  by (cases "v = 0") (simp_all add: signed_modulo_int_def sdiv_10_nonneg minus_div_mult_eq_mod)

lemma count_digits_small: "0 \<le> v \<Longrightarrow> v < 10 \<Longrightarrow> count_digits v = 1"
  by (subst count_digits.simps) (simp add: sdiv_10_nonneg)

lemma count_digits_step:
  assumes "10 \<le> v"
  shows "count_digits v = Suc (count_digits (v div 10))"
proof -
  have "v div 10 \<noteq> 0" using assms by linarith
  then show ?thesis
    using assms by (subst count_digits.simps) (simp add: sdiv_10_nonneg)
qed

lemma count_digits_bound: "0 \<le> v \<Longrightarrow> v < 10 ^ Suc k \<Longrightarrow> count_digits v \<le> Suc k"
proof (induction k arbitrary: v)
  case 0
  then show ?case by (simp add: count_digits_small)
next
  case (Suc k)
  show ?case
  proof (cases "v < 10")
    case False
    from Suc.prems have "v div 10 < 10 ^ Suc k" by simp
    with Suc.IH [of "v div 10"] Suc.prems have "count_digits (v div 10) \<le> Suc k" by simp
    with False show ?thesis by (simp add: count_digits_step)
  qed (use Suc.prems in \<open>simp add: count_digits_small\<close>)
qed

text \<open>The digits of a numeral, most significant first.\<close>

primrec dec_digits :: "nat \<Rightarrow> int \<Rightarrow> nat list" where
  "dec_digits 0 v = []"
| "dec_digits (Suc k) v = dec_digits k (v div 10) @ [nat (v mod 10)]"

lemma dec_digits_less_10: "d \<in> set (dec_digits k v) \<Longrightarrow> d < 10"
  by (induction k arbitrary: v) auto

lemma dec_chars_digits:
  "0 \<le> v \<Longrightarrow> dec_chars k v = map (\<lambda>d. char_of (48 + int d)) (dec_digits k v)"
  by (induction k arbitrary: v) (simp_all add: sdiv_10_nonneg smod_10_nonneg)

lemma dec_value_snoc: "dec_value acc (ds @ [d]) = 10 * dec_value acc ds + d"
  by (induction ds arbitrary: acc) simp_all

text \<open>Enough digits carry the whole value.\<close>

lemma dec_value_digits: "0 \<le> v \<Longrightarrow> dec_value 0 (dec_digits (count_digits v) v) = nat v"
proof (induction v rule: count_digits.induct)
  case (1 v)
  show ?case
  proof (cases "v < 10")
    case True
    with 1 show ?thesis by (simp add: count_digits_small)
  next
    case False
    then have q: "v sdiv 10 = v div 10" "v div 10 \<noteq> 0"
      using 1 by (simp_all add: sdiv_10_nonneg)
    with 1 have "dec_value 0 (dec_digits (count_digits (v div 10)) (v div 10)) = nat (v div 10)"
      by simp
    with False show ?thesis
      by (simp add: count_digits_step dec_value_snoc nat_div_distrib nat_mod_distrib)
  qed
qed

text \<open>What \<^verbatim>\<open>%ld\<close> prints for a number other than the least one.\<close>

lemma expand_d_digits:
  assumes "sint num \<noteq> - (2 ^ 63)"
  shows "expand_d num =
    (if sint num < 0 then ''-'' else '''')
      @ map (\<lambda>d. char_of (48 + int d)) (dec_digits (count_digits \<bar>sint num\<bar>) \<bar>sint num\<bar>)"
proof -
  have "sint (- num) = - sint num"
    using assms sint_ge [of num] sint_lt [of num]
    by (simp add: sint_word_minus signed_take_bit_int_eq_self)
  then show ?thesis
    by (simp add: expand_d_def Let_def dec_chars_digits)
qed

theorem vsnprintf_correct_witness:
  "vsnprintf (replicate 4 CHR ''?'') 3 ''%s!'' [VaStr ''f8''] = Inr (3, ''f8'' @ [CHR 0x00] @ ''?'')"
  using vsnprintf_correct [of 3 "replicate 4 CHR ''?''" "''%s!''" "[VaStr ''f8'']"]
  by (simp add: numeral_3_eq_3 eval_nat_numeral(2))

subsection \<open>Characters as bytes\<close>

definition byte_of :: "char \<Rightarrow> uint8" where
  "byte_of c = of_char c"

definition char_of_byte :: "uint8 \<Rightarrow> char" where
  "char_of_byte b = char_of (unat b)"

lemma byte_of_nat: "byte_of c = of_nat (of_char c)"
  by (simp add: byte_of_def of_nat_of_char)

lemma unat_byte_of: "unat (byte_of c) = of_char c"
proof -
  have "(of_char c :: nat) < 256"
    using of_char_of [where 'a = nat, of "of_char c"] by (metis char_of_char mod_less_divisor zero_less_numeral)
  then show ?thesis
    by (simp add: byte_of_nat unat_of_nat_small)
qed

lemma char_of_byte_of [simp]: "char_of_byte (byte_of c) = c"
  by (simp add: char_of_byte_def unat_byte_of)

lemma byte_of_char_of_byte [simp]: "byte_of (char_of_byte b) = b"
  using unsigned_less [where 'a = nat, of b] by (simp add: char_of_byte_def byte_of_nat)

lemma byte_of_inject: "byte_of c = byte_of d \<longleftrightarrow> c = d"
  by (metis char_of_byte_of)

lemma char_of_int: "char_of (int n) = (char_of n :: char)"
  by (simp add: char_of_def bit_of_nat_iff_bit)

lemma byte_of_digit: "d < 10 \<Longrightarrow> byte_of (char_of (48 + int d)) = of_nat (48 + d)"
  using char_of_int [of "48 + d"] by (simp add: byte_of_nat)

lemma byte_of_minus: "byte_of (CHR ''-'') = 45"
  by (simp add: byte_of_def)

text \<open>
  C36.  Printing a number with \<^verbatim>\<open>%ld\<close> and reading it back with \<^verbatim>\<open>atol\<close> gives the number again,
  for every \<^verbatim>\<open>long\<close> but the least one (whose negation overflows).
\<close>

theorem print_atol_roundtrip:
  assumes "sint num \<noteq> - (2 ^ 63)" and "length out = 32"
    and "vsnprintf out 32 ''%ld'' [VaWord num] = Inr (r, out')"
    and "read_bytes m p 32 = map byte_of out'"
  shows "atol m p = Some num"
proof -
  let ?v = "\<bar>sint num\<bar>" and ?e = "expand_d num"
  let ?ds = "dec_digits (count_digits ?v) ?v"
  have "?v < 10 ^ Suc 18"
    using sint_ge [of num] sint_lt [of num] by (simp add: abs_less_iff)
  then have "count_digits ?v \<le> 19"
    using count_digits_bound [of ?v 18] by simp
  moreover have "length ?ds = count_digits ?v"
    using length_dec_chars [of "count_digits ?v" ?v] dec_chars_digits [of ?v] by (metis abs_ge_zero length_map)
  ultimately have len: "length ?e \<le> 20"
    using expand_d_digits [OF assms(1)] by (cases "sint num < 0") auto
  have "expand 32 0 False False ''%ld'' [VaWord num] = Inr ?e"
    by simp
  then have out': "out' = ?e @ [CHR 0x00] @ drop (Suc (length ?e)) out"
    using assms(2,3) len by (simp add: vsnprintf_expand)
  have bytes: "map byte_of ?e =
      replicate 0 32 @ (if sint num < 0 then [45] else []) @ map (\<lambda>d. of_nat (48 + d)) ?ds"
    using dec_digits_less_10 by (auto simp: expand_d_digits [OF assms(1)] byte_of_minus byte_of_digit)
  have "cstr_at m p (map byte_of ?e)"
  proof -
    have "read_bytes m p (Suc (length ?e)) = take (Suc (length ?e)) (map byte_of out')"
      using len by (simp add: take_read_bytes flip: assms(4))
    then have "read_bytes m p (Suc (length ?e)) = map byte_of (?e @ [CHR 0x00])"
      by (simp add: out')
    moreover have "0 \<notin> set (map byte_of ?e)"
      using dec_digits_less_10 [of _ "count_digits ?v" ?v] unfolding bytes
      using digit_byte by auto
    ultimately show ?thesis by (simp add: cstr_at_iff byte_of_def)
  qed
  from atol_dec [OF this [unfolded bytes]] dec_digits_less_10
  have "atol m p = Some (if sint num < 0 then - of_nat (nat ?v) else of_nat (nat ?v))"
    by (simp add: dec_value_digits)
  then show ?thesis
    by (auto simp: not_less)
qed


theorem print_atol_roundtrip_witness:
  "vsnprintf (replicate 32 CHR ''?'') 32 ''%ld'' [VaWord (- 42)] = Inr (3, ''-42'' @ [CHR 0x00] @ replicate 28 CHR ''?'')
    \<and> atol (write_bytes (\<lambda>a. 0) 0x100 (map byte_of (''-42'' @ [CHR 0x00] @ replicate 28 CHR ''?''))) 0x100
        = Some (- 42)"
proof -
  let ?out = "replicate 32 CHR ''?''" and ?res = "''-42'' @ [CHR 0x00] @ replicate 28 CHR ''?''"
  let ?m = "write_bytes (\<lambda>a. 0) 0x100 (map byte_of ?res)"
  have "count_digits 42 = Suc (Suc 0)"
    by (simp add: count_digits_step count_digits_small)
  then have "expand_d (- 42) = ''-42''"
    by (simp add: expand_d_def char_of_def)
  then have out: "vsnprintf ?out 32 ''%ld'' [VaWord (- 42)] = Inr (3, ?res)"
    by (simp add: vsnprintf_expand)
  have "read_bytes ?m 0x100 32 = map byte_of ?res"
    using read_write_bytes_same [of "map byte_of ?res" "\<lambda>a. 0" "0x100"] by simp
  from print_atol_roundtrip [OF _ _ out this] out show ?thesis
    by simp
qed

end
