(* ===== verification/Riscv.thy ===== *)
theory Riscv
  imports CMem
begin

text \<open>
  The machine the kernel runs on, as far as the sources name it: the constants of
  \<^verbatim>\<open>kernel/riscv.h\<close> and \<^verbatim>\<open>kernel/config.h\<close>, the general-purpose registers with the offsets of
  \<^verbatim>\<open>struct riscv_regs_t\<close>, and the control and status registers that the kernel reads and
  writes.  \<^verbatim>\<open>sstatus\<close>, \<^verbatim>\<open>sie\<close> and \<^verbatim>\<open>sip\<close> are not registers of their own but views of \<^verbatim>\<open>mstatus\<close>,
  \<^verbatim>\<open>mie\<close> and \<^verbatim>\<open>mip\<close> (RISC-V privileged architecture): the last two show only the delegated
  interrupts, and \<^verbatim>\<open>sip\<close> lets software change only the software-interrupt bit.
\<close>

subsection \<open>Constants (kernel/riscv.h, kernel/config.h)\<close>

definition MSTATUS_MPP_MASK :: uint64 where [const_defs]: "MSTATUS_MPP_MASK = push_bit 11 3"
definition MSTATUS_MPP_S :: uint64 where [const_defs]: "MSTATUS_MPP_S = push_bit 11 1"
definition MSTATUS_MIE :: uint64 where [const_defs]: "MSTATUS_MIE = push_bit 3 1"

definition MIP_SEIP :: uint64 where [const_defs]: "MIP_SEIP = push_bit 9 1"
definition MIP_SSIP :: uint64 where [const_defs]: "MIP_SSIP = push_bit 1 1"
definition MIP_STIP :: uint64 where [const_defs]: "MIP_STIP = push_bit 5 1"

definition CAUSE_MISALIGNED_FETCH :: uint64 where [const_defs]: "CAUSE_MISALIGNED_FETCH = 0x0"
definition CAUSE_FETCH_ACCESS :: uint64 where [const_defs]: "CAUSE_FETCH_ACCESS = 0x1"
definition CAUSE_ILLEGAL_INSTRUCTION :: uint64 where [const_defs]: "CAUSE_ILLEGAL_INSTRUCTION = 0x2"
definition CAUSE_BREAKPOINT :: uint64 where [const_defs]: "CAUSE_BREAKPOINT = 0x3"
definition CAUSE_MISALIGNED_LOAD :: uint64 where [const_defs]: "CAUSE_MISALIGNED_LOAD = 0x4"
definition CAUSE_LOAD_ACCESS :: uint64 where [const_defs]: "CAUSE_LOAD_ACCESS = 0x5"
definition CAUSE_MISALIGNED_STORE :: uint64 where [const_defs]: "CAUSE_MISALIGNED_STORE = 0x6"
definition CAUSE_STORE_ACCESS :: uint64 where [const_defs]: "CAUSE_STORE_ACCESS = 0x7"
definition CAUSE_USER_ECALL :: uint64 where [const_defs]: "CAUSE_USER_ECALL = 0x8"
definition CAUSE_FETCH_PAGE_FAULT :: uint64 where [const_defs]: "CAUSE_FETCH_PAGE_FAULT = 0xc"
definition CAUSE_LOAD_PAGE_FAULT :: uint64 where [const_defs]: "CAUSE_LOAD_PAGE_FAULT = 0xd"
definition CAUSE_STORE_PAGE_FAULT :: uint64 where [const_defs]: "CAUSE_STORE_PAGE_FAULT = 0xf"

definition CAUSE_MTIMER :: uint64 where [const_defs]: "CAUSE_MTIMER = 0x8000000000000007"
definition CAUSE_MTIMER_S_TRAP :: uint64 where [const_defs]: "CAUSE_MTIMER_S_TRAP = 0x8000000000000001"

definition SIP_SSIP :: uint64 where [const_defs]: "SIP_SSIP = push_bit 1 1"

definition SSTATUS_SPP :: uint64 where [const_defs]: "SSTATUS_SPP = push_bit 8 1"
definition SSTATUS_SPIE :: uint64 where [const_defs]: "SSTATUS_SPIE = push_bit 5 1"
definition SSTATUS_SIE :: uint64 where [const_defs]: "SSTATUS_SIE = push_bit 1 1"

definition SIE_SEIE :: uint64 where [const_defs]: "SIE_SEIE = push_bit 9 1"
definition SIE_STIE :: uint64 where [const_defs]: "SIE_STIE = push_bit 5 1"
definition SIE_SSIE :: uint64 where [const_defs]: "SIE_SSIE = push_bit 1 1"

definition MIE_MTIE :: uint64 where [const_defs]: "MIE_MTIE = push_bit 7 1"

definition TIMER_INTERVAL :: uint64 where [const_defs]: "TIMER_INTERVAL = 1000000"
definition USER_STACK :: uint64 where [const_defs]: "USER_STACK = 0x81100000"
definition USER_KSTACK :: uint64 where [const_defs]: "USER_KSTACK = 0x81200000"
definition USER_TRAP_FRAME :: uint64 where [const_defs]: "USER_TRAP_FRAME = 0x81300000"

subsection \<open>General-purpose registers (struct riscv\_regs\_t)\<close>

datatype reg = Ra | Sp | Gp | Tp | T0 | T1 | T2 | S0 | S1 | A0 | A1 | A2 | A3 | A4 | A5 | A6 | A7
  | S2 | S3 | S4 | S5 | S6 | S7 | S8 | S9 | S10 | S11 | T3 | T4 | T5 | T6

type_synonym gprs = "reg \<Rightarrow> uint64"

text \<open>The members of the struct in their order; each takes eight bytes.\<close>

definition riscv_regs :: "reg list" where
  "riscv_regs = [Ra, Sp, Gp, Tp, T0, T1, T2, S0, S1, A0, A1, A2, A3, A4, A5, A6, A7,
     S2, S3, S4, S5, S6, S7, S8, S9, S10, S11, T3, T4, T5, T6]"

fun reg_off :: "reg \<Rightarrow> uint64" where
  "reg_off Ra = 0" | "reg_off Sp = 8" | "reg_off Gp = 16" | "reg_off Tp = 24"
| "reg_off T0 = 32" | "reg_off T1 = 40" | "reg_off T2 = 48" | "reg_off S0 = 56"
| "reg_off S1 = 64" | "reg_off A0 = 72" | "reg_off A1 = 80" | "reg_off A2 = 88"
| "reg_off A3 = 96" | "reg_off A4 = 104" | "reg_off A5 = 112" | "reg_off A6 = 120"
| "reg_off A7 = 128" | "reg_off S2 = 136" | "reg_off S3 = 144" | "reg_off S4 = 152"
| "reg_off S5 = 160" | "reg_off S6 = 168" | "reg_off S7 = 176" | "reg_off S8 = 184"
| "reg_off S9 = 192" | "reg_off S10 = 200" | "reg_off S11 = 208" | "reg_off T3 = 216"
| "reg_off T4 = 224" | "reg_off T5 = 232" | "reg_off T6 = 240"

subsection \<open>Control and status registers\<close>

record csrs =
  mstatus :: uint64
  mie :: uint64
  mip :: uint64
  mideleg :: uint64
  medeleg :: uint64
  mepc :: uint64
  mtvec :: uint64
  mscratch :: uint64
  mcause :: uint64
  mtval :: uint64
  misa :: uint64
  stvec :: uint64
  sepc :: uint64
  scause :: uint64
  stval :: uint64
  sscratch :: uint64
  satp :: uint64

text \<open>The privilege modes.\<close>

datatype privilege = U_mode | S_mode | M_mode

text \<open>The bits of \<^verbatim>\<open>mstatus\<close> that \<^verbatim>\<open>sstatus\<close> shows.\<close>

definition sstatus_mask :: uint64 where
  [const_defs]: "sstatus_mask = 0x80000003000DE133"

definition read_sstatus :: "csrs \<Rightarrow> uint64" where
  "read_sstatus c = mstatus c AND sstatus_mask"

definition write_sstatus :: "uint64 \<Rightarrow> csrs \<Rightarrow> csrs" where
  "write_sstatus v c = c\<lparr>mstatus := (mstatus c AND NOT sstatus_mask) OR (v AND sstatus_mask)\<rparr>"

definition read_sie :: "csrs \<Rightarrow> uint64" where
  "read_sie c = mie c AND mideleg c"

definition write_sie :: "uint64 \<Rightarrow> csrs \<Rightarrow> csrs" where
  "write_sie v c = c\<lparr>mie := (mie c AND NOT (mideleg c)) OR (v AND mideleg c)\<rparr>"

definition read_sip :: "csrs \<Rightarrow> uint64" where
  "read_sip c = mip c AND mideleg c"

definition write_sip :: "uint64 \<Rightarrow> csrs \<Rightarrow> csrs" where
  "write_sip v c =
     (let w = mideleg c AND MIP_SSIP in c\<lparr>mip := (mip c AND NOT w) OR (v AND w)\<rparr>)"

text \<open>\<^verbatim>\<open>supports_extension(ext)\<close>\<close>

definition supports_extension :: "char \<Rightarrow> csrs \<Rightarrow> int32" where
  "supports_extension ext c = ucast (misa c AND push_bit (of_char ext - 65) 1)"

text \<open>\<^verbatim>\<open>intr_on\<close>, \<^verbatim>\<open>intr_off\<close>, \<^verbatim>\<open>is_intr_enable\<close>\<close>

definition intr_on :: "csrs \<Rightarrow> csrs" where
  "intr_on c = write_sstatus (read_sstatus c OR SSTATUS_SIE) c"

definition intr_off :: "csrs \<Rightarrow> csrs" where
  "intr_off c = write_sstatus (read_sstatus c AND NOT SSTATUS_SIE) c"

definition is_intr_enable :: "csrs \<Rightarrow> bool" where
  "is_intr_enable c = (read_sstatus c AND SSTATUS_SIE \<noteq> 0)"

subsection \<open>Laws of the register views\<close>

lemma and_flag_eq_0:
  "w AND SSTATUS_SIE = 0 \<longleftrightarrow> \<not> bit w 1"
  "w AND SSTATUS_SPIE = 0 \<longleftrightarrow> \<not> bit w 5"
  "w AND SSTATUS_SPP = 0 \<longleftrightarrow> \<not> bit w 8"
  using and_exp_eq_0_iff_not_bit [of w 1] and_exp_eq_0_iff_not_bit [of w 5]
    and_exp_eq_0_iff_not_bit [of w 8]
  by (simp_all add: const_defs)

lemma bit_flags:
  "bit SSTATUS_SIE n \<longleftrightarrow> n = 1" "bit SSTATUS_SPIE n \<longleftrightarrow> n = 5" "bit SSTATUS_SPP n \<longleftrightarrow> n = 8"
  "bit SIP_SSIP n \<longleftrightarrow> n = 1" "bit MIP_SSIP n \<longleftrightarrow> n = 1"
  unfolding const_defs push_bit_eq_mult mult_1 bit_exp_iff by auto

lemma bit_sstatus_mask_bits:
  "bit sstatus_mask 1" "bit sstatus_mask 5" "bit sstatus_mask 8"
  "\<not> bit sstatus_mask 3" "\<not> bit sstatus_mask 11" "\<not> bit sstatus_mask 12"
  by (simp_all add: sstatus_mask_def)

lemma bit_write_sstatus:
  "bit (mstatus (write_sstatus v c)) n \<longleftrightarrow>
     (if bit sstatus_mask n then bit v n else bit (mstatus c) n)"
  by (auto simp: write_sstatus_def bit_simps dest: bit_imp_le_length)

lemma bit_read_sstatus: "bit (read_sstatus c) n \<longleftrightarrow> bit (mstatus c) n \<and> bit sstatus_mask n"
  by (simp add: read_sstatus_def bit_simps)

lemma bit_read_sip: "bit (read_sip c) n \<longleftrightarrow> bit (mip c) n \<and> bit (mideleg c) n"
  by (simp add: read_sip_def bit_simps)

lemma bit_write_sip:
  "bit (mip (write_sip v c)) n \<longleftrightarrow>
     (if n = 1 \<and> bit (mideleg c) 1 then bit v n else bit (mip c) n)"
  by (auto simp: write_sip_def Let_def bit_and_iff bit_or_iff bit_not_iff bit_flags dest: bit_imp_le_length)

lemma read_write_sstatus: "read_sstatus (write_sstatus v c) = v AND sstatus_mask"
  by (rule bit_word_eqI) (auto simp: bit_read_sstatus bit_write_sstatus bit_simps)

lemma intr_on_enables: "is_intr_enable (intr_on c)"
  by (simp add: is_intr_enable_def intr_on_def and_flag_eq_0 bit_flags
      bit_read_sstatus bit_write_sstatus bit_sstatus_mask_bits [simplified]
      bit_and_iff bit_or_iff bit_not_iff)

lemma intr_off_disables: "\<not> is_intr_enable (intr_off c)"
  by (simp add: is_intr_enable_def intr_off_def and_flag_eq_0 bit_flags
      bit_read_sstatus bit_write_sstatus bit_sstatus_mask_bits [simplified]
      bit_and_iff bit_or_iff bit_not_iff)

subsection \<open>Registers in memory\<close>

text \<open>The two assembly macros of \<^verbatim>\<open>util/load_store.S\<close>, one \<^verbatim>\<open>sd\<close> (or \<^verbatim>\<open>ld\<close>) per register in the
  order of the struct, relative to the address in \<^verbatim>\<open>t6\<close>.\<close>

definition store_all_registers :: "gprs \<Rightarrow> memory \<Rightarrow> memory" where
  "store_all_registers g m = foldl (\<lambda>m r. write64 m (g T6 + reg_off r) (g r)) m riscv_regs"

definition restore_all_registers :: "memory \<Rightarrow> gprs \<Rightarrow> gprs" where
  "restore_all_registers m g = foldl (\<lambda>g r. g(r := read64 m (g T6 + reg_off r))) g riscv_regs"

lemma distinct_riscv_regs: "distinct riscv_regs"
  by (simp add: riscv_regs_def)

lemma set_riscv_regs: "r \<in> set riscv_regs"
  by (cases r) (simp_all add: riscv_regs_def)

fun reg_index :: "reg \<Rightarrow> nat" where
  "reg_index Ra = 0" | "reg_index Sp = 1" | "reg_index Gp = 2" | "reg_index Tp = 3"
| "reg_index T0 = 4" | "reg_index T1 = 5" | "reg_index T2 = 6" | "reg_index S0 = 7"
| "reg_index S1 = 8" | "reg_index A0 = 9" | "reg_index A1 = 10" | "reg_index A2 = 11"
| "reg_index A3 = 12" | "reg_index A4 = 13" | "reg_index A5 = 14" | "reg_index A6 = 15"
| "reg_index A7 = 16" | "reg_index S2 = 17" | "reg_index S3 = 18" | "reg_index S4 = 19"
| "reg_index S5 = 20" | "reg_index S6 = 21" | "reg_index S7 = 22" | "reg_index S8 = 23"
| "reg_index S9 = 24" | "reg_index S10 = 25" | "reg_index S11 = 26" | "reg_index T3 = 27"
| "reg_index T4 = 28" | "reg_index T5 = 29" | "reg_index T6 = 30"

lemma reg_index_nth: "riscv_regs ! reg_index r = r"
  by (cases r) (simp_all add: riscv_regs_def)

lemma reg_index_less: "reg_index r < 31"
  by (cases r) simp_all

lemma reg_off_index: "reg_off r = of_nat (8 * reg_index r)"
  by (cases r) simp_all

lemma reg_index_inject: "reg_index r = reg_index q \<longleftrightarrow> r = q"
  by (metis reg_index_nth)

text \<open>Every member is where its place in the struct puts it, and two members never overlap.\<close>

lemma apart_reg_off: "r \<noteq> q \<Longrightarrow> apart (reg_off r) 8 (reg_off q) 8"
proof -
  assume "r \<noteq> q"
  then have ne: "reg_index r \<noteq> reg_index q" by (simp add: reg_index_inject)
  have unat: "unat (reg_off x) = 8 * reg_index x" for x
    unfolding reg_off_index using reg_index_less [of x] by (intro unat_of_nat_small) simp
  have "8 \<le> unat (reg_off q - reg_off r) \<and> unat (reg_off q - reg_off r) + 8 \<le> 2 ^ 64"
    using ne reg_index_less [of r] reg_index_less [of q]
    by (auto simp: unat_sub_if' unat)
  then show ?thesis by (simp add: apart_nat)
qed

lemma read64_store_regs_notin:
  "r \<notin> set rs \<Longrightarrow>
    read64 (foldl (\<lambda>m r. write64 m (p + reg_off r) (g r)) m rs) (p + reg_off r) = read64 m (p + reg_off r)"
  by (induction rs arbitrary: m) (auto simp: read64_write64_apart apart_reg_off)

lemma read64_store_regs:
  "distinct rs \<Longrightarrow> r \<in> set rs \<Longrightarrow>
    read64 (foldl (\<lambda>m r. write64 m (p + reg_off r) (g r)) m rs) (p + reg_off r) = g r"
  by (induction rs arbitrary: m) (auto simp: read64_store_regs_notin)

lemma read64_store_all: "read64 (store_all_registers g m) (g T6 + reg_off r) = g r"
  unfolding store_all_registers_def
  by (rule read64_store_regs [OF distinct_riscv_regs set_riscv_regs])

lemma store_regs_frame:
  assumes "\<And>r. r \<in> set rs \<Longrightarrow> apart (p + reg_off r) 8 b k"
  shows "read_bytes (foldl (\<lambda>m r. write64 m (p + reg_off r) (g r)) m rs) b k = read_bytes m b k"
  using assms by (induction rs arbitrary: m) (simp_all add: read_bytes_write64_apart)

lemma apart_reg_of_frame:
  assumes "apart p 248 b k"
  shows "apart (p + reg_off r) 8 b k"
  using apart_sub [OF assms, of "8 * reg_index r" 8 0 k] reg_index_less [of r]
  by (simp add: reg_off_index)

lemma store_all_frame:
  "apart (g T6) 248 b k \<Longrightarrow> read_bytes (store_all_registers g m) b k = read_bytes m b k"
  unfolding store_all_registers_def by (rule store_regs_frame) (rule apart_reg_of_frame)

lemma restore_regs:
  "T6 \<notin> set rs \<Longrightarrow>
    foldl (\<lambda>g r. g(r := read64 m (g T6 + reg_off r))) g rs =
      (\<lambda>r. if r \<in> set rs then read64 m (g T6 + reg_off r) else g r)"
proof (induction rs arbitrary: g)
  case (Cons q rs)
  then have "q \<noteq> T6" by auto
  with Cons show ?case by (auto simp: fun_eq_iff)
qed simp

lemma riscv_regs_T6_last: "\<exists>rs. riscv_regs = rs @ [T6] \<and> T6 \<notin> set rs"
  by (rule exI [of _ "butlast riscv_regs"]) (simp add: riscv_regs_def)

lemma restore_all: "restore_all_registers m g r = read64 m (g T6 + reg_off r)"
proof -
  obtain rs where rs: "riscv_regs = rs @ [T6]" "T6 \<notin> set rs"
    using riscv_regs_T6_last by blast
  have "r = T6 \<or> r \<in> set rs"
    using set_riscv_regs [of r] unfolding rs(1) by auto
  then show ?thesis
    unfolding restore_all_registers_def rs(1) using rs(2) by (auto simp: restore_regs)
qed

lemma write_reg_only_changes: "only_changes p 248 m (write64 m (p + reg_off r) v)"
  by (rule only_changes_mono [where i = "8 * reg_index r" and k = 8])
    (use only_changes_write64 reg_index_less [of r] in \<open>simp_all add: reg_off_index\<close>)

lemma store_regs_only_changes:
  "only_changes p 248 m (foldl (\<lambda>m r. write64 m (p + reg_off r) (g r)) m rs)"
  by (induction rs arbitrary: m)
    (auto intro: only_changes_trans [OF write_reg_only_changes])

lemma store_all_only_changes: "only_changes (g T6) 248 m (store_all_registers g m)"
  unfolding store_all_registers_def by (rule store_regs_only_changes)

end
