(* ===== verification/Atomic.thy ===== *)
theory Atomic
  imports Prelude
begin

text \<open>
  The read-modify-write macros and the spinlock of \<^verbatim>\<open>spike_interface/atomic.h\<close>.  Each macro
  takes the old value of the cell and gives the value it evaluates to and the new value of
  the cell.  PKE configures one hart (\<^verbatim>\<open>NCPU\<close> is 1) and \<^verbatim>\<open>disable_irqsave\<close> does nothing, so
  waiting for a lock that is held is a loop nobody can end: \<open>None\<close>.
\<close>

definition atomic_binop :: "('a::len word \<Rightarrow> 'a word) \<Rightarrow> 'a word \<Rightarrow> 'a word \<times> 'a word" where
  "atomic_binop op v = (v, op v)"

definition atomic_add :: "'a::len word \<Rightarrow> 'a word \<Rightarrow> 'a word \<times> 'a word" where
  "atomic_add v inc = atomic_binop (\<lambda>res. res + inc) v"

definition atomic_or :: "'a::len word \<Rightarrow> 'a word \<Rightarrow> 'a word \<times> 'a word" where
  "atomic_or v inc = atomic_binop (\<lambda>res. res OR inc) v"

definition atomic_swap :: "'a::len word \<Rightarrow> 'a word \<Rightarrow> 'a word \<times> 'a word" where
  "atomic_swap v inc = atomic_binop (\<lambda>res. inc) v"

definition atomic_cas :: "'a \<Rightarrow> 'a \<Rightarrow> 'a \<Rightarrow> 'a \<times> 'a" where
  "atomic_cas v cmp swp = (v, if v = cmp then swp else v)"

lemmas atomic_defs = atomic_binop_def atomic_add_def atomic_or_def atomic_swap_def atomic_cas_def

subsection \<open>The spinlock\<close>

definition spinlock_trylock :: "int32 \<Rightarrow> int32 \<times> int32" where
  "spinlock_trylock lock = atomic_swap lock (- 1)"

partial_function (option) spinlock_lock :: "int32 \<Rightarrow> int32 option" where
  "spinlock_lock lock =
     (if lock \<noteq> 0 then spinlock_lock lock
      else let (res, lock') = spinlock_trylock lock
           in if res \<noteq> 0 then spinlock_lock lock' else Some lock')"

definition spinlock_unlock :: "int32 \<Rightarrow> int32" where
  "spinlock_unlock lock = 0"

text \<open>The variants that save the interrupt state: \<^verbatim>\<open>disable_irqsave\<close> is the constant 0 and
  \<^verbatim>\<open>enable_irqrestore\<close> does nothing.  The first gives the saved flags and the lock.\<close>

definition disable_irqsave :: int64 where
  "disable_irqsave = 0"

definition spinlock_lock_irqsave :: "int32 \<Rightarrow> (int64 \<times> int32) option" where
  "spinlock_lock_irqsave lock =
     (let flags = disable_irqsave in map_option (\<lambda>lock'. (flags, lock')) (spinlock_lock lock))"

definition spinlock_unlock_irqrestore :: "int32 \<Rightarrow> int64 \<Rightarrow> int32" where
  "spinlock_unlock_irqrestore lock flags = spinlock_unlock lock"

text \<open>
  What a client of a lock relies on: taking a free lock succeeds and marks it held, a held
  lock cannot be taken, and giving it back frees it.
\<close>

locale lock_ops =
  fixes lock :: "'l \<Rightarrow> 'l option"
    and unlock :: "'l \<Rightarrow> 'l"
    and free :: "'l \<Rightarrow> bool"
  assumes lock_free: "free l \<Longrightarrow> \<exists>l'. lock l = Some l' \<and> \<not> free l'"
    and lock_held: "\<not> free l \<Longrightarrow> lock l = None"
    and unlock_free: "free (unlock l)"
begin

lemma lock_exclusive: "lock l = Some l' \<Longrightarrow> lock l' = None"
  by (metis lock_free lock_held option.inject option.distinct(1))

lemma lock_returns_iff: "(\<exists>l'. lock l = Some l') \<longleftrightarrow> free l"
  by (metis lock_free lock_held option.distinct(1))

lemma relock: "\<exists>l'. lock (unlock l) = Some l'"
  by (simp add: lock_returns_iff unlock_free)

end

lemma spinlock_lock_free: "spinlock_lock 0 = Some (- 1)"
  by (simp add: spinlock_lock.simps spinlock_trylock_def atomic_defs)

lemma spinlock_lock_returns: "spinlock_lock l = Some l' \<Longrightarrow> l = 0"
proof (rule spinlock_lock.raw_induct [where P = "\<lambda>l l'. l = 0"])
  fix f :: "int32 \<Rightarrow> int32 option" and l l' :: int32
  assume IH: "\<And>l l'. f l = Some l' \<Longrightarrow> l = 0"
    and eq: "(if l \<noteq> 0 then f l
      else let (res, lock') = spinlock_trylock l in if res \<noteq> 0 then f lock' else Some lock') = Some l'"
  show "l = 0"
  proof (rule ccontr)
    assume "l \<noteq> 0"
    with eq have "f l = Some l'" by simp
    with IH \<open>l \<noteq> 0\<close> show False by blast
  qed
qed

lemma spinlock_lock_held: "l \<noteq> 0 \<Longrightarrow> spinlock_lock l = None"
  using spinlock_lock_returns by (cases "spinlock_lock l") auto

interpretation spinlock: lock_ops spinlock_lock spinlock_unlock "\<lambda>l. l = 0"
  by unfold_locales (simp_all add: spinlock_lock_free spinlock_lock_held spinlock_unlock_def)

interpretation irqlock: lock_ops "\<lambda>l. map_option snd (spinlock_lock_irqsave l)" "\<lambda>l. spinlock_unlock_irqrestore l flags"
  "\<lambda>l. l = 0" for flags
  by unfold_locales (simp_all add: spinlock_lock_irqsave_def spinlock_lock_free spinlock_lock_held
      spinlock_unlock_irqrestore_def spinlock_unlock_def)

text \<open>
  The spinlock excludes and never deadlocks its own user: taking it returns exactly
  when it is free, a lock that was taken cannot be taken again, and after an unlock it can; so it is with the
  variants that carry the interrupt flags.
\<close>

lemma spinlock_correct:
  "((\<exists>l'. spinlock_lock l = Some l') = (l = 0))
    \<and> (spinlock_lock l = Some l' \<longrightarrow> spinlock_lock l' = None)
    \<and> (\<exists>l''. spinlock_lock (spinlock_unlock l) = Some l'')
    \<and> ((\<exists>flags l'. spinlock_lock_irqsave l = Some (flags, l')) = (l = 0))
    \<and> (\<exists>flags' l''. spinlock_lock_irqsave (spinlock_unlock_irqrestore l flags) = Some (flags', l''))"
  using spinlock.lock_returns_iff spinlock.lock_exclusive spinlock.relock
    irqlock.lock_returns_iff [of l] irqlock.relock [of l flags] by auto

end
