(* ===== verification/Kstate.thy ===== *)
theory Kstate
  imports Snprintf Riscv Atomic
begin

text \<open>
  The state every kernel operation works on, and the call that leaves the machine for the
  host (\<^verbatim>\<open>frontend_syscall\<close> of \<^verbatim>\<open>spike_interface/spike_utils.c\<close>).

  \<open>kstate\<close> has the physical memory, the control and status registers, the general-purpose
  registers, and the global variables of the C files.  The globals are fields of their own
  and not bytes of the memory: they live in the kernel image, which no operation here
  addresses through a pointer.  What the kernel sends to the host is recorded in \<open>trace\<close>,
  in order, so that console output and host requests are part of what is specified.

  \<open>env\<close> collects what the sources rely on and do not define: the answers of the host
  (Spike's front-end server), the addresses the linker and the compiler choose for symbols and
  for the stack variables whose address is taken, the address that \<^verbatim>\<open>va_start\<close> yields in
  \<^verbatim>\<open>do_panic\<close>, the bits of the delegation registers the hart implements, and what a hart without supervisor mode
  reports of the instruction of \<^verbatim>\<open>m_start\<close> that reads \<^verbatim>\<open>sie\<close>: its address and its \<^verbatim>\<open>mtval\<close>.
\<close>

subsection \<open>State\<close>

record spike_file =
  kfd :: int32
  refcnt :: uint32

datatype host_event =
    HostWrite int32 string          \<comment> \<open>\<^verbatim>\<open>HTIFSYS_write\<close>: descriptor and bytes\<close>
  | HostCall "uint64 list"          \<comment> \<open>any other request: the eight words of \<^verbatim>\<open>magic_mem\<close>\<close>

record kstate =
  mem :: memory
  csr :: csrs
  gpr :: gprs
  pc :: uint64
  priv :: privilege
  htif :: uint64
  g_mem_size :: uint64
  g_ticks :: uint64
  current :: uint64
  spike_files :: "spike_file list"
  spike_fds :: "nat option list"
  fs_lock :: int32
  mtime :: uint64
  mtimecmp :: uint64
  trace :: "host_event list"

record env =
  fesvr :: "uint64 list \<Rightarrow> memory \<Rightarrow> uint64 \<times> memory"
  fesvr_write :: "int32 \<Rightarrow> string \<Rightarrow> uint64"
  va_area :: uint64
  smode_trap_vector :: uint64
  smode_trap_handler_addr :: uint64
  s_start_addr :: uint64
  mtrapvec :: uint64
  mem_done_addr :: uint64
  g_itrframe :: uint64
  user_app :: uint64
  arg_bug_msg :: uint64
  elfloader_ehdr :: uint64
  ph_addr :: uint64
  sect :: uint64
  str_hdr :: uint64
  mideleg_legal :: "uint64 \<Rightarrow> uint64"
  medeleg_legal :: "uint64 \<Rightarrow> uint64"
  sie_access :: uint64
  sie_tval :: uint64

type_synonym 'a op = "kstate \<Rightarrow> (kstate, 'a) outcome"

text \<open>The text the kernel has put on the console: what it wrote, in order.  Every write goes through \<^verbatim>\<open>vprintk\<close> to the
  descriptor of the slot \<^verbatim>\<open>stderr\<close> (\<open>sprint_expand\<close> in SpikeUtils states the event with its descriptor), so that
  no descriptor has to be told apart here.\<close>

fun event_text :: "host_event \<Rightarrow> string" where
  "event_text (HostWrite _ t) = t"
| "event_text (HostCall _) = []"

definition console :: "kstate \<Rightarrow> string" where
  "console s = concat (map event_text (trace s))"

lemma console_trace [simp]: "console (s\<lparr>trace := trace s @ es\<rparr>) = console s @ concat (map event_text es)"
  by (simp add: console_def)

lemma console_update [simp]:
  "console (s\<lparr>mem := m\<rparr>) = console s" "console (s\<lparr>csr := c\<rparr>) = console s"
  "console (s\<lparr>gpr := g\<rparr>) = console s"
  "console (s\<lparr>pc := a\<rparr>) = console s" "console (s\<lparr>priv := k\<rparr>) = console s" "console (s\<lparr>g_ticks := t\<rparr>) = console s"
  "console (s\<lparr>current := p\<rparr>) = console s" "console (s\<lparr>spike_files := fs\<rparr>) = console s"
  "console (s\<lparr>spike_fds := fds\<rparr>) = console s" "console (s\<lparr>fs_lock := l\<rparr>) = console s"
  by (simp_all add: console_def)

subsection \<open>Requests to the host\<close>

definition HTIFSYS_exit :: uint64 where [const_defs]: "HTIFSYS_exit = 93"
definition HTIFSYS_read :: uint64 where [const_defs]: "HTIFSYS_read = 63"
definition HTIFSYS_openat :: uint64 where [const_defs]: "HTIFSYS_openat = 56"
definition HTIFSYS_close :: uint64 where [const_defs]: "HTIFSYS_close = 57"
definition HTIFSYS_lseek :: uint64 where [const_defs]: "HTIFSYS_lseek = 62"
definition HTIFSYS_fstat :: uint64 where [const_defs]: "HTIFSYS_fstat = 80"
definition HTIFSYS_pread :: uint64 where [const_defs]: "HTIFSYS_pread = 67"
definition HTIFSYS_getmainvars :: uint64 where [const_defs]: "HTIFSYS_getmainvars = 2011"

text \<open>
  The frame of \<^verbatim>\<open>frontend_syscall\<close>: take the lock, let the host answer, release the lock.
  With the lock held the call never returns.
\<close>

definition with_fs_lock :: "(kstate \<Rightarrow> uint64 \<times> kstate) \<Rightarrow> uint64 op" where
  "with_fs_lock request s =
     (case spinlock_lock (fs_lock s) of
        None \<Rightarrow> Diverge
      | Some l \<Rightarrow>
          (case request (s\<lparr>fs_lock := l\<rparr>) of
             (r, s') \<Rightarrow> Ret r (s'\<lparr>fs_lock := spinlock_unlock (fs_lock s')\<rparr>)))"

text \<open>\<^verbatim>\<open>frontend_syscall(n, a0, ..., a6)\<close>: the host reads the eight words of \<^verbatim>\<open>magic_mem\<close>, may read
  and write the memory of the machine, and leaves its answer in \<^verbatim>\<open>magic_mem[0]\<close>.\<close>

definition frontend_syscall :: "env \<Rightarrow> uint64 \<Rightarrow> uint64 list \<Rightarrow> uint64 op" where
  "frontend_syscall E n args =
     with_fs_lock (\<lambda>s.
       let magic_mem = n # args;
           (r, m) = fesvr E magic_mem (mem s)
       in (r, s\<lparr>mem := m, trace := trace s @ [HostCall magic_mem]\<rparr>))"

text \<open>The same call for \<^verbatim>\<open>HTIFSYS_write\<close>, the buffer given by its contents: the only buffers
  written are local arrays that nothing else can reach.\<close>

definition frontend_write :: "env \<Rightarrow> int32 \<Rightarrow> string \<Rightarrow> uint64 op" where
  "frontend_write E fd bytes =
     with_fs_lock (\<lambda>s. (fesvr_write E fd bytes, s\<lparr>trace := trace s @ [HostWrite fd bytes]\<rparr>))"

lemma with_fs_lock_free:
  "fs_lock s = 0 \<Longrightarrow> request (s\<lparr>fs_lock := - 1\<rparr>) = (r, s') \<Longrightarrow>
    with_fs_lock request s = Ret r (s'\<lparr>fs_lock := 0\<rparr>)"
  by (simp add: with_fs_lock_def spinlock_lock_free spinlock_unlock_def)

lemma with_fs_lock_held: "fs_lock s \<noteq> 0 \<Longrightarrow> with_fs_lock request s = Diverge"
  by (simp add: with_fs_lock_def spinlock_lock_held)

lemma kstate_fs_lock_idem: "fs_lock s = 0 \<Longrightarrow> s\<lparr>fs_lock := 0\<rparr> = s"
  by simp

lemma frontend_syscall_free:
  assumes "fs_lock s = 0"
  shows "frontend_syscall E n args s =
    Ret (fst (fesvr E (n # args) (mem s)))
      (s\<lparr>mem := snd (fesvr E (n # args) (mem s)), trace := trace s @ [HostCall (n # args)]\<rparr>)"
  using assms unfolding frontend_syscall_def
  by (subst with_fs_lock_free [where r = "fst (fesvr E (n # args) (mem s))"
        and s' = "s\<lparr>fs_lock := - 1, mem := snd (fesvr E (n # args) (mem s)),
          trace := trace s @ [HostCall (n # args)]\<rparr>"]) (auto simp: case_prod_unfold Let_def)

lemma frontend_write_free:
  assumes "fs_lock s = 0"
  shows "frontend_write E fd bytes s =
    Ret (fesvr_write E fd bytes) (s\<lparr>trace := trace s @ [HostWrite fd bytes]\<rparr>)"
  using assms unfolding frontend_write_def
  by (subst with_fs_lock_free [where r = "fesvr_write E fd bytes"
        and s' = "s\<lparr>fs_lock := - 1, trace := trace s @ [HostWrite fd bytes]\<rparr>"]) auto

subsection \<open>The state at power-on\<close>

text \<open>The globals as their initialisers leave them; memory, registers and the clock are what
  the machine has.\<close>

definition boot_state :: "memory \<Rightarrow> csrs \<Rightarrow> gprs \<Rightarrow> uint64 \<Rightarrow> uint64 \<Rightarrow> kstate" where
  "boot_state m c g now cmp =
     \<lparr>mem = m, csr = c, gpr = g, pc = 0x80000000, priv = M_mode, htif = 0, g_mem_size = 0, g_ticks = 0, current = 0,
      spike_files = replicate 128 \<lparr>kfd = - 1, refcnt = 0\<rparr>, spike_fds = replicate 128 None,
      fs_lock = 0, mtime = now, mtimecmp = cmp, trace = []\<rparr>"

text \<open>A concrete machine for the instances of the theorems: registers zero, \<^verbatim>\<open>misa\<close> with the
  S extension, and a host that answers every request with zero and leaves memory alone.\<close>

definition sample_csrs :: csrs where
  "sample_csrs =
     \<lparr>mstatus = 0, mie = 0, mip = 0, mideleg = 0, medeleg = 0, mepc = 0, mtvec = 0, mscratch = 0,
      mcause = 0, mtval = 0, misa = 0x40000, stvec = 0, sepc = 0, scause = 0, stval = 0,
      sscratch = 0, satp = 0\<rparr>"

definition sample_state :: kstate where
  "sample_state = boot_state (\<lambda>_. 0) sample_csrs (\<lambda>_. 0) 0 0"

definition sample_env :: env where
  "sample_env =
     \<lparr>fesvr = (\<lambda>_ m. (0, m)), fesvr_write = (\<lambda>_ _. 0), va_area = 0x81201000,
      smode_trap_vector = 0x80000100, smode_trap_handler_addr = 0x80000200,
      s_start_addr = 0x80000300, mtrapvec = 0x80000400, mem_done_addr = 0x80000500,
      g_itrframe = 0x80010000, user_app = 0x80020000, arg_bug_msg = 0x81210000,
      elfloader_ehdr = 0x81211000, ph_addr = 0x81212000, sect = 0x81213000, str_hdr = 0x81214000,
      mideleg_legal = (\<lambda>w. w), medeleg_legal = (\<lambda>w. w),
      sie_access = 0x80000600, sie_tval = 0x10402773\<rparr>"

lemmas boot_defs = boot_state_def sample_csrs_def sample_state_def

lemma sample_fields [simp]:
  "fs_lock sample_state = 0" "trace sample_state = []" "console sample_state = []"
  "htif sample_state = 0" "current sample_state = 0" "mem sample_state = (\<lambda>_. 0)"
  "gpr sample_state = (\<lambda>_. 0)" "g_ticks sample_state = 0" "csr sample_state = sample_csrs"
  "spike_files sample_state = replicate 128 \<lparr>kfd = - 1, refcnt = 0\<rparr>"
  "spike_fds sample_state = replicate 128 None"
  by (simp_all add: sample_state_def boot_state_def console_def)

lemma sample_env_fields [simp]:
  "va_area sample_env = 0x81201000" "fesvr sample_env req m = (0, m)"
  "user_app sample_env = 0x80020000"
  by (simp_all add: sample_env_def)

end
