(* ===== verification/SpikeUtils.thy ===== *)
theory SpikeUtils
  imports Kstate
begin

text \<open>
  \<^verbatim>\<open>spike_interface/spike_utils.c\<close>: messages, termination, panic and assertions, with the
  \<^verbatim>\<open>spike_file_write\<close> of \<^verbatim>\<open>spike_interface/spike_file.c\<close> they print through.
\<close>

subsection \<open>Messages\<close>

definition MAX_FILES :: nat where [const_defs]: "MAX_FILES = 128"
definition MAX_FDS :: nat where [const_defs]: "MAX_FDS = 128"

text \<open>A \<^verbatim>\<open>spike_file_t*\<close> is an index into the table \<^verbatim>\<open>spike_files\<close>.\<close>

definition spike_file_write :: "env \<Rightarrow> nat \<Rightarrow> string \<Rightarrow> uint64 op" where
  "spike_file_write E f bytes s = frontend_write E (kfd (spike_files s ! f)) bytes s"

definition stderr :: nat where
  "stderr = 2"

text \<open>The number of bytes \<^verbatim>\<open>vprintk\<close> sends, with C's conversion of \<^verbatim>\<open>int\<close> to \<^verbatim>\<open>size_t\<close>.\<close>

definition vprintk_size :: "int32 \<Rightarrow> nat" where
  "vprintk_size res = (let r = scast res :: uint64 in if r < 256 then unat r else 256)"

text \<open>\<^verbatim>\<open>vprintk\<close>; the 256 bytes of the uninitialised array \<^verbatim>\<open>out\<close> start as zeros here, and no byte
  is sent that was not written.\<close>

definition vprintk :: "env \<Rightarrow> string \<Rightarrow> va list \<Rightarrow> unit op" where
  "vprintk E fmt vl s =
     (case vsnprintf (replicate 256 (CHR 0x00)) 256 fmt vl of
        Inl u \<Rightarrow> Undef u
      | Inr (res, out) \<Rightarrow>
          seq (spike_file_write E stderr (take (vprintk_size res) out)) (ret ()) s)"

definition printk :: "env \<Rightarrow> string \<Rightarrow> va list \<Rightarrow> unit op" where
  "printk E fmt vl = vprintk E fmt vl"

definition sprint :: "env \<Rightarrow> string \<Rightarrow> va list \<Rightarrow> unit op" where
  "sprint E fmt vl = vprintk E fmt vl"

text \<open>What reaches the console of a text that was formatted into the 256-byte buffer.\<close>

definition clip :: "string \<Rightarrow> string" where
  "clip e = take (vprintk_size (of_nat (length e))) (take 255 e @ [CHR 0x00])"

lemma vprintk_size_small: "n < 256 \<Longrightarrow> vprintk_size (of_nat n) = n"
proof -
  assume n: "n < 256"
  have "sint (of_nat n :: int32) = int n"
    using n by (simp add: signed_of_nat signed_take_bit_int_eq_self)
  then have "(scast (of_nat n :: int32) :: uint64) = of_nat n"
    by (simp add: scast_eq)
  moreover have "unat (of_nat n :: uint64) = n"
    using n by (intro unat_of_nat_small) simp
  ultimately show ?thesis
    using n by (simp add: vprintk_size_def word_less_nat_alt)
qed

lemma vprintk_size_le: "vprintk_size r \<le> 256"
  by (simp add: vprintk_size_def Let_def word_less_nat_alt)

lemma clip_short [simp]: "length e < 256 \<Longrightarrow> clip e = e"
  by (simp add: clip_def vprintk_size_small)

lemma clip_long:
  assumes "256 \<le> length e" and "length e < 2 ^ 31"
  shows "clip e = take 255 e @ [CHR 0x00]"
proof -
  let ?n = "length e"
  have "sint (of_nat ?n :: int32) = int ?n"
    using assms(2) by (simp add: signed_of_nat signed_take_bit_int_eq_self)
  then have "(scast (of_nat ?n :: int32) :: uint64) = of_nat ?n"
    by (simp add: scast_eq)
  moreover have "unat (of_nat ?n :: uint64) = ?n"
    using assms(2) by (intro unat_of_nat_small) simp
  ultimately have "vprintk_size (of_nat ?n) = 256"
    using assms(1) by (simp add: vprintk_size_def word_less_nat_alt)
  then show ?thesis
    using assms(1) by (simp add: clip_def)
qed

lemma length_clip: "length (clip e) \<le> 256"
  unfolding clip_def by simp

lemma vsnprintf_256:
  assumes "expand 256 0 False False fmt vl = Inr e"
  obtains out where "vsnprintf (replicate 256 (CHR 0x00)) 256 fmt vl = Inr (of_nat (length e), out)"
    and "take (vprintk_size (of_nat (length e))) out = clip e"
proof -
  let ?out = "take 255 e @ [CHR 0x00] @ drop (Suc (min (length e) 255)) (replicate 256 (CHR 0x00))"
  have "vsnprintf (replicate 256 (CHR 0x00)) 256 fmt vl = Inr (of_nat (length e), ?out)"
    by (subst vsnprintf_expand) (simp_all add: assms)
  moreover have "take (vprintk_size (of_nat (length e))) ?out = clip e"
  proof -
    have "vprintk_size (of_nat (length e)) \<le> length (take 255 e @ [CHR 0x00])"
      using vprintk_size_le [of "of_nat (length e)"] vprintk_size_small [of "length e"]
      by (cases "length e < 256") auto
    then have "take (vprintk_size (of_nat (length e))) ((take 255 e @ [CHR 0x00]) @ rest) = clip e" for rest
      unfolding clip_def by (subst take_append) simp
    then show ?thesis by simp
  qed
  ultimately show ?thesis by (rule that)
qed


text \<open>\<^verbatim>\<open>sprint\<close> puts the expansion of its format string on the console, up to 256 bytes of it,
  and changes nothing else.\<close>

lemma sprint_expand:
  assumes "fs_lock s = 0" and "expand 256 0 False False fmt vl = Inr e"
  shows "sprint E fmt vl s =
    Ret () (s\<lparr>trace := trace s @ [HostWrite (kfd (spike_files s ! stderr)) (clip e)]\<rparr>)"
proof -
  obtain out where out: "vsnprintf (replicate 256 (CHR 0x00)) 256 fmt vl = Inr (of_nat (length e), out)"
    "take (vprintk_size (of_nat (length e))) out = clip e"
    using vsnprintf_256 [OF assms(2)] .
  show ?thesis
    unfolding sprint_def vprintk_def out(1)
    by (simp add: outcome_defs spike_file_write_def frontend_write_free [OF assms(1)] out(2))
qed

lemma sprint_undef:
  "expand 256 0 False False fmt vl = Inl u \<Longrightarrow> sprint E fmt vl s = Undef u"
  by (simp add: sprint_def vprintk_def vsnprintf_expand)

lemma sprint_locked:
  "fs_lock s \<noteq> 0 \<Longrightarrow> expand 256 0 False False fmt vl = Inr e \<Longrightarrow> sprint E fmt vl s = Diverge"
  by (erule vsnprintf_256)
    (simp add: sprint_def vprintk_def outcome_defs spike_file_write_def frontend_write_def
      with_fs_lock_held)

text \<open>A format string without conversions expands to itself.\<close>

lemma expand_literal: "CHR ''%'' \<notin> set fmt \<Longrightarrow> expand n pos False longarg fmt vl = Inr fmt"
  by (induction fmt arbitrary: pos) auto

lemma expand_literal_append:
  "CHR ''%'' \<notin> set lit \<Longrightarrow>
    expand n pos False longarg (lit @ fmt) vl =
      map_ok (\<lambda>e. lit @ e) (expand n (pos + length lit) False longarg fmt vl)"
proof (induction lit arbitrary: pos)
  case Nil
  show ?case by (cases "expand n pos False longarg fmt vl") simp_all
next
  case (Cons c lit)
  then show ?case by (auto simp: map_ok_map_ok)
qed

text \<open>The first conversion of a format string: without an argument it is undefined, a number is shown, a
  string that was not passed is undefined.\<close>

abbreviation no_conversion :: "string \<Rightarrow> bool" where
  "no_conversion spec \<equiv> \<forall>c\<in>set spec. \<not> conversion c"

lemma expand_spec:
  "no_conversion spec \<Longrightarrow>
    expand n pos True longarg (spec @ fmt) vl = expand n pos True (longarg \<or> CHR ''l'' \<in> set spec) fmt vl"
  by (induction spec arbitrary: longarg) (auto simp: conversion_def)

lemma expand_no_argument:
  assumes "no_conversion spec" and "conversion c" and "c = CHR ''c'' \<longrightarrow> Suc pos < n"
  shows "expand n pos True longarg (spec @ c # rest) [] = Inl VaArgs"
  using assms(2,3) by (auto simp: expand_spec [OF assms(1)] conversion_def)

lemma expand_first_conversion:
  assumes "CHR ''%'' \<notin> set a" and "no_conversion spec" and "conversion c" and "c = CHR ''c'' \<longrightarrow> Suc (pos + length a) < n"
  shows "expand n pos False longarg (a @ ''%'' @ spec @ c # rest) [] = Inl VaArgs"
  using expand_no_argument [OF assms(2-4)] by (simp add: expand_literal_append [OF assms(1)])

lemma expand_number:
  assumes "CHR ''%'' \<notin> set a" and "no_conversion spec" and "c \<in> set ''dxp''"
  shows "expand n pos False False (a @ ''%'' @ spec @ c # rest) (VaWord w # vl) =
    map_ok (\<lambda>e. a @ number_text (CHR ''l'' \<in> set spec) c w @ e)
      (expand n (pos + length a + length (number_text (CHR ''l'' \<in> set spec) c w)) False False rest vl)"
  using assms(3)
  by (auto simp: expand_literal_append [OF assms(1)] expand_spec [OF assms(2)] number_text_def map_ok_map_ok Let_def)

text \<open>Without arguments the only error is a missing argument, and the text is never longer than its format string.\<close>

lemma expand_missing: "expand n pos format longarg fmt [] = Inl u \<Longrightarrow> u = VaArgs"
proof (induction fmt arbitrary: pos format longarg)
  case (Cons c fmt)
  have step: "u = VaArgs" if "map_ok (\<lambda>e. d # e) (expand n k b l fmt []) = Inl u" for d k b l
    using that Cons.IH by (cases "expand n k b l fmt []") auto
  show ?case
    using Cons.prems step Cons.IH by (auto split: if_splits)
qed simp

lemma expand_length: "expand n pos format longarg fmt [] = Inr e \<Longrightarrow> length e \<le> length fmt"
proof (induction fmt arbitrary: pos format longarg e)
  case (Cons c fmt)
  have step: "length e' \<le> length (c # fmt)"
    if "map_ok (\<lambda>e. d # e) (expand n k b l fmt []) = Inr e'" for d k b l e'
    using that Cons.IH by (cases "expand n k b l fmt []") auto
  have same: "length e' \<le> length (c # fmt)" if "expand n k b l fmt [] = Inr e'" for k b l e'
    using Cons.IH [OF that] by simp
  show ?case
    using Cons.prems step same by (auto split: if_splits)
qed simp

lemma expand_string_missing:
  assumes "CHR ''%'' \<notin> set a" and "no_conversion spec"
  shows "expand n pos False False (a @ ''%'' @ spec @ CHR ''s'' # rest) (VaWord w # vl) = Inl VaArgs"
  by (simp add: expand_literal_append [OF assms(1)] expand_spec [OF assms(2)])

subsection \<open>The printer as its clients see it\<close>

text \<open>One text on the console.\<close>

definition emit :: "string \<Rightarrow> kstate \<Rightarrow> kstate" where
  "emit e s = s\<lparr>trace := trace s @ [HostWrite (kfd (spike_files s ! stderr)) (clip e)]\<rparr>"

lemma emit_fields [simp]:
  "mem (emit e s) = mem s" "csr (emit e s) = csr s" "gpr (emit e s) = gpr s" "pc (emit e s) = pc s"
  "priv (emit e s) = priv s" "htif (emit e s) = htif s" "g_mem_size (emit e s) = g_mem_size s"
  "g_ticks (emit e s) = g_ticks s" "current (emit e s) = current s"
  "spike_files (emit e s) = spike_files s" "spike_fds (emit e s) = spike_fds s"
  "fs_lock (emit e s) = fs_lock s" "mtime (emit e s) = mtime s" "mtimecmp (emit e s) = mtimecmp s"
  "console (emit e s) = console s @ clip e"
  by (simp_all add: emit_def console_def)

text \<open>What the rest of the kernel relies on when it prints: in a state ready for printing the
  text of the format string is put out and printing stays possible; a mismatch of arguments
  is the only failure.\<close>

locale printer =
  fixes print :: "string \<Rightarrow> va list \<Rightarrow> 's \<Rightarrow> ('s, unit) outcome"
    and ready :: "'s \<Rightarrow> bool"
    and out :: "string \<Rightarrow> 's \<Rightarrow> 's"
    and shown :: "'s \<Rightarrow> string"
  assumes print_ok: "ready s \<Longrightarrow> expand 256 0 False False fmt vl = Inr e \<Longrightarrow> print fmt vl s = Ret () (out e s)"
    and print_bad: "expand 256 0 False False fmt vl = Inl u \<Longrightarrow> print fmt vl s = Undef u"
    and out_ready: "ready s \<Longrightarrow> ready (out e s)"
    and out_shown: "shown (out e s) = shown s @ clip e"
begin

lemma print_literal: "ready s \<Longrightarrow> CHR ''%'' \<notin> set t \<Longrightarrow> print t vl s = Ret () (out t s)"
  by (simp add: print_ok expand_literal)

lemma print_then:
  "ready s \<Longrightarrow> expand 256 0 False False fmt vl = Inr e \<Longrightarrow> seq (print fmt vl) f s = f (out e s)"
  by (simp add: seq_def print_ok)

lemma outs_ready: "ready s \<Longrightarrow> ready (fold out es s)"
  by (induction es arbitrary: s) (simp_all add: out_ready)

lemma outs_shown: "shown (fold out es s) = shown s @ concat (map clip es)"
  by (induction es arbitrary: s) (simp_all add: out_shown)

end

interpretation con: printer "sprint E" "\<lambda>s. fs_lock s = 0" emit console for E
  by unfold_locales (simp_all add: sprint_expand sprint_undef emit_def)

lemma emits_eq:
  "fold emit es s =
    s\<lparr>trace := trace s @ map (\<lambda>e. HostWrite (kfd (spike_files s ! stderr)) (clip e)) es\<rparr>"
  by (induction es arbitrary: s) (simp_all add: emit_def)

lemma emits_fields [simp]:
  "mem (fold emit es s) = mem s" "csr (fold emit es s) = csr s" "gpr (fold emit es s) = gpr s"
  "pc (fold emit es s) = pc s" "priv (fold emit es s) = priv s"
  "current (fold emit es s) = current s" "g_ticks (fold emit es s) = g_ticks s"
  "fs_lock (fold emit es s) = fs_lock s" "htif (fold emit es s) = htif s"
  "spike_files (fold emit es s) = spike_files s"
  by (induction es arbitrary: s) simp_all

subsection \<open>Termination, panic, assertions\<close>

text \<open>\<^verbatim>\<open>shutdown(code)\<close>: the message, the exit request, and then a loop that only the host ends.\<close>

definition shutdown :: "env \<Rightarrow> int32 \<Rightarrow> 'a op" where
  "shutdown E code =
     seq (sprint E ''System is shutting down with exit code %d.\<newline>'' [VaWord (scast code)])
       (seq (frontend_syscall E HTIFSYS_exit [scast code, 0, 0, 0, 0, 0, 0])
         (\<lambda>s. Halt (Exit code) s))"

text \<open>\<^verbatim>\<open>do_panic(s, ...)\<close> passes its \<^verbatim>\<open>va_list\<close> on as if it were the first argument of the format
  string: on this machine a \<^verbatim>\<open>va_list\<close> is the address of the saved arguments.\<close>

definition do_panic :: "env \<Rightarrow> string \<Rightarrow> va list \<Rightarrow> 'a op" where
  "do_panic E fmt args = seq (sprint E fmt [VaWord (va_area E)]) (shutdown E (- 1))"

definition panic :: "env \<Rightarrow> string \<Rightarrow> va list \<Rightarrow> 'a op" where
  "panic E fmt args = do_panic E (fmt @ ''\<newline>'') args"

definition kassert_fail :: "env \<Rightarrow> string \<Rightarrow> 'a op" where
  "kassert_fail E cond s =
     seq (do_panic E ''assertion failed @ %p: %s\<newline>'' [VaWord (gpr s Ra), VaStr cond] :: unit op)
       (shutdown E (- 1)) s"

definition kassert :: "env \<Rightarrow> bool \<Rightarrow> string \<Rightarrow> unit op" where
  "kassert E x cond = (if \<not> x then kassert_fail E cond else ret ())"

text \<open>\<^verbatim>\<open>die(str, ...)\<close> prints its place and message and calls \<^verbatim>\<open>poweroff\<close>, which itself asserts that
  HTIF was found and so calls \<^verbatim>\<open>die\<close> again when it was not.  A run of that recursion that
  does not end is \<open>None\<close>.\<close>

definition die_message :: "env \<Rightarrow> string \<Rightarrow> nat \<Rightarrow> string \<Rightarrow> va list \<Rightarrow> unit op" where
  "die_message E file line str args =
     sprint E (''%s:%d: '' @ str @ ''\<newline>'') (VaStr file # VaWord (of_nat line) # args)"

partial_function (option) poweroff_rec :: "env \<Rightarrow> kstate \<Rightarrow> (kstate, unit) outcome option" where
  "poweroff_rec E s =
     (if htif s = 0 then
        (case die_message E ''spike_interface/spike_utils.c'' 84 ''assertion failed: %s'' [VaStr ''htif''] s of
           Ret _ s' \<Rightarrow> poweroff_rec E s'
         | r \<Rightarrow> Some r)
      else Some (seq (sprint E (''Power off'' @ [CHR 0x0D, CHR 0x0A]) []) (\<lambda>s'. Halt PowerOff s') s))"

fun no_return :: "('s, 'a) outcome \<Rightarrow> ('s, 'b) outcome" where
  "no_return (Halt h s) = Halt h s"
| "no_return (Resume s) = Resume s"
| "no_return (Undef u) = Undef u"
| "no_return _ = Diverge"

definition poweroff :: "env \<Rightarrow> 'a op" where
  "poweroff E s = (case poweroff_rec E s of None \<Rightarrow> Diverge | Some r \<Rightarrow> no_return r)"

definition die :: "env \<Rightarrow> string \<Rightarrow> nat \<Rightarrow> string \<Rightarrow> va list \<Rightarrow> 'a op" where
  "die E file line str args = seq (die_message E file line str args) (poweroff E)"

definition assert :: "env \<Rightarrow> bool \<Rightarrow> string \<Rightarrow> nat \<Rightarrow> string \<Rightarrow> unit op" where
  "assert E x file line cond =
     (if \<not> x then die E file line ''assertion failed: %s'' [VaStr cond] else ret ())"


text \<open>What these operations do when the host lock is free, which it is between calls.\<close>

lemma ucast_scast_int32 [simp]: "(ucast (scast (w :: int32) :: uint64) :: int32) = w"
  by (rule bit_word_eqI) (simp add: bit_simps)

definition shutdown_message :: "int32 \<Rightarrow> string" where
  "shutdown_message code =
     ''System is shutting down with exit code '' @ expand_d (scast code) @ ''.\<newline>''"

text \<open>The state in which the machine stops.\<close>

definition halted :: "env \<Rightarrow> int32 \<Rightarrow> kstate \<Rightarrow> kstate" where
  "halted E code s =
     (let req = [HTIFSYS_exit, scast code, 0, 0, 0, 0, 0, 0]
      in s\<lparr>mem := snd (fesvr E req (mem s)),
           trace := trace s @ [HostWrite (kfd (spike_files s ! stderr)) (clip (shutdown_message code)),
             HostCall req]\<rparr>)"

lemma shutdown_eq:
  assumes "fs_lock s = 0"
  shows "shutdown E code s = Halt (Exit code) (halted E code s)"
proof -
  have e: "expand 256 0 False False ''System is shutting down with exit code %d.\<newline>'' [VaWord (scast code)]
      = Inr (shutdown_message code)"
    by (simp add: shutdown_message_def)
  show ?thesis
    by (simp add: shutdown_def outcome_defs sprint_expand [OF assms e] frontend_syscall_free assms
        halted_def Let_def)
qed

lemma console_halted: "console (halted E code s) = console s @ clip (shutdown_message code)"
  by (simp add: halted_def console_def Let_def)

lemma do_panic_literal:
  assumes "fs_lock s = 0" and "CHR ''%'' \<notin> set fmt"
  shows "do_panic E fmt args s = Halt (Exit (- 1)) (halted E (- 1)
    (s\<lparr>trace := trace s @ [HostWrite (kfd (spike_files s ! stderr)) (clip fmt)]\<rparr>))"
  by (simp add: do_panic_def outcome_defs sprint_expand [OF assms(1) expand_literal [OF assms(2)]]
      shutdown_eq assms(1))

lemma poweroff_rec_htif:
  assumes "fs_lock s = 0" and "htif s \<noteq> 0"
  shows "poweroff_rec E s = Some (Halt PowerOff (s\<lparr>trace := trace s @
    [HostWrite (kfd (spike_files s ! stderr)) (''Power off'' @ [CHR 0x0D, CHR 0x0A])]\<rparr>))"
  by (subst poweroff_rec.simps)
    (simp add: assms outcome_defs sprint_expand [OF assms(1) expand_literal])

definition assert_message :: "string \<Rightarrow> nat \<Rightarrow> string \<Rightarrow> string" where
  "assert_message file line cond =
     file @ '':'' @ expand_d (scast (of_nat line :: int32)) @ '': assertion failed: '' @ cond @ ''\<newline>''"

lemma ucast_of_nat_32: "(ucast (of_nat n :: uint64) :: int32) = of_nat n"
  by (rule bit_word_eqI) (auto simp: bit_simps)

lemma die_message_eq:
  assumes "fs_lock s = 0"
  shows "die_message E file line ''assertion failed: %s'' [VaStr cond] s =
    Ret () (s\<lparr>trace := trace s @
      [HostWrite (kfd (spike_files s ! stderr)) (clip (assert_message file line cond))]\<rparr>)"
proof -
  have e: "expand 256 0 False False (''%s:%d: '' @ ''assertion failed: %s'' @ ''\<newline>'')
      (VaStr file # VaWord (of_nat line) # [VaStr cond]) = Inr (assert_message file line cond)"
    by (simp add: assert_message_def ucast_of_nat_32)
  show ?thesis
    unfolding die_message_def by (rule sprint_expand [OF assms e])
qed

lemma poweroff_rec_no_htif:
  "poweroff_rec E s = Some r \<Longrightarrow> \<not> (fs_lock s = 0 \<and> htif s = 0)"
proof (rule poweroff_rec.raw_induct [where P = "\<lambda>E s r. \<not> (fs_lock s = 0 \<and> htif s = 0)"])
  fix f :: "env \<Rightarrow> kstate \<Rightarrow> (kstate, unit) outcome option" and E s r
  assume IH: "\<And>E s r. f E s = Some r \<Longrightarrow> \<not> (fs_lock s = 0 \<and> htif s = 0)"
    and eq: "(if htif s = 0 then
        (case die_message E ''spike_interface/spike_utils.c'' 84 ''assertion failed: %s'' [VaStr ''htif''] s of
           Ret _ s' \<Rightarrow> f E s'
         | Halt h t \<Rightarrow> Some (Halt h t) | Resume t \<Rightarrow> Some (Resume t)
         | Diverge \<Rightarrow> Some Diverge | Undef u \<Rightarrow> Some (Undef u))
      else Some (seq (sprint E (''Power off'' @ [CHR 0x0D, CHR 0x0A]) []) (\<lambda>s'. Halt PowerOff s') s)) = Some r"
  show "\<not> (fs_lock s = 0 \<and> htif s = 0)"
  proof
    assume *: "fs_lock s = 0 \<and> htif s = 0"
    let ?s = "s\<lparr>trace := trace s @ [HostWrite (kfd (spike_files s ! stderr))
      (clip (assert_message ''spike_interface/spike_utils.c'' 84 ''htif''))]\<rparr>"
    have "f E ?s = Some r"
      using eq by (simp only: * die_message_eq simp_thms if_True outcome.case)
    from IH [OF this] * show False by simp
  qed
qed

text \<open>
  \<^verbatim>\<open>sprint\<close> puts on standard error the first 256 bytes of the text its format string and
  arguments stand for, the terminator among them when the text is cut, and changes no
  other part of the state; it fails only when the arguments do not match the format string.
\<close>

lemma sprint_correct:
  assumes "fs_lock s = 0"
  shows "sprint E fmt vl s =
    (case expand 256 0 False False fmt vl of
       Inl u \<Rightarrow> Undef u
     | Inr e \<Rightarrow> Ret () (s\<lparr>trace := trace s @ [HostWrite (kfd (spike_files s ! stderr)) (clip e)]\<rparr>))
    \<and> (\<forall>e. length e < 256 \<longrightarrow> clip e = e)
    \<and> (\<forall>e. 256 \<le> length e \<and> length e < 2 ^ 31 \<longrightarrow> clip e = take 255 e @ [CHR 0x00])"
proof (intro conjI allI impI)
  show "sprint E fmt vl s = (case expand 256 0 False False fmt vl of Inl u \<Rightarrow> Undef u
     | Inr e \<Rightarrow> Ret () (s\<lparr>trace := trace s @ [HostWrite (kfd (spike_files s ! stderr)) (clip e)]\<rparr>))"
    by (cases "expand 256 0 False False fmt vl") (simp_all add: sprint_expand assms sprint_undef)
next
  fix e :: string
  assume "length e < 256"
  then show "clip e = e" by simp
next
  fix e :: string
  assume "256 \<le> length e \<and> length e < 2 ^ 31"
  then show "clip e = take 255 e @ [CHR 0x00]" by (simp add: clip_long)
qed

lemma sprint_correct_witness:
  "sprint sample_env ''%s'' [VaStr ''f8''] sample_state =
    Ret () (sample_state\<lparr>trace := [HostWrite (- 1) ''f8'']\<rparr>)"
  using sprint_correct [of sample_state sample_env "''%s''" "[VaStr ''f8'']"]
  by (simp add: stderr_def)

lemma assert_halts:
  assumes "fs_lock s = 0" and "htif s \<noteq> 0"
  shows "assert E False file line cond s = Halt PowerOff (s\<lparr>trace := trace s @
    [HostWrite (kfd (spike_files s ! stderr)) (clip (assert_message file line cond)),
     HostWrite (kfd (spike_files s ! stderr)) (''Power off'' @ [CHR 0x0D, CHR 0x0A])]\<rparr>)"
  using assms by (simp add: assert_def die_def seq_def die_message_eq poweroff_def poweroff_rec_htif)

text \<open>
  C38.  An assertion that holds changes nothing.  One that fails stops the machine: where
  HTIF was found the message and then \<^verbatim>\<open>Power off\<close> are on the console.  Where it was not found,
  \<^verbatim>\<open>poweroff\<close>'s own assertion fails again and again and the machine never stops.
\<close>

theorem assert_correct:
  assumes "fs_lock s = 0"
  shows "assert E True file line cond s = Ret () s
    \<and> (htif s \<noteq> 0 \<longrightarrow> (\<exists>t. assert E False file line cond s = Halt PowerOff t
         \<and> console t = console s @ clip (assert_message file line cond)
             @ ''Power off'' @ [CHR 0x0D, CHR 0x0A]))
    \<and> (htif s = 0 \<longrightarrow> assert E False file line cond s = Diverge)"
proof (intro conjI impI)
  show "assert E True file line cond s = Ret () s"
    by (simp add: assert_def outcome_defs)
next
  assume "htif s \<noteq> 0"
  then show "\<exists>t. assert E False file line cond s = Halt PowerOff t \<and> console t = console s
      @ clip (assert_message file line cond) @ ''Power off'' @ [CHR 0x0D, CHR 0x0A]"
    using assms by (simp add: assert_halts console_def)
next
  assume h: "htif s = 0"
  have "poweroff_rec E t = None" if "fs_lock t = 0" "htif t = 0" for t
    using poweroff_rec_no_htif [of E t] that by (cases "poweroff_rec E t") auto
  with h assms show "assert E False file line cond s = Diverge"
    by (simp add: assert_def die_def seq_def die_message_eq poweroff_def)
qed

theorem assert_correct_witness:
  "assert sample_env False ''process.c'' 29 ''proc'' sample_state = Diverge"
  using assert_correct [of sample_state sample_env "''process.c''" 29 "''proc''"]
  by simp

text \<open>The text of a panic: the format string with one argument, the address of the saved arguments.\<close>

lemma panic_eq:
  assumes "fs_lock s = 0"
  shows "panic E fmt args s = (case expand 256 0 False False (fmt @ ''\<newline>'') [VaWord (va_area E)] of
      Inl u \<Rightarrow> Undef u
    | Inr e \<Rightarrow> Halt (Exit (- 1)) (halted E (- 1) (emit e s)))"
proof (cases "expand 256 0 False False (fmt @ ''\<newline>'') [VaWord (va_area E)]")
  case (Inl u)
  then show ?thesis
    by (simp only: panic_def do_panic_def seq_def and_then.simps con.print_bad sum.case outcome.case)
next
  case (Inr e)
  have "shutdown E (- 1) (emit e s) = Halt (Exit (- 1)) (halted E (- 1) (emit e s))"
    using assms by (intro shutdown_eq) simp
  then show ?thesis
    by (simp only: panic_def do_panic_def con.print_then [OF assms Inr] Inr sum.case)
qed

text \<open>
  C37.  A panic is its message and the stop of the machine with exit code -1, where the only argument of the
  format string is the address of the saved arguments: a message without conversions is shown as it
  is; a first conversion to a number shows that address and not the argument that was passed; a
  string, or a second conversion, is undefined behaviour.  So is every \<^verbatim>\<open>kassert\<close> that fails, as its message takes two arguments.
\<close>

theorem panic_correct:
  assumes "fs_lock s = 0" and "r = panic E fmt args s"
  shows "(case expand 256 0 False False (fmt @ ''\<newline>'') [VaWord (va_area E)] of
        Inl u \<Rightarrow> r = Undef u
      | Inr e \<Rightarrow> \<exists>t. r = Halt (Exit (- 1)) t
          \<and> console t = console s @ clip e @ clip (shutdown_message (- 1)))
    \<and> (CHR ''%'' \<notin> set fmt \<longrightarrow> (\<exists>t. r = Halt (Exit (- 1)) t
          \<and> console t = console s @ clip (fmt @ ''\<newline>'') @ clip (shutdown_message (- 1))))
    \<and> (fmt = a @ ''%'' @ spec @ c # b \<and> CHR ''%'' \<notin> set a \<and> no_conversion spec \<longrightarrow>
        (c \<in> set ''dxp'' \<and> CHR ''%'' \<notin> set b \<longrightarrow> (\<exists>t. r = Halt (Exit (- 1)) t
           \<and> console t = console s @ clip (a @ number_text (CHR ''l'' \<in> set spec) c (va_area E) @ b @ ''\<newline>'')
               @ clip (shutdown_message (- 1))))
        \<and> (c = CHR ''s'' \<longrightarrow> r = Undef VaArgs)
        \<and> (c \<in> set ''dxp'' \<and> b = a' @ ''%'' @ spec' @ c' # b' \<and> CHR ''%'' \<notin> set a' \<and> no_conversion spec'
             \<and> conversion c' \<and> c' \<noteq> CHR ''c'' \<longrightarrow> r = Undef VaArgs))
    \<and> kassert E False cond s = Undef VaArgs"
proof (intro conjI impI)
  let ?w = "va_area E" and ?l = "CHR ''l'' \<in> set spec"
  have eq: "r = (case expand 256 0 False False (fmt @ ''\<newline>'') [VaWord ?w] of
      Inl u \<Rightarrow> Undef u | Inr e \<Rightarrow> Halt (Exit (- 1)) (halted E (- 1) (emit e s)))"
    unfolding assms(2) by (rule panic_eq [OF assms(1)])
  have stops: "\<exists>t. r = Halt (Exit (- 1)) t \<and> console t = console s @ clip e @ clip (shutdown_message (- 1))"
    if "expand 256 0 False False (fmt @ ''\<newline>'') [VaWord ?w] = Inr e" for e
    using eq that by (simp add: console_halted)
  show "case expand 256 0 False False (fmt @ ''\<newline>'') [VaWord ?w] of
      Inl u \<Rightarrow> r = Undef u
    | Inr e \<Rightarrow> \<exists>t. r = Halt (Exit (- 1)) t \<and> console t = console s @ clip e @ clip (shutdown_message (- 1))"
    using stops eq by (simp split: sum.split)
  show "\<exists>t. r = Halt (Exit (- 1)) t \<and> console t = console s @ clip (fmt @ ''\<newline>'') @ clip (shutdown_message (- 1))"
    if "CHR ''%'' \<notin> set fmt"
    by (rule stops) (use that in \<open>simp add: expand_literal\<close>)
  show "kassert E False cond s = Undef VaArgs"
    by (simp add: kassert_def kassert_fail_def do_panic_def seq_def sprint_undef)
  assume f: "fmt = a @ ''%'' @ spec @ c # b \<and> CHR ''%'' \<notin> set a \<and> no_conversion spec"
  then have fmt: "fmt @ ''\<newline>'' = a @ ''%'' @ spec @ c # (b @ ''\<newline>'')" and a: "CHR ''%'' \<notin> set a" "no_conversion spec"
    by simp_all
  show "\<exists>t. r = Halt (Exit (- 1)) t
      \<and> console t = console s @ clip (a @ number_text ?l c ?w @ b @ ''\<newline>'') @ clip (shutdown_message (- 1))"
    if "c \<in> set ''dxp'' \<and> CHR ''%'' \<notin> set b"
  proof (rule stops)
    have "expand 256 k False False (b @ ''\<newline>'') [] = Inr (b @ ''\<newline>'')" for k
      using that by (simp add: expand_literal)
    then show "expand 256 0 False False (fmt @ ''\<newline>'') [VaWord ?w] = Inr (a @ number_text ?l c ?w @ b @ ''\<newline>'')"
      unfolding fmt expand_number [OF a conjunct1 [OF that]] by simp
  qed
  show "r = Undef VaArgs" if "c = CHR ''s''"
    unfolding eq fmt that expand_string_missing [OF a] by simp
  show "r = Undef VaArgs"
    if t: "c \<in> set ''dxp'' \<and> b = a' @ ''%'' @ spec' @ c' # b' \<and> CHR ''%'' \<notin> set a' \<and> no_conversion spec'
      \<and> conversion c' \<and> c' \<noteq> CHR ''c''"
  proof -
    have "expand 256 k False False (b @ ''\<newline>'') [] = Inl VaArgs" for k
      using t expand_first_conversion [of a' spec' c' k 256 False "b' @ ''\<newline>''"] by simp
    then show ?thesis
      unfolding eq fmt expand_number [OF a conjunct1 [OF t]] by simp
  qed
qed

theorem panic_correct_witness:
  "\<exists>t. (panic sample_env ''Unknown syscall %ld'' [VaWord 70] sample_state :: (kstate, unit) outcome) = Halt (Exit (- 1)) t
    \<and> console t = clip (''Unknown syscall '' @ expand_d 0x81201000 @ ''\<newline>'')
        @ clip (shutdown_message (- 1))"
  using panic_correct [where ?'a = unit, of sample_state _ sample_env "''Unknown syscall %ld''" "[VaWord 70]" "''Unknown syscall ''" "''l''"
      "CHR ''d''" "[]" _ _ _ _ "''r == 0''", OF sample_fields(1) refl]
  by (simp add: conversion_def number_text_def)

end
