(* ===== verification/Process.thy ===== *)
theory Process
  imports SpikeUtils
begin

text \<open>
  The process structure and the trap frame of \<^verbatim>\<open>kernel/process.h\<close> as they lie in memory, the
  symbol records of \<^verbatim>\<open>elf_symbol\<close>, and the way into and out of user mode: \<^verbatim>\<open>switch_to\<close> of
  \<^verbatim>\<open>kernel/process.c\<close> and the two routines of \<^verbatim>\<open>kernel/strap_vector.S\<close>.
\<close>

subsection \<open>Layout\<close>

definition MAX_USER_SYMS :: nat where [const_defs]: "MAX_USER_SYMS = 512"
definition MAX_USER_STRTAB :: nat where [const_defs]: "MAX_USER_STRTAB = 8 * 1024"

text \<open>Members of \<^verbatim>\<open>trapframe\<close> after the 31 registers.\<close>

definition tf_kernel_sp :: uint64 where [const_defs]: "tf_kernel_sp = 248"
definition tf_kernel_trap :: uint64 where [const_defs]: "tf_kernel_trap = 256"
definition tf_epc :: uint64 where [const_defs]: "tf_epc = 264"
definition sizeof_trapframe :: uint64 where [const_defs]: "sizeof_trapframe = 272"

text \<open>Members of \<^verbatim>\<open>process\<close>.\<close>

definition p_kstack :: uint64 where [const_defs]: "p_kstack = 0"
definition p_trapframe :: uint64 where [const_defs]: "p_trapframe = 8"
definition p_symtab :: uint64 where [const_defs]: "p_symtab = 16"
definition p_sym_count :: uint64 where [const_defs]: "p_sym_count = 12304"
definition p_strtab :: uint64 where [const_defs]: "p_strtab = 12312"
definition p_strtab_sz :: uint64 where [const_defs]: "p_strtab_sz = 20504"

record elf_symbol =
  st_name :: uint32
  st_info :: uint8
  st_other :: uint8
  st_shndx :: uint16
  st_value :: uint64
  st_size :: uint64

definition sizeof_elf_symbol :: uint64 where [const_defs]: "sizeof_elf_symbol = 24"

definition read_symbol :: "memory \<Rightarrow> uint64 \<Rightarrow> elf_symbol" where
  "read_symbol m a =
     \<lparr>st_name = read32 m a, st_info = m (a + 4), st_other = m (a + 5), st_shndx = read16 m (a + 6),
      st_value = read64 m (a + 8), st_size = read64 m (a + 16)\<rparr>"

definition ELF64_ST_TYPE :: "uint8 \<Rightarrow> uint8" where
  "ELF64_ST_TYPE i = i AND 0xf"

definition STT_FUNC :: uint8 where [const_defs]: "STT_FUNC = 2"

text \<open>A register in the trap frame at \<open>tf\<close>.\<close>

definition tf_reg :: "memory \<Rightarrow> uint64 \<Rightarrow> reg \<Rightarrow> uint64" where
  "tf_reg m tf r = read64 m (tf + reg_off r)"

subsection \<open>Entering and leaving the supervisor\<close>

text \<open>A trap into S mode: what the hart does before the first instruction of the vector.\<close>

definition trap_to_s :: "uint64 \<Rightarrow> uint64 \<Rightarrow> kstate \<Rightarrow> kstate" where
  "trap_to_s cause tval s =
     (let c = csr s; x = read_sstatus c;
          x1 = (if x AND SSTATUS_SIE \<noteq> 0 then x OR SSTATUS_SPIE else x AND NOT SSTATUS_SPIE);
          x2 = x1 AND NOT SSTATUS_SIE;
          x3 = (if priv s = U_mode then x2 AND NOT SSTATUS_SPP else x2 OR SSTATUS_SPP)
      in s\<lparr>csr := (write_sstatus x3 c)\<lparr>sepc := pc s, scause := cause, stval := tval\<rparr>,
           priv := S_mode, pc := stvec c\<rparr>)"

text \<open>\<^verbatim>\<open>sret\<close>\<close>

definition sret :: "kstate \<Rightarrow> kstate" where
  "sret s =
     (let c = csr s; x = read_sstatus c;
          x1 = (if x AND SSTATUS_SPIE \<noteq> 0 then x OR SSTATUS_SIE else x AND NOT SSTATUS_SIE);
          x2 = (x1 OR SSTATUS_SPIE) AND NOT SSTATUS_SPP
      in s\<lparr>csr := write_sstatus x2 c,
           priv := (if x AND SSTATUS_SPP \<noteq> 0 then S_mode else U_mode), pc := sepc c\<rparr>)"

text \<open>\<^verbatim>\<open>smode_trap_vector\<close>, up to its jump: exchange \<^verbatim>\<open>a0\<close> and \<^verbatim>\<open>sscratch\<close>, save all registers in the
  trap frame through \<^verbatim>\<open>t6\<close>, save the user's \<^verbatim>\<open>a0\<close>, load the kernel stack, jump to the handler.\<close>

definition smode_trap_vector_code :: "kstate \<Rightarrow> kstate" where
  "smode_trap_vector_code s =
     (let g = gpr s; c = csr s;
          c1 = c\<lparr>sscratch := g A0\<rparr>;
          g1 = g(A0 := sscratch c);
          g2 = g1(T6 := g1 A0 + 0);
          m1 = store_all_registers g2 (mem s);
          g3 = g2(T0 := sscratch c1);
          m2 = write64 m1 (g3 A0 + 72) (g3 T0);
          g4 = g3(Sp := read64 m2 (g3 A0 + 248));
          g5 = g4(T0 := read64 m2 (g4 A0 + 256))
      in s\<lparr>csr := c1, gpr := g5, mem := m2, pc := g5 T0\<rparr>)"

text \<open>\<^verbatim>\<open>return_to_user(tf)\<close>, with its argument in \<^verbatim>\<open>a0\<close>.\<close>

definition return_to_user :: "uint64 \<Rightarrow> 'a op" where
  "return_to_user tf s =
     (let g = (gpr s)(A0 := tf);
          c1 = (csr s)\<lparr>sscratch := g A0\<rparr>;
          g1 = g(T6 := g A0 + 0);
          g2 = restore_all_registers (mem s) g1
      in Resume (sret (s\<lparr>csr := c1, gpr := g2\<rparr>)))"

text \<open>\<^verbatim>\<open>switch_to(proc)\<close>, after its assertion.\<close>

definition switch_to_body :: "env \<Rightarrow> uint64 \<Rightarrow> 'a op" where
  "switch_to_body E proc s =
     (let s1 = s\<lparr>current := proc, csr := (csr s)\<lparr>stvec := smode_trap_vector E\<rparr>\<rparr>;
          m0 = mem s1;
          m1 = write64 m0 (read64 m0 (proc + p_trapframe) + tf_kernel_sp) (read64 m0 (proc + p_kstack));
          m2 = write64 m1 (read64 m1 (proc + p_trapframe) + tf_kernel_trap) (smode_trap_handler_addr E);
          x = read_sstatus (csr s1);
          x1 = x AND NOT SSTATUS_SPP;
          x2 = x1 OR SSTATUS_SPIE;
          c2 = write_sstatus x2 (csr s1);
          c3 = c2\<lparr>sepc := read64 m2 (read64 m2 (proc + p_trapframe) + tf_epc)\<rparr>
      in return_to_user (read64 m2 (proc + p_trapframe)) (s1\<lparr>mem := m2, csr := c3\<rparr>))"

definition switch_to :: "env \<Rightarrow> uint64 \<Rightarrow> 'a op" where
  "switch_to E proc =
     seq (assert E (proc \<noteq> 0) ''kernel/process.c'' 29 ''proc'') (switch_to_body E proc)"

subsection \<open>A process that can run\<close>

text \<open>The registers of machine mode, which supervisor code leaves alone.\<close>

definition m_regs :: "csrs \<Rightarrow> uint64 list" where
  "m_regs c = [mscratch c, mtvec c, mideleg c, medeleg c, mie c]"

lemma m_regs_update [simp]:
  "m_regs (c\<lparr>mstatus := x\<rparr>) = m_regs c" "m_regs (c\<lparr>mip := x\<rparr>) = m_regs c" "m_regs (c\<lparr>sepc := x\<rparr>) = m_regs c"
  "m_regs (c\<lparr>sscratch := x\<rparr>) = m_regs c" "m_regs (c\<lparr>stvec := x\<rparr>) = m_regs c" "m_regs (c\<lparr>scause := x\<rparr>) = m_regs c"
  "m_regs (c\<lparr>stval := x\<rparr>) = m_regs c" "m_regs (write_sstatus x c) = m_regs c" "m_regs (write_sip x c) = m_regs c"
  by (simp_all add: m_regs_def write_sstatus_def write_sip_def Let_def)

definition tf_of :: "memory \<Rightarrow> uint64 \<Rightarrow> uint64" where
  "tf_of m p = read64 m (p + p_trapframe)"

text \<open>The trap frame does not overlap the process structure.\<close>

definition layout_ok :: "memory \<Rightarrow> uint64 \<Rightarrow> bool" where
  "layout_ok m p \<longleftrightarrow> p \<noteq> 0 \<and> apart (tf_of m p) 272 p 20512"

text \<open>What holds while the process runs in user mode: a trap will find its trap frame, its
  kernel stack and the handler.\<close>

definition user_ready :: "env \<Rightarrow> uint64 \<Rightarrow> kstate \<Rightarrow> bool" where
  "user_ready E p s \<longleftrightarrow>
     priv s = U_mode \<and> current s = p \<and> layout_ok (mem s) p
     \<and> stvec (csr s) = smode_trap_vector E \<and> sscratch (csr s) = tf_of (mem s) p
     \<and> read64 (mem s) (tf_of (mem s) p + tf_kernel_sp) = read64 (mem s) (p + p_kstack)
     \<and> read64 (mem s) (tf_of (mem s) p + tf_kernel_trap) = smode_trap_handler_addr E"

text \<open>Ranges inside the trap frame and the process structure.\<close>

lemma layout_apart:
  assumes "layout_ok m p" and "unat a + n \<le> 272" and "unat b + k \<le> 20512"
  shows "apart (tf_of m p + a) n (p + b) k"
  using apart_sub [of "tf_of m p" 272 p 20512 "unat a" n "unat b" k] assms
  by (simp add: layout_ok_def)

lemma frame_apart_regs:
  "apart (reg_off r) 8 tf_kernel_sp 8" "apart (reg_off r) 8 tf_kernel_trap 8"
  "apart (reg_off r) 8 tf_epc 8" "apart tf_kernel_sp 8 (reg_off r) 8"
  "apart tf_kernel_trap 8 (reg_off r) 8" "apart tf_epc 8 (reg_off r) 8"
  by (cases r; simp add: apart_def const_defs)+

lemma frame_apart_tail:
  "apart tf_kernel_sp 8 tf_kernel_trap 8" "apart tf_kernel_sp 8 tf_epc 8"
  "apart tf_kernel_trap 8 tf_epc 8" "apart tf_kernel_trap 8 tf_kernel_sp 8"
  "apart tf_epc 8 tf_kernel_sp 8" "apart tf_epc 8 tf_kernel_trap 8"
  by (simp_all add: apart_def const_defs)

lemmas frame_apart = frame_apart_regs frame_apart_tail

lemma frame_member_only_changes:
  "unat a + 8 \<le> 272 \<Longrightarrow> only_changes tf 272 m (write64 m (tf + a) v)"
  using only_changes_mono [of tf "unat a" 8 m "write64 m (tf + a) v" 272]
  by (simp add: only_changes_write64)

lemma unat_frame_members [simp]:
  "unat tf_kernel_sp = 248" "unat tf_kernel_trap = 256" "unat tf_epc = 264"
  "unat p_kstack = 0" "unat p_trapframe = 8" "unat p_symtab = 16" "unat p_sym_count = 12304"
  "unat p_strtab = 12312" "unat p_strtab_sz = 20504"
  by (simp_all add: const_defs)

text \<open>Changes inside the trap frame leave the process structure, and so the frame's place,
  alone.\<close>

lemma frame_change_process:
  assumes "layout_ok m p" and "only_changes (tf_of m p) 272 m m'" and "unat b + k \<le> 20512"
  shows "read_bytes m' (p + b) k = read_bytes m (p + b) k"
  using only_changes_read_bytes [OF assms(2)] layout_apart [OF assms(1), of 0 272 b k] assms(3) by simp

lemma frame_change_read64:
  assumes "layout_ok m p" and "only_changes (tf_of m p) 272 m m'" and "unat b + 8 \<le> 20512"
  shows "read64 m' (p + b) = read64 m (p + b)"
  unfolding read64_def using frame_change_process [OF assms] by simp

lemma frame_change_tf_of:
  "layout_ok m p \<Longrightarrow> only_changes (tf_of m p) 272 m m' \<Longrightarrow> tf_of m' p = tf_of m p"
  unfolding tf_of_def using frame_change_read64 [of m p m' p_trapframe] by (simp add: tf_of_def)

lemma frame_change_layout:
  "layout_ok m p \<Longrightarrow> only_changes (tf_of m p) 272 m m' \<Longrightarrow> layout_ok m' p"
  using frame_change_tf_of [of m p m'] by (simp add: layout_ok_def)

subsection \<open>switch\_to\<close>

text \<open>The two stores of \<^verbatim>\<open>switch_to\<close> into the trap frame.\<close>

definition frame_armed :: "env \<Rightarrow> uint64 \<Rightarrow> memory \<Rightarrow> memory" where
  "frame_armed E p m =
     write64 (write64 m (tf_of m p + tf_kernel_sp) (read64 m (p + p_kstack)))
       (tf_of m p + tf_kernel_trap) (smode_trap_handler_addr E)"

lemma frame_armed_only_changes: "only_changes (tf_of m p) 272 m (frame_armed E p m)"
  unfolding frame_armed_def
  by (rule only_changes_trans; rule frame_member_only_changes) simp_all

lemma sret_user:
  assumes "\<not> bit (mstatus (csr s)) 8"
  shows "priv (sret s) = U_mode" "pc (sret s) = sepc (csr s)" "gpr (sret s) = gpr s"
    "mem (sret s) = mem s" "current (sret s) = current s" "trace (sret s) = trace s"
    "fs_lock (sret s) = fs_lock s" "stvec (csr (sret s)) = stvec (csr s)"
    "sscratch (csr (sret s)) = sscratch (csr s)"
    "spike_files (sret s) = spike_files s" "htif (sret s) = htif s" "g_ticks (sret s) = g_ticks s"
  using assms
  by (simp_all add: sret_def Let_def and_flag_eq_0 bit_read_sstatus write_sstatus_def)

lemma sret_interrupts:
  assumes "bit (mstatus (csr s)) 5"
  shows "is_intr_enable (csr (sret s))"
  using assms
  by (simp add: sret_def Let_def is_intr_enable_def and_flag_eq_0 bit_read_sstatus bit_write_sstatus
      bit_sstatus_mask_bits [simplified] bit_and_iff bit_or_iff bit_not_iff bit_flags)

text \<open>The status register between the two writes of \<^verbatim>\<open>switch_to\<close>.\<close>

definition user_sstatus :: "csrs \<Rightarrow> csrs" where
  "user_sstatus c = write_sstatus ((read_sstatus c AND NOT SSTATUS_SPP) OR SSTATUS_SPIE) c"

lemma user_sstatus_bits:
  "\<not> bit (mstatus (user_sstatus c)) 8" "bit (mstatus (user_sstatus c)) 5"
  by (simp_all add: user_sstatus_def bit_write_sstatus bit_sstatus_mask_bits [simplified] bit_and_iff
      bit_or_iff bit_not_iff bit_flags)

lemma user_sstatus_fields [simp]:
  "stvec (user_sstatus c) = stvec c" "sscratch (user_sstatus c) = sscratch c"
  by (simp_all add: user_sstatus_def write_sstatus_def)

lemma switch_to_body_eq:
  assumes "layout_ok (mem s) p"
  shows "switch_to_body E p s =
    Resume (sret (s\<lparr>current := p, mem := frame_armed E p (mem s),
      csr := (user_sstatus ((csr s)\<lparr>stvec := smode_trap_vector E\<rparr>))
        \<lparr>sepc := read64 (mem s) (tf_of (mem s) p + tf_epc), sscratch := tf_of (mem s) p\<rparr>,
      gpr := tf_reg (mem s) (tf_of (mem s) p)\<rparr>))"
proof -
  let ?m = "mem s" let ?tf = "tf_of ?m p"
  let ?m1 = "write64 ?m (?tf + tf_kernel_sp) (read64 ?m (p + p_kstack))"
  let ?m2 = "frame_armed E p ?m"
  have tf1: "tf_of ?m1 p = ?tf"
    by (rule frame_change_tf_of [OF assms]) (simp add: frame_member_only_changes)
  have tf2: "tf_of ?m2 p = ?tf"
    by (rule frame_change_tf_of [OF assms frame_armed_only_changes])
  have m2: "write64 ?m1 (tf_of ?m1 p + tf_kernel_trap) (smode_trap_handler_addr E) = ?m2"
    by (simp only: tf1 frame_armed_def)
  have epc: "read64 ?m2 (?tf + tf_epc) = read64 ?m (?tf + tf_epc)"
    by (simp add: frame_armed_def read64_write64_apart frame_apart)
  have regs: "read64 ?m2 (?tf + reg_off r) = read64 ?m (?tf + reg_off r)" for r
    by (simp add: frame_armed_def read64_write64_apart frame_apart)
  have restore: "restore_all_registers ?m2 (g(A0 := ?tf, T6 := ?tf)) = tf_reg ?m ?tf" for g
    by (rule ext) (simp add: restore_all tf_reg_def regs)
  show ?thesis
    by (simp add: switch_to_body_def Let_def return_to_user_def restore
        tf2 m2 epc user_sstatus_def write_sstatus_def read_sstatus_def flip: tf_of_def)
qed

text \<open>The state in which \<^verbatim>\<open>switch_to\<close> leaves for the process.\<close>

definition user_state :: "env \<Rightarrow> uint64 \<Rightarrow> kstate \<Rightarrow> kstate" where
  "user_state E p s =
     sret (s\<lparr>current := p, mem := frame_armed E p (mem s),
      csr := (user_sstatus ((csr s)\<lparr>stvec := smode_trap_vector E\<rparr>))
        \<lparr>sepc := read64 (mem s) (tf_of (mem s) p + tf_epc), sscratch := tf_of (mem s) p\<rparr>,
      gpr := tf_reg (mem s) (tf_of (mem s) p)\<rparr>)"

lemma switch_to_eq:
  assumes "layout_ok (mem s) p"
  shows "switch_to E p s = Resume (user_state E p s)"
  using assms
  by (simp add: switch_to_def seq_def assert_def ret_def switch_to_body_eq user_state_def)
    (simp add: layout_ok_def)

lemma user_state_fields:
  "priv (user_state E p s) = U_mode"
  "pc (user_state E p s) = read64 (mem s) (tf_of (mem s) p + tf_epc)"
  "gpr (user_state E p s) = tf_reg (mem s) (tf_of (mem s) p)"
  "mem (user_state E p s) = frame_armed E p (mem s)"
  "current (user_state E p s) = p" "trace (user_state E p s) = trace s"
  "fs_lock (user_state E p s) = fs_lock s"
  "stvec (csr (user_state E p s)) = smode_trap_vector E"
  "sscratch (csr (user_state E p s)) = tf_of (mem s) p"
  "spike_files (user_state E p s) = spike_files s" "htif (user_state E p s) = htif s"
  "g_ticks (user_state E p s) = g_ticks s"
  unfolding user_state_def by (subst sret_user; simp add: user_sstatus_bits)+

lemma user_state_interrupts: "is_intr_enable (csr (user_state E p s))"
  unfolding user_state_def by (rule sret_interrupts) (simp add: user_sstatus_bits)

lemma user_state_m_regs [simp]: "m_regs (csr (user_state E p s)) = m_regs (csr s)"
  by (simp add: user_state_def user_sstatus_def sret_def Let_def)

lemma frame_armed_reads:
  assumes "layout_ok m p"
  shows "tf_of (frame_armed E p m) p = tf_of m p"
    "read64 (frame_armed E p m) (tf_of m p + tf_kernel_sp) = read64 m (p + p_kstack)"
    "read64 (frame_armed E p m) (tf_of m p + tf_kernel_trap) = smode_trap_handler_addr E"
    "read64 (frame_armed E p m) (p + p_kstack) = read64 m (p + p_kstack)"
  using frame_change_tf_of [OF assms frame_armed_only_changes]
    frame_change_read64 [OF assms frame_armed_only_changes, of p_kstack]
  by (simp_all add: frame_armed_def read64_write64_apart frame_apart)

lemma user_state_ready:
  assumes "layout_ok (mem s) p"
  shows "user_ready E p (user_state E p s)"
  using assms frame_change_layout [OF assms frame_armed_only_changes]
  by (simp add: user_ready_def user_state_fields frame_armed_reads)

text \<open>
  C13.  \<^verbatim>\<open>switch_to(proc)\<close> always reaches user mode: it resumes at the saved program counter with
  every register as the trap frame has it and with interrupts enabled, changes no memory
  outside the trap frame, and leaves the machine so that the next trap finds the trap frame, the
  kernel stack and the handler.  With a null process it stops with an assertion.
\<close>

theorem switch_to_correct:
  "(layout_ok (mem s) p \<longrightarrow>
     (\<exists>t. switch_to E p s = Resume t \<and> user_ready E p t
        \<and> pc t = read64 (mem s) (tf_of (mem s) p + tf_epc)
        \<and> gpr t = tf_reg (mem s) (tf_of (mem s) p)
        \<and> is_intr_enable (csr t)
        \<and> only_changes (tf_of (mem s) p) 272 (mem s) (mem t)
        \<and> trace t = trace s))
    \<and> (fs_lock s = 0 \<and> htif s \<noteq> 0 \<longrightarrow> (\<exists>t. switch_to E 0 s = Halt PowerOff t))"
proof (intro conjI impI)
  assume "layout_ok (mem s) p"
  then show "\<exists>t. switch_to E p s = Resume t \<and> user_ready E p t
        \<and> pc t = read64 (mem s) (tf_of (mem s) p + tf_epc)
        \<and> gpr t = tf_reg (mem s) (tf_of (mem s) p)
        \<and> is_intr_enable (csr t)
        \<and> only_changes (tf_of (mem s) p) 272 (mem s) (mem t)
        \<and> trace t = trace s"
    by (simp add: switch_to_eq user_state_ready user_state_fields user_state_interrupts
        frame_armed_only_changes)
next
  assume "fs_lock s = 0 \<and> htif s \<noteq> 0"
  then show "\<exists>t. switch_to E 0 s = Halt PowerOff t"
    by (simp add: switch_to_def seq_def assert_halts)
qed

text \<open>A concrete process for the instances: its structure at \<^verbatim>\<open>0x80020000\<close>, its trap frame at
  \<^verbatim>\<open>USER_TRAP_FRAME\<close>.\<close>

definition sample_process :: memory where
  "sample_process = write64 (\<lambda>_. 0) 0x80020008 0x81300000"

lemma sample_layout: "tf_of sample_process 0x80020000 = 0x81300000" "layout_ok sample_process 0x80020000"
proof -
  show tf: "tf_of sample_process 0x80020000 = 0x81300000"
    by (simp add: tf_of_def sample_process_def p_trapframe_def)
  show "layout_ok sample_process 0x80020000"
    by (simp add: layout_ok_def tf apart_def)
qed

theorem switch_to_correct_witness:
  "\<exists>t. switch_to sample_env 0x80020000 (sample_state\<lparr>mem := sample_process\<rparr>) = Resume t
    \<and> user_ready sample_env 0x80020000 t"
  using switch_to_correct [of "sample_state\<lparr>mem := sample_process\<rparr>" "0x80020000" sample_env] sample_layout(2)
  by auto

subsection \<open>Trap entry\<close>

text \<open>The state in which \<^verbatim>\<open>smode_trap_handler\<close> starts.\<close>

definition handler_entry :: "uint64 \<Rightarrow> uint64 \<Rightarrow> kstate \<Rightarrow> kstate" where
  "handler_entry cause tval s = smode_trap_vector_code (trap_to_s cause tval s)"

lemma trap_to_s_fields [simp]:
  "mem (trap_to_s cause tval s) = mem s" "gpr (trap_to_s cause tval s) = gpr s"
  "current (trap_to_s cause tval s) = current s" "trace (trap_to_s cause tval s) = trace s"
  "fs_lock (trap_to_s cause tval s) = fs_lock s" "priv (trap_to_s cause tval s) = S_mode"
  "pc (trap_to_s cause tval s) = stvec (csr s)"
  "sscratch (csr (trap_to_s cause tval s)) = sscratch (csr s)"
  "sepc (csr (trap_to_s cause tval s)) = pc s" "scause (csr (trap_to_s cause tval s)) = cause"
  "stval (csr (trap_to_s cause tval s)) = tval" "mideleg (csr (trap_to_s cause tval s)) = mideleg (csr s)"
  "mip (csr (trap_to_s cause tval s)) = mip (csr s)"
  "spike_files (trap_to_s cause tval s) = spike_files s" "htif (trap_to_s cause tval s) = htif s"
  "g_ticks (trap_to_s cause tval s) = g_ticks s"
  by (simp_all add: trap_to_s_def Let_def write_sstatus_def)

lemma trap_to_s_from_user:
  "priv s = U_mode \<Longrightarrow> \<not> bit (mstatus (csr (trap_to_s cause tval s))) 8"
  by (simp add: trap_to_s_def Let_def bit_write_sstatus bit_sstatus_mask_bits [simplified] bit_and_iff
      bit_not_iff bit_flags)

lemma handler_entry_fields [simp]:
  "current (handler_entry cause tval s) = current s" "trace (handler_entry cause tval s) = trace s"
  "fs_lock (handler_entry cause tval s) = fs_lock s" "priv (handler_entry cause tval s) = S_mode"
  "sepc (csr (handler_entry cause tval s)) = pc s" "scause (csr (handler_entry cause tval s)) = cause"
  "stval (csr (handler_entry cause tval s)) = tval"
  "mideleg (csr (handler_entry cause tval s)) = mideleg (csr s)"
  "mip (csr (handler_entry cause tval s)) = mip (csr s)"
  "spike_files (handler_entry cause tval s) = spike_files s" "htif (handler_entry cause tval s) = htif s"
  "g_ticks (handler_entry cause tval s) = g_ticks s"
  by (simp_all add: handler_entry_def smode_trap_vector_code_def Let_def)

lemma handler_entry_m_regs [simp]: "m_regs (csr (handler_entry cause tval s)) = m_regs (csr s)"
  by (simp add: handler_entry_def smode_trap_vector_code_def trap_to_s_def Let_def)

lemma handler_entry_from_user:
  "priv s = U_mode \<Longrightarrow> read_sstatus (csr (handler_entry cause tval s)) AND SSTATUS_SPP = 0"
  using trap_to_s_from_user [of s cause tval]
  by (simp add: handler_entry_def smode_trap_vector_code_def Let_def and_flag_eq_0 bit_read_sstatus)

text \<open>The registers in the trap frame when the handler starts: the user's, but for \<^verbatim>\<open>t6\<close>, which
  the vector overwrote with the address of the frame before it saved the registers.\<close>

definition saved_regs :: "gprs \<Rightarrow> uint64 \<Rightarrow> gprs" where
  "saved_regs g tf = g(T6 := tf)"

text \<open>What both trap vectors do to save the registers: all through \<^verbatim>\<open>t6\<close>, then the \<^verbatim>\<open>a0\<close> they exchanged.\<close>

definition save_frame :: "gprs \<Rightarrow> uint64 \<Rightarrow> memory \<Rightarrow> memory" where
  "save_frame g tf m = write64 (store_all_registers (g(A0 := tf, T6 := tf)) m) (tf + 72) (g A0)"

lemma save_frame_only_changes: "only_changes tf 248 m (save_frame g tf m)"
  using only_changes_trans [OF store_all_only_changes [of "g(A0 := tf, T6 := tf)" m, simplified]
      write_reg_only_changes [of tf _ A0]]
  by (simp add: save_frame_def)

lemma save_frame_regs: "tf_reg (save_frame g tf m) tf = saved_regs g tf"
proof
  fix r
  let ?g = "g(A0 := tf, T6 := tf)"
  have "read64 (save_frame g tf m) (tf + reg_off r) = ?g r" if "r \<noteq> A0"
    using that apart_reg_off [of A0 r] read64_store_all [of ?g m r]
    by (simp add: save_frame_def read64_write64_apart)
  moreover have "read64 (save_frame g tf m) (tf + reg_off A0) = g A0"
    by (simp add: save_frame_def)
  ultimately show "tf_reg (save_frame g tf m) tf r = saved_regs g tf r"
    by (cases "r = A0") (auto simp: tf_reg_def saved_regs_def)
qed

lemma handler_entry_mem:
  fixes s cause tval
  defines "tf \<equiv> sscratch (csr s)" and "m \<equiv> mem (handler_entry cause tval s)"
  shows "only_changes tf 272 (mem s) m"
    and "tf_reg m tf = saved_regs (gpr s) tf"
    and "read64 m (tf + tf_kernel_sp) = read64 (mem s) (tf + tf_kernel_sp)"
    and "read64 m (tf + tf_kernel_trap) = read64 (mem s) (tf + tf_kernel_trap)"
    and "gpr (handler_entry cause tval s) Sp = read64 (mem s) (tf + tf_kernel_sp)"
    and "pc (handler_entry cause tval s) = read64 (mem s) (tf + tf_kernel_trap)"
proof -
  have m: "m = save_frame (gpr s) tf (mem s)"
    by (simp add: m_def handler_entry_def smode_trap_vector_code_def Let_def tf_def save_frame_def)
  have ch: "only_changes tf 248 (mem s) m"
    unfolding m by (rule save_frame_only_changes)
  then show "only_changes tf 272 (mem s) m"
    using only_changes_mono [of tf 0 248 "mem s" m 272] by simp
  show "tf_reg m tf = saved_regs (gpr s) tf"
    unfolding m by (rule save_frame_regs)
  show ksp: "read64 m (tf + tf_kernel_sp) = read64 (mem s) (tf + tf_kernel_sp)"
    by (rule only_changes_read64 [OF ch]) (simp add: apart_def const_defs)
  show ktrap: "read64 m (tf + tf_kernel_trap) = read64 (mem s) (tf + tf_kernel_trap)"
    by (rule only_changes_read64 [OF ch]) (simp add: apart_def const_defs)
  have gp: "gpr (handler_entry cause tval s) Sp = read64 m (tf + 248)"
    "pc (handler_entry cause tval s) = read64 m (tf + 256)"
    by (simp_all add: m_def handler_entry_def smode_trap_vector_code_def Let_def tf_def)
  show "gpr (handler_entry cause tval s) Sp = read64 (mem s) (tf + tf_kernel_sp)"
    using ksp gp by (simp add: tf_kernel_sp_def)
  show "pc (handler_entry cause tval s) = read64 (mem s) (tf + tf_kernel_trap)"
    using ktrap gp by (simp add: tf_kernel_trap_def)
qed

text \<open>
  C12.  A trap out of the running process enters \<^verbatim>\<open>smode_trap_handler\<close> in supervisor mode on the
  process's kernel stack, with the interrupted program counter in \<^verbatim>\<open>sepc\<close> and user mode as
  previous privilege; the trap frame holds every user register except \<^verbatim>\<open>t6\<close>, whose value is lost
  (the frame's address is saved in its place), and nothing outside the frame has changed.
\<close>

theorem trap_entry_correct:
  assumes "user_ready E p s"
  shows "let t = handler_entry cause tval s; tf = tf_of (mem s) p in
    priv t = S_mode \<and> pc t = smode_trap_handler_addr E \<and> gpr t Sp = read64 (mem s) (p + p_kstack)
    \<and> sepc (csr t) = pc s \<and> scause (csr t) = cause
    \<and> read_sstatus (csr t) AND SSTATUS_SPP = 0
    \<and> (\<forall>r. r \<noteq> T6 \<longrightarrow> tf_reg (mem t) tf r = gpr s r) \<and> tf_reg (mem t) tf T6 = tf
    \<and> only_changes tf 272 (mem s) (mem t) \<and> trace t = trace s"
  using assms handler_entry_mem [where s = s and cause = cause and tval = tval]
    handler_entry_from_user [of s]
  by (simp add: user_ready_def Let_def saved_regs_def)

theorem trap_entry_correct_witness:
  "let s = user_state sample_env 0x80020000 (sample_state\<lparr>mem := sample_process\<rparr>);
       t = handler_entry CAUSE_USER_ECALL 0 s in
    priv t = S_mode \<and> tf_reg (mem t) 0x81300000 T6 = 0x81300000"
proof -
  let ?b = "sample_state\<lparr>mem := sample_process\<rparr>"
  let ?s = "user_state sample_env 0x80020000 ?b"
  have l: "layout_ok (mem ?b) 0x80020000" using sample_layout(2) by simp
  have "tf_of (mem ?s) 0x80020000 = 0x81300000"
    using frame_armed_reads(1) [OF l, of sample_env] sample_layout(1) by (simp add: user_state_fields)
  with trap_entry_correct [OF user_state_ready [OF l, of sample_env], of CAUSE_USER_ECALL 0]
  show ?thesis by (simp add: Let_def)
qed

end
