(* ===== verification/Syscall.thy ===== *)
theory Syscall
  imports Process
begin

text \<open>
  The system calls of \<^verbatim>\<open>kernel/syscall.c\<close>: printing, exiting, and the backtrace, which walks the
  frame-pointer chain on the user stack and names each return address by the symbol table of
  the process.
\<close>

subsection \<open>System call numbers\<close>

definition SYS_user_base :: int64 where [const_defs]: "SYS_user_base = 64"
definition SYS_user_print :: int64 where [const_defs]: "SYS_user_print = SYS_user_base + 0"
definition SYS_user_exit :: int64 where [const_defs]: "SYS_user_exit = SYS_user_base + 1"
definition SYS_user_backtrace :: int64 where [const_defs]: "SYS_user_backtrace = SYS_user_base + 2"

subsection \<open>Strings passed to the printer\<close>

text \<open>A \<^verbatim>\<open>char*\<close> given to the formatter, as the text up to its terminator.\<close>

definition c_string :: "memory \<Rightarrow> uint64 \<Rightarrow> string option" where
  "c_string m p = map_option (\<lambda>n. map char_of_byte (read_bytes m p (unat n))) (strlen m p)"

definition with_string :: "uint64 \<Rightarrow> (string \<Rightarrow> 'a op) \<Rightarrow> 'a op" where
  "with_string p f s = (case c_string (mem s) p of None \<Rightarrow> Diverge | Some t \<Rightarrow> f t s)"

definition bytes_of :: "string \<Rightarrow> uint8 list" where
  "bytes_of t = map byte_of t"

subsection \<open>print and exit\<close>

definition sys_user_print :: "env \<Rightarrow> uint64 \<Rightarrow> uint64 \<Rightarrow> int64 op" where
  "sys_user_print E buf n = with_string buf (\<lambda>t. seq (sprint E t []) (ret 0))"

definition sys_user_exit :: "env \<Rightarrow> uint64 \<Rightarrow> int64 op" where
  "sys_user_exit E code =
     seq (sprint E ''User exit with code:%d.\<newline>'' [VaWord code]) (shutdown E (ucast code))"

subsection \<open>Symbol lookup\<close>

text \<open>The loop of \<^verbatim>\<open>find_symbol_name\<close> from \<open>cursor\<close> to \<open>end\<close>; a null pointer is 0.\<close>

partial_function (option) find_symbol_loop ::
  "memory \<Rightarrow> uint64 \<Rightarrow> uint64 \<Rightarrow> uint64 \<Rightarrow> uint64 \<Rightarrow> uint64 option" where
  "find_symbol_loop m p vaddr cursor end_ptr =
     (if cursor < end_ptr then
        let sym = read_symbol m cursor;
            base_addr = st_value sym;
            limit_addr = base_addr + (if st_size sym \<noteq> 0 then st_size sym else 4) in
        if ELF64_ST_TYPE (st_info sym) \<noteq> STT_FUNC then
          find_symbol_loop m p vaddr (cursor + sizeof_elf_symbol) end_ptr
        else if st_value sym = 0 then
          find_symbol_loop m p vaddr (cursor + sizeof_elf_symbol) end_ptr
        else if vaddr \<ge> base_addr \<and> vaddr < limit_addr
            \<and> ucast (st_name sym) < read64 m (p + p_strtab_sz) then
          Some (p + p_strtab + ucast (st_name sym))
        else find_symbol_loop m p vaddr (cursor + sizeof_elf_symbol) end_ptr
      else Some 0)"

definition find_symbol_name :: "memory \<Rightarrow> uint64 \<Rightarrow> uint64 \<Rightarrow> uint64 option" where
  "find_symbol_name m p vaddr =
     (if read64 m (p + p_sym_count) = 0 \<or> read64 m (p + p_strtab_sz) = 0 then Some 0
      else find_symbol_loop m p vaddr (p + p_symtab)
             (p + p_symtab + sizeof_elf_symbol * read64 m (p + p_sym_count)))"

subsection \<open>The backtrace\<close>

text \<open>The part of the loop that prints one frame; the value says whether a line was printed.\<close>

definition print_frame :: "env \<Rightarrow> uint64 \<Rightarrow> uint64 \<Rightarrow> bool op" where
  "print_frame E sym_name ret_addr s =
     (if sym_name \<noteq> 0 then
        (if strcmp_lit (mem s) sym_name (bytes_of ''print_backtrace'') \<noteq> 0
            \<and> strcmp_lit (mem s) sym_name (bytes_of ''do_user_call'') \<noteq> 0 then
           with_string sym_name (\<lambda>t. seq (sprint E ''%s\<newline>'' [VaStr t]) (ret True)) s
         else Ret False s)
      else seq (sprint E ''0x%lx\<newline>'' [VaWord ret_addr]) (ret True) s)"

text \<open>The loop.  It ends because every frame pointer it follows is above the one before.\<close>

function backtrace_loop :: "env \<Rightarrow> uint64 \<Rightarrow> uint64 \<Rightarrow> uint64 \<Rightarrow> uint64 \<Rightarrow> uint64 op" where
  "backtrace_loop E max_depth current_sp current_fp count s =
     (if current_fp \<noteq> 0 \<and> count < max_depth then
        (if current_fp \<le> current_sp \<or> current_fp \<ge> USER_STACK then Ret count s
         else if current_fp - 8 \<le> current_sp then Ret count s
         else
          let ret_addr = read64 (mem s) (current_fp - 8) in
          (if ret_addr = 0 then Ret count s
           else
            (case find_symbol_name (mem s) (current s) ret_addr of
               None \<Rightarrow> Diverge
             | Some sym_name \<Rightarrow>
                 (if sym_name \<noteq> 0 \<and> strcmp_lit (mem s) sym_name (bytes_of ''main'') = 0 then Ret count s
                  else
                   (case print_frame E sym_name ret_addr s of
                      Ret valid_print s' \<Rightarrow>
                        (let count' = (if valid_print then count + 1 else count) in
                         if current_fp - 16 \<le> current_sp then Ret count' s'
                         else
                           (let old_fp = read64 (mem s') (current_fp - 16) in
                            if old_fp = 0 \<or> old_fp \<le> current_fp \<or> old_fp \<ge> USER_STACK then Ret count' s'
                            else backtrace_loop E max_depth current_sp old_fp count' s'))
                    | Halt h s' \<Rightarrow> Halt h s'
                    | Resume s' \<Rightarrow> Resume s'
                    | Diverge \<Rightarrow> Diverge
                    | Undef u \<Rightarrow> Undef u)))))
      else Ret count s)"
  by pat_completeness auto
termination
  by (relation "measure (\<lambda>(E, d, sp, fp, c, s). 2 ^ 64 - unat fp)")
    (auto simp: not_le word_less_nat_alt intro!: diff_less_mono2 unat_bound64 [simplified])

declare backtrace_loop.simps [simp del]

definition sys_user_backtrace :: "env \<Rightarrow> uint64 \<Rightarrow> uint64 op" where
  "sys_user_backtrace E max_depth s =
     (if max_depth = 0 then Ret 0 s
      else
        let tf = read64 (mem s) (current s + p_trapframe);
            current_sp = tf_reg (mem s) tf Sp;
            current_fp = tf_reg (mem s) tf S0 in
        if current_fp = 0 \<or> current_fp \<le> current_sp \<or> current_fp \<ge> USER_STACK then Ret 0 s
        else if current_fp - 8 \<le> current_sp then Ret 0 s
        else
          let next_fp = read64 (mem s) (current_fp - 8) in
          if next_fp = 0 \<or> next_fp \<le> current_fp \<or> next_fp \<ge> USER_STACK then Ret 0 s
          else backtrace_loop E max_depth current_sp next_fp 0 s)"

subsection \<open>Dispatch\<close>

definition do_syscall ::
  "env \<Rightarrow> int64 \<Rightarrow> int64 \<Rightarrow> int64 \<Rightarrow> int64 \<Rightarrow> int64 \<Rightarrow> int64 \<Rightarrow> int64 \<Rightarrow> int64 \<Rightarrow> int64 op" where
  "do_syscall E a0 a1 a2 a3 a4 a5 a6 a7 =
     (if a0 = SYS_user_print then sys_user_print E a1 a2
      else if a0 = SYS_user_exit then sys_user_exit E a1
      else if a0 = SYS_user_backtrace then sys_user_backtrace E a1
      else panic E (''Unknown syscall %ld '' @ ''\<newline>'') [VaWord a0])"

subsection \<open>Symbol lookup against its specification\<close>

text \<open>The symbol table as a list, and the symbols that name an address.\<close>

definition symbols :: "memory \<Rightarrow> uint64 \<Rightarrow> elf_symbol list" where
  "symbols m p =
     map (\<lambda>i. read_symbol m (p + p_symtab + of_nat (24 * i))) [0..<unat (read64 m (p + p_sym_count))]"

definition covers :: "uint64 \<Rightarrow> uint64 \<Rightarrow> elf_symbol \<Rightarrow> bool" where
  "covers strtab_sz vaddr e \<longleftrightarrow>
     ELF64_ST_TYPE (st_info e) = STT_FUNC \<and> st_value e \<noteq> 0
     \<and> st_value e \<le> vaddr \<and> vaddr < st_value e + (if st_size e \<noteq> 0 then st_size e else 4)
     \<and> ucast (st_name e) < strtab_sz"

definition lookup_symbol :: "memory \<Rightarrow> uint64 \<Rightarrow> uint64 \<Rightarrow> uint64" where
  "lookup_symbol m p vaddr =
     (case find (covers (read64 m (p + p_strtab_sz)) vaddr) (symbols m p) of
        None \<Rightarrow> 0
      | Some e \<Rightarrow> p + p_strtab + ucast (st_name e))"

text \<open>The symbols from the \<open>i\<close>th on, as the loop meets them.\<close>

lemma find_symbol_loop_eq:
  assumes "unat c + 24 * k < 2 ^ 64"
  shows "find_symbol_loop m p vaddr c (c + of_nat (24 * k)) =
    Some (case find (covers (read64 m (p + p_strtab_sz)) vaddr)
        (map (\<lambda>i. read_symbol m (c + of_nat (24 * i))) [0..<k]) of
        None \<Rightarrow> 0 | Some e \<Rightarrow> p + p_strtab + ucast (st_name e))"
  using assms
proof (induction k arbitrary: c)
  case 0
  then show ?case by (simp add: find_symbol_loop.simps)
next
  case (Suc k)
  define e where "e = c + of_nat (24 * Suc k)"
  have "unat e = unat c + 24 * Suc k"
    unfolding e_def using Suc.prems by (rule unat_add_small)
  then have lt: "c < e"
    by (simp add: word_less_nat_alt)
  have c24: "unat (c + 24) = unat c + 24"
    using unat_add_small [of c 24] Suc.prems by simp
  have end_eq: "e = c + 24 + of_nat (24 * k)"
    by (simp add: e_def algebra_simps)
  have IH: "find_symbol_loop m p vaddr (c + sizeof_elf_symbol) e =
    Some (case find (covers (read64 m (p + p_strtab_sz)) vaddr)
        (map (\<lambda>i. read_symbol m (c + 24 + of_nat (24 * i))) [0..<k]) of
        None \<Rightarrow> 0 | Some e \<Rightarrow> p + p_strtab + ucast (st_name e))"
    unfolding end_eq sizeof_elf_symbol_def by (rule Suc.IH) (use c24 Suc.prems in simp)
  have syms: "map (\<lambda>i. read_symbol m (c + of_nat (24 * i))) [0..<Suc k] =
      read_symbol m c # map (\<lambda>i. read_symbol m (c + 24 + of_nat (24 * i))) [0..<k]"
    by (simp add: map_upt_Suc algebra_simps del: upt_Suc)
  show ?case
    unfolding syms e_def [symmetric]
    by (subst find_symbol_loop.simps) (simp add: lt IH covers_def Let_def del: of_nat_mult)
qed

text \<open>The table fits in the process structure and the structure in the address space.\<close>

definition symtab_ok :: "memory \<Rightarrow> uint64 \<Rightarrow> bool" where
  "symtab_ok m p \<longleftrightarrow> unat p + 20512 < 2 ^ 64 \<and> read64 m (p + p_sym_count) \<le> 512"

lemma find_symbol_name_eq:
  assumes "symtab_ok m p"
  shows "find_symbol_name m p vaddr = Some (lookup_symbol m p vaddr)"
proof -
  let ?n = "unat (read64 m (p + p_sym_count))"
  have n: "?n \<le> 512"
    using assms by (simp add: symtab_ok_def word_le_nat_alt)
  have c: "unat (p + p_symtab) = unat p + 16"
    using unat_add_small [of p 16] assms by (simp add: symtab_ok_def p_symtab_def)
  have "sizeof_elf_symbol * read64 m (p + p_sym_count) = of_nat (24 * ?n)"
    by (simp add: sizeof_elf_symbol_def)
  then have "find_symbol_loop m p vaddr (p + p_symtab)
      (p + p_symtab + sizeof_elf_symbol * read64 m (p + p_sym_count)) = Some (lookup_symbol m p vaddr)"
    using find_symbol_loop_eq [of "p + p_symtab" ?n m p vaddr] c n assms
    by (simp add: lookup_symbol_def symbols_def symtab_ok_def)
  moreover have "lookup_symbol m p vaddr = 0" if "read64 m (p + p_sym_count) = 0"
    using that by (simp add: lookup_symbol_def symbols_def)
  moreover have "lookup_symbol m p vaddr = 0" if "read64 m (p + p_strtab_sz) = 0"
  proof -
    have "find (covers 0 vaddr) (symbols m p) = None"
      by (simp add: find_None_iff covers_def)
    with that show ?thesis by (simp add: lookup_symbol_def)
  qed
  ultimately show ?thesis
    by (simp add: find_symbol_name_def)
qed

subsection \<open>The backtrace against its specification\<close>

lemma c_string_cstr: "cstr_at m p bs \<Longrightarrow> c_string m p = Some (map char_of_byte bs)"
  using cstr_at_length [of m p bs]
  by (simp add: c_string_def strlen_cstr unat_of_nat_small cstr_at_read_bytes)

lemma zero_notin_bytes_of: "CHR 0x00 \<notin> set t \<Longrightarrow> 0 \<notin> set (bytes_of t)"
proof -
  assume "CHR 0x00 \<notin> set t"
  moreover have "byte_of (CHR 0x00) = 0"
    by (simp add: byte_of_def)
  ultimately show ?thesis
    using byte_of_inject by (metis bytes_of_def imageE list.set_map)
qed

lemma map_char_of_byte_eq: "map char_of_byte bs = t \<longleftrightarrow> bs = bytes_of t"
  by (auto simp: bytes_of_def comp_def map_idI)

lemma strcmp_name:
  assumes "c_string m q = Some n" and "cstr_at m q bs" and "CHR 0x00 \<notin> set t"
  shows "strcmp_lit m q (bytes_of t) = 0 \<longleftrightarrow> n = t"
proof -
  have "n = map char_of_byte bs"
    using assms(1) c_string_cstr [OF assms(2)] by simp
  then have "n = t \<longleftrightarrow> bs = bytes_of t"
    using map_char_of_byte_eq [of bs t] by simp
  also have "\<dots> \<longleftrightarrow> cstr_at m q (bytes_of t)"
    using assms(2) by (blast dest: cstr_at_unique [OF assms(2)])
  also have "\<dots> \<longleftrightarrow> strcmp_lit m q (bytes_of t) = 0"
    using strcmp_lit_eq_0_iff [OF zero_notin_bytes_of [OF assms(3)]] by simp
  finally show ?thesis by simp
qed

text \<open>The tables of a process: the symbols fit, and the string table ends with a terminator, as
  the ELF format requires.\<close>

definition tables_ok :: "memory \<Rightarrow> uint64 \<Rightarrow> bool" where
  "tables_ok m p \<longleftrightarrow> symtab_ok m p
     \<and> (let sz = read64 m (p + p_strtab_sz) in sz \<noteq> 0 \<longrightarrow> m (p + p_strtab + (sz - 1)) = 0)"

lemma lookup_symbol_string:
  assumes "tables_ok m p" and "lookup_symbol m p a \<noteq> 0"
  obtains bs off where "lookup_symbol m p a = p + p_strtab + off" and "off < read64 m (p + p_strtab_sz)"
    and "unat off + length bs < unat (read64 m (p + p_strtab_sz))"
    and "cstr_at m (lookup_symbol m p a) bs"
proof -
  let ?sz = "read64 m (p + p_strtab_sz)"
  obtain e where e: "find (covers ?sz a) (symbols m p) = Some e"
    and q: "lookup_symbol m p a = p + p_strtab + ucast (st_name e)"
    using assms(2) by (auto simp: lookup_symbol_def split: option.splits)
  let ?o = "ucast (st_name e) :: uint64"
  have lt: "?o < ?sz"
    using e by (auto simp: find_Some_iff covers_def)
  then have nz: "?sz \<noteq> 0" by auto
  let ?n = "unat (?sz - 1 - ?o)"
  have n: "?n = unat ?sz - 1 - unat ?o"
  proof -
    have sz1: "unat (?sz - 1) = unat ?sz - 1"
      using nz by (simp add: unat_minus_one)
    then have "?o \<le> ?sz - 1"
      using lt by (simp add: word_le_nat_alt word_less_nat_alt)
    then show ?thesis using unat_sub_le_word [of ?o "?sz - 1"] sz1 by simp
  qed
  have "p + p_strtab + ?o + of_nat ?n = p + p_strtab + (?sz - 1)"
    by simp
  then have "m (lookup_symbol m p a + of_nat ?n) = 0"
    using assms(1) nz unfolding q tables_ok_def Let_def by (simp only: simp_thms)
  with cstr_at_exists [of m "lookup_symbol m p a" ?n]
  obtain bs where bs: "length bs \<le> ?n" "cstr_at m (lookup_symbol m p a) bs" by blast
  have "unat ?o + length bs < unat ?sz"
    using bs(1) lt unfolding n by (simp add: word_less_nat_alt)
  with that [OF q lt _ bs(2)] show ?thesis by blast
qed

lemma lookup_symbol_name:
  assumes "tables_ok m p" and "lookup_symbol m p a \<noteq> 0"
  obtains bs where "cstr_at m (lookup_symbol m p a) bs"
    and "c_string m (lookup_symbol m p a) = Some (map char_of_byte bs)"
  using lookup_symbol_string [OF assms] c_string_cstr by metis

text \<open>The name printed for a return address.\<close>

definition label :: "memory \<Rightarrow> uint64 \<Rightarrow> uint64 \<Rightarrow> string" where
  "label m p a =
     (let q = lookup_symbol m p a
      in if q \<noteq> 0 then the (c_string m q) else ''0x'' @ hex_chars 16 a)"

lemma lookup_label:
  assumes "tables_ok m p" and "lookup_symbol m p a \<noteq> 0"
  obtains bs where "cstr_at m (lookup_symbol m p a) bs"
    and "c_string m (lookup_symbol m p a) = Some (label m p a)"
  by (rule lookup_symbol_name [OF assms]) (simp add: label_def Let_def assms(2) that)

text \<open>The return addresses on the frame-pointer chain from \<open>fp\<close>: a frame counts while its
  pointer lies strictly between the stack pointer and the top of the user stack, its return
  address is not null, and the chain goes on upwards.\<close>

function chain :: "memory \<Rightarrow> uint64 \<Rightarrow> uint64 \<Rightarrow> uint64 list" where
  "chain m sp fp =
     (if fp \<noteq> 0 \<and> sp < fp \<and> fp < USER_STACK \<and> sp < fp - 8 \<and> read64 m (fp - 8) \<noteq> 0 then
        read64 m (fp - 8) #
          (let old = read64 m (fp - 16)
           in if sp < fp - 16 \<and> fp < old \<and> old < USER_STACK then chain m sp old else [])
      else [])"
  by pat_completeness auto
termination
  by (relation "measure (\<lambda>(m, sp, fp). 2 ^ 64 - unat fp)")
    (auto simp: word_less_nat_alt intro!: diff_less_mono2 unat_bound64 [simplified])

declare chain.simps [simp del]

text \<open>The lines of a report of depth \<open>k\<close>: up to \<^verbatim>\<open>main\<close>, without the two library functions.\<close>

definition report :: "nat \<Rightarrow> string list \<Rightarrow> string list" where
  "report k names =
     take k (filter (\<lambda>n. n \<noteq> ''print_backtrace'' \<and> n \<noteq> ''do_user_call'')
       (takeWhile (\<lambda>n. n \<noteq> ''main'') names))"

lemma report_Nil [simp]: "report k [] = []"
  by (simp add: report_def)

lemma report_0 [simp]: "report 0 ns = []"
  by (simp add: report_def)

lemma report_Cons:
  "report (Suc k) (n # ns) =
     (if n = ''main'' then []
      else if n = ''print_backtrace'' \<or> n = ''do_user_call'' then report (Suc k) ns
      else n # report k ns)"
  by (simp add: report_def)

text \<open>One round of the loop, for a frame that is not \<^verbatim>\<open>main\<close>'s.\<close>

lemma print_frame_eq:
  fixes s p a
  assumes "fs_lock s = 0" and "tables_ok (mem s) p"
  defines "n \<equiv> label (mem s) p a"
  shows "print_frame E (lookup_symbol (mem s) p a) a s =
    (if n = ''print_backtrace'' \<or> n = ''do_user_call'' then Ret False s
     else Ret True (emit (n @ ''\<newline>'') s))"
proof (cases "lookup_symbol (mem s) p a = 0")
  case True
  have hex: "expand 256 0 False False ''0x%lx\<newline>'' [VaWord a] = Inr (n @ ''\<newline>'')"
    by (simp add: n_def label_def True)
  have "n \<noteq> ''print_backtrace'' \<and> n \<noteq> ''do_user_call''"
    by (simp add: n_def label_def True)
  then show ?thesis
    by (simp add: print_frame_def True con.print_then [OF assms(1) hex] ret_def)
next
  case False
  let ?q = "lookup_symbol (mem s) p a"
  obtain bs where bs: "cstr_at (mem s) ?q bs" "c_string (mem s) ?q = Some n"
    unfolding n_def by (rule lookup_label [OF assms(2) False])
  have str: "expand 256 0 False False ''%s\<newline>'' [VaStr n] = Inr (n @ ''\<newline>'')"
    by simp
  have cmp: "strcmp_lit (mem s) ?q (bytes_of ''print_backtrace'') = 0 \<longleftrightarrow> n = ''print_backtrace''"
    "strcmp_lit (mem s) ?q (bytes_of ''do_user_call'') = 0 \<longleftrightarrow> n = ''do_user_call''"
    by (rule strcmp_name [OF bs(2,1)]; simp)+
  show ?thesis
    by (simp add: print_frame_def False cmp with_string_def bs(2) con.print_then [OF assms(1) str] ret_def)
qed

lemma main_cmp:
  assumes "tables_ok m p"
  shows "lookup_symbol m p a \<noteq> 0 \<and> strcmp_lit m (lookup_symbol m p a) (bytes_of ''main'') = 0
    \<longleftrightarrow> label m p a = ''main''"
proof (cases "lookup_symbol m p a = 0")
  case True
  then show ?thesis by (simp add: label_def)
next
  case False
  obtain bs where bs: "cstr_at m (lookup_symbol m p a) bs"
    "c_string m (lookup_symbol m p a) = Some (label m p a)"
    by (rule lookup_label [OF assms False])
  show ?thesis
    using strcmp_name [OF bs(2,1), of "''main''"] False by simp
qed

definition backtrace_result :: "uint64 \<Rightarrow> string list \<Rightarrow> kstate \<Rightarrow> (kstate, uint64) outcome" where
  "backtrace_result count ls s = Ret (count + of_nat (length ls)) (fold emit (map (\<lambda>l. l @ ''\<newline>'') ls) s)"

lemma backtrace_result_Nil [simp]: "backtrace_result count [] s = Ret count s"
  by (simp add: backtrace_result_def)

lemma backtrace_result_Cons:
  "backtrace_result count (l # ls) s = backtrace_result (count + 1) ls (emit (l @ ''\<newline>'') s)"
  by (simp add: backtrace_result_def algebra_simps)

lemma backtrace_loop_eq:
  assumes "fs_lock s = 0" and "tables_ok (mem s) (current s)"
  shows "backtrace_loop E d sp fp count s =
    backtrace_result count
      (report (unat d - unat count) (map (label (mem s) (current s)) (chain (mem s) sp fp))) s"
  using assms
proof (induction E d sp fp count s rule: backtrace_loop.induct)
  case (1 E d sp fp count s)
  let ?m = "mem s" and ?p = "current s"
  let ?ret = "read64 ?m (fp - 8)" and ?old = "read64 ?m (fp - 16)"
  let ?n = "label ?m ?p ?ret"
  have find: "find_symbol_name ?m ?p ?ret = Some (lookup_symbol ?m ?p ?ret)"
    using "1.prems"(2) by (simp add: find_symbol_name_eq tables_ok_def)
  show ?case
  proof (cases "count < d")
    case False
    then have "unat d - unat count = 0"
      by (simp add: not_less word_le_nat_alt)
    moreover have "backtrace_loop E d sp fp count s = Ret count s"
      using False by (subst backtrace_loop.simps) simp
    ultimately show ?thesis by simp
  next
    case True
    then obtain k where k: "unat d - unat count = Suc k"
      by (metis word_less_nat_alt zero_less_diff gr0_conv_Suc)
    have "unat (count + 1) = Suc (unat count)"
      using True unat_add_small [of count 1] unat_bound64 [of d] by (simp add: word_less_nat_alt)
    then have k1: "unat d - unat (count + 1) = k"
      using k by simp
    let ?V = "fp \<noteq> 0 \<and> sp < fp \<and> fp < USER_STACK \<and> sp < fp - 8 \<and> ?ret \<noteq> 0"
    let ?more = "sp < fp - 16 \<and> fp < ?old \<and> ?old < USER_STACK"
    show ?thesis
    proof (cases "?V \<and> ?n \<noteq> ''main''")
      case False
      then have "report (Suc k) (map (label ?m ?p) (chain ?m sp fp)) = []"
        by (subst chain.simps) (auto simp: report_Cons)
      moreover have "backtrace_loop E d sp fp count s = Ret count s"
        using False main_cmp [OF "1.prems"(2), of ?ret]
        by (subst backtrace_loop.simps) (auto simp: find not_less not_le Let_def)
      ultimately show ?thesis by (simp add: k)
    next
      case V: True
      let ?hidden = "?n = ''print_backtrace'' \<or> ?n = ''do_user_call''"
      define c' where "c' = (if ?hidden then count else count + 1)"
      define s' where "s' = (if ?hidden then s else emit (?n @ ''\<newline>'') s)"
      define rest where "rest = (if ?more then chain ?m sp ?old else [])"
      have pf: "print_frame E (lookup_symbol ?m ?p ?ret) ?ret s = Ret (\<not> ?hidden) s'"
        using print_frame_eq [OF "1.prems", of E ?ret] by (simp add: s'_def)
      have s': "mem s' = ?m" "current s' = ?p" "fs_lock s' = 0"
        using "1.prems"(1) by (simp_all add: s'_def)
      have cond: "fp \<noteq> 0 \<and> count < d" "\<not> (fp \<le> sp \<or> USER_STACK \<le> fp)" "\<not> fp - 8 \<le> sp" "?ret \<noteq> 0"
        using V True by (auto simp: not_le)
      have main: "\<not> (lookup_symbol ?m ?p ?ret \<noteq> 0
          \<and> strcmp_lit ?m (lookup_symbol ?m ?p ?ret) (bytes_of ''main'') = 0)"
        using V main_cmp [OF "1.prems"(2), of ?ret] by blast
      have count': "(if \<not> ?hidden then count + 1 else count) = c'"
        by (simp add: c'_def)
      have "?old = 0 \<or> ?old \<le> fp \<or> USER_STACK \<le> ?old \<longleftrightarrow> \<not> (fp < ?old \<and> ?old < USER_STACK)"
        by (auto simp: not_less)
      then have loop: "backtrace_loop E d sp fp count s =
          (if ?more then backtrace_loop E d sp ?old c' s' else Ret c' s')"
        by (subst backtrace_loop.simps)
          (simp only: cond main find pf s' count' option.case outcome.case if_True if_False Let_def
            not_not, auto simp: not_less not_le)
      have tail: "(if ?more then backtrace_loop E d sp ?old c' s' else Ret c' s') =
          backtrace_result c' (report (unat d - unat c') (map (label ?m ?p) rest)) s'"
      proof (cases ?more)
        case False
        then show ?thesis
          by (simp only: rest_def False if_False list.map report_Nil backtrace_result_Nil)
      next
        case True
        have a: "\<not> fp - 16 \<le> sp" "\<not> (?old = 0 \<or> ?old \<le> fp \<or> USER_STACK \<le> ?old)"
          using True by (auto simp: not_le)
        have "backtrace_loop E d sp ?old c' s' = backtrace_result c'
            (report (unat d - unat c') (map (label ?m ?p) (chain ?m sp ?old))) s'"
          using "1.IH" [OF cond(1-3) refl cond(4) find main pf refl a(1) refl] a(2) s' "1.prems"(2)
          by (simp add: count' [simplified])
        with True show ?thesis by (simp add: rest_def)
      qed
      have lines: "chain ?m sp fp = ?ret # rest"
        using V by (subst chain.simps) (auto simp: rest_def Let_def)
      show ?thesis
        unfolding loop tail lines k using V k k1
        by (auto simp: report_Cons c'_def s'_def backtrace_result_Cons)
    qed
  qed
qed

text \<open>The frame from which the walk starts: the caller of the library's system call stub.\<close>

definition backtrace_start :: "kstate \<Rightarrow> uint64 option" where
  "backtrace_start s =
     (let tf = tf_of (mem s) (current s); sp = tf_reg (mem s) tf Sp; fp = tf_reg (mem s) tf S0;
          up = read64 (mem s) (fp - 8)
      in if sp < fp \<and> fp < USER_STACK \<and> sp < fp - 8 \<and> fp < up \<and> up < USER_STACK then Some up else None)"

text \<open>What a backtrace of depth \<open>k\<close> shows.\<close>

definition backtrace_lines :: "nat \<Rightarrow> kstate \<Rightarrow> string list" where
  "backtrace_lines k s =
     (case backtrace_start s of
        None \<Rightarrow> []
      | Some fp \<Rightarrow> report k (map (label (mem s) (current s))
          (chain (mem s) (tf_reg (mem s) (tf_of (mem s) (current s)) Sp) fp)))"

lemma sys_user_backtrace_eq:
  assumes "fs_lock s = 0" and "tables_ok (mem s) (current s)"
  shows "sys_user_backtrace E d s = backtrace_result 0 (backtrace_lines (unat d) s) s"
proof (cases "d = 0")
  case True
  then show ?thesis
    by (simp add: sys_user_backtrace_def backtrace_lines_def split: option.split)
next
  case False
  let ?tf = "tf_of (mem s) (current s)"
  let ?sp = "tf_reg (mem s) ?tf Sp" and ?fp = "tf_reg (mem s) ?tf S0"
  let ?up = "read64 (mem s) (?fp - 8)"
  show ?thesis
  proof (cases "?sp < ?fp \<and> ?fp < USER_STACK \<and> ?sp < ?fp - 8 \<and> ?fp < ?up \<and> ?up < USER_STACK")
    case True
    then have c: "\<not> (?fp = 0 \<or> ?fp \<le> ?sp \<or> USER_STACK \<le> ?fp)" "\<not> ?fp - 8 \<le> ?sp"
      "\<not> (?up = 0 \<or> ?up \<le> ?fp \<or> USER_STACK \<le> ?up)"
      by (auto simp: not_le)
    have "sys_user_backtrace E d s = backtrace_loop E d ?sp ?up 0 s"
      unfolding sys_user_backtrace_def Let_def tf_of_def [symmetric]
      by (simp only: False c if_False)
    moreover have "backtrace_start s = Some ?up"
      using True by (simp add: backtrace_start_def Let_def)
    ultimately show ?thesis
      by (simp add: backtrace_lines_def backtrace_loop_eq [OF assms])
  next
    case invalid: False
    then have "sys_user_backtrace E d s = Ret 0 s"
      by (auto simp: sys_user_backtrace_def Let_def not_le not_less simp flip: tf_of_def)
    moreover have "backtrace_lines (unat d) s = []"
      unfolding backtrace_lines_def backtrace_start_def Let_def
      by (simp only: invalid if_False option.case)
    ultimately show ?thesis by simp
  qed
qed

subsection \<open>Correctness of the system calls\<close>

text \<open>
  C8.  \<^verbatim>\<open>find_symbol_name\<close> ends and returns the name of the first function symbol whose range (of
  at least four bytes) holds the address and whose name lies in the string table, or a null
  pointer when there is none.
\<close>

theorem find_symbol_correct:
  assumes "symtab_ok m p"
  shows "find_symbol_name m p vaddr =
    Some (case find (covers (read64 m (p + p_strtab_sz)) vaddr) (symbols m p) of
            None \<Rightarrow> 0
          | Some e \<Rightarrow> p + p_strtab + ucast (st_name e))"
  using find_symbol_name_eq [OF assms] by (simp add: lookup_symbol_def)

text \<open>
  C3.  \<^verbatim>\<open>sys_user_backtrace(depth)\<close> implements its specification: it returns, and prints one line
  for each return address on the frame-pointer chain, from the caller of the library stub
  outwards, up to but without \<^verbatim>\<open>main\<close> and without the library's own functions, at most
  \<open>depth\<close> lines; a line is the name of the function, or the address where no symbol covers it.
  The result is the number of lines, and nothing but the console changes.
\<close>

theorem backtrace_correct:
  assumes "fs_lock s = 0" and "tables_ok (mem s) (current s)"
  shows "\<exists>t. sys_user_backtrace E depth s = Ret (of_nat (length (backtrace_lines (unat depth) s))) t
    \<and> console t = console s @ concat (map (\<lambda>l. clip (l @ ''\<newline>'')) (backtrace_lines (unat depth) s))
    \<and> t = s\<lparr>trace := trace t\<rparr> \<and> length (backtrace_lines (unat depth) s) \<le> unat depth"
proof -
  let ?ls = "backtrace_lines (unat depth) s"
  let ?t = "fold emit (map (\<lambda>l. l @ ''\<newline>'') ?ls) s"
  have "length ?ls \<le> unat depth"
    by (simp add: backtrace_lines_def report_def split: option.split)
  moreover have "?t = s\<lparr>trace := trace ?t\<rparr>"
    by (simp add: emits_eq)
  ultimately show ?thesis
    using sys_user_backtrace_eq [OF assms, of E depth] con.outs_shown [of "map (\<lambda>l. l @ ''\<newline>'') ?ls" s]
    by (intro exI [of _ ?t]) (simp add: backtrace_result_def comp_def)
qed

text \<open>A process with one symbol and two frames, for the instance: \<^verbatim>\<open>f8\<close> covers
  \<^verbatim>\<open>0x81500000\<close> to \<^verbatim>\<open>0x8150003f\<close>.\<close>

definition sample_symbols :: memory where
  "sample_symbols =
     write_bytes (write_bytes
      (write64 (write64 (write64 (write64 (write64 (write64 (write64 (write64 (write64 (write64 (write64 (write64
        sample_process
        0x80020000 0x81200000) 0x813000f8 0x81200000) 0x81300100 0x80000200)
        0x80020018 0x81500000) 0x80020020 0x40)
        0x80023010 1) 0x80025018 3)
        0x81300008 0x81000000) 0x81300038 0x81000100)
        0x810000f8 0x81000200) 0x810001f8 0x81500010) 0x810001f0 0)
      0x80020010 [0, 0, 0, 0, 2, 0, 0, 0])
      0x80023018 [102, 56, 0]"

lemma sample_reads:
  "read64 sample_symbols 0x80020018 = 0x81500000" "read64 sample_symbols 0x80020020 = 0x40"
  "read64 sample_symbols 0x80023010 = 1" "read64 sample_symbols 0x80025018 = 3"
  "read64 sample_symbols 0x80020008 = 0x81300000"
  "read64 sample_symbols 0x81300008 = 0x81000000" "read64 sample_symbols 0x81300038 = 0x81000100"
  "read64 sample_symbols 0x810000f8 = 0x81000200" "read64 sample_symbols 0x810001f8 = 0x81500010"
  "read64 sample_symbols 0x810001f0 = 0" "read64 sample_symbols 0x80020000 = 0x81200000"
  "read64 sample_symbols 0x813000f8 = 0x81200000" "read64 sample_symbols 0x81300100 = 0x80000200"
  by (simp_all add: sample_symbols_def sample_process_def mem_simps apart_def)

lemma sample_bytes:
  "sample_symbols 0x80020010 = 0" "sample_symbols 0x80020011 = 0" "sample_symbols 0x80020012 = 0"
  "sample_symbols 0x80020013 = 0" "sample_symbols 0x80020014 = 2"
  "sample_symbols 0x80023018 = 102" "sample_symbols 0x80023019 = 56" "sample_symbols 0x8002301a = 0"
  by (simp_all add: sample_symbols_def write_bytes_def)

lemma sample_symbol: "st_name (read_symbol sample_symbols 0x80020010) = 0" 
  "symbols sample_symbols 0x80020000 = [read_symbol sample_symbols 0x80020010]"
  "covers 3 0x81500010 (read_symbol sample_symbols 0x80020010)"
proof -
  have "read32 sample_symbols 0x80020010 = 0" 
    by (simp add: read32_def read_bytes_Suc numeral_eq_Suc sample_bytes)
  then show "st_name (read_symbol sample_symbols 0x80020010) = 0" 
    "covers 3 0x81500010 (read_symbol sample_symbols 0x80020010)"
    by (simp_all add: covers_def read_symbol_def sample_reads sample_bytes ELF64_ST_TYPE_def const_defs)
  show "symbols sample_symbols 0x80020000 = [read_symbol sample_symbols 0x80020010]"
    by (simp add: symbols_def const_defs sample_reads)
qed

lemma sample_tables: "tables_ok sample_symbols 0x80020000"
  by (simp add: tables_ok_def symtab_ok_def const_defs sample_reads sample_bytes)

lemma sample_label: "label sample_symbols 0x80020000 0x81500010 = ''f8''"
proof -
  have "cstr_at sample_symbols 0x80023018 [102, 56]"
    by (simp add: sample_bytes)
  moreover have "map char_of_byte [102, 56] = ''f8''"
    by (simp add: char_of_byte_def char_of_def bit_0)
  ultimately show ?thesis
    using c_string_cstr [of sample_symbols "0x80023018" "[102, 56]"]
    by (simp add: label_def lookup_symbol_def sample_symbol sample_reads const_defs)
qed

lemma sample_chain: "chain sample_symbols 0x81000000 0x81000200 = [0x81500010]"
  by (simp add: chain.simps [of _ _ "0x81000200"] const_defs sample_reads Let_def)

lemma sample_backtrace:
  "backtrace_lines 8 (sample_state\<lparr>mem := sample_symbols, current := 0x80020000\<rparr>) = [''f8'']"
  by (simp add: backtrace_lines_def backtrace_start_def Let_def tf_of_def tf_reg_def const_defs
      sample_reads sample_chain sample_label report_def)

theorem find_symbol_correct_witness:
  "find_symbol_name sample_symbols 0x80020000 0x81500010 = Some 0x80023018"
  using find_symbol_correct [of sample_symbols "0x80020000" "0x81500010"] sample_tables
  by (simp add: tables_ok_def sample_symbol sample_reads const_defs)

theorem backtrace_correct_witness:
  "\<exists>t. sys_user_backtrace sample_env 8 (sample_state\<lparr>mem := sample_symbols, current := 0x80020000\<rparr>) = Ret 1 t
    \<and> console t = ''f8'' @ [CHR 0x0A]"
  using backtrace_correct [of "sample_state\<lparr>mem := sample_symbols, current := 0x80020000\<rparr>" sample_env 8]
    sample_tables sample_backtrace
  by auto

text \<open>A user buffer is a format string without arguments.\<close>

lemma sys_user_print_expand:
  assumes "fs_lock s = 0" and "c_string (mem s) buf = Some t"
  shows "sys_user_print E buf n s = (case expand 256 0 False False t [] of Inl u \<Rightarrow> Undef u | Inr e \<Rightarrow> Ret 0 (emit e s))"
  using assms con.print_ok [OF assms(1), of t "[]"] con.print_bad [of t "[]"]
  by (simp add: sys_user_print_def with_string_def outcome_defs split: sum.split)

lemma c_string_bytes_of: "cstr_at m buf (bytes_of t) \<Longrightarrow> c_string m buf = Some t"
  by (drule c_string_cstr) (simp add: bytes_of_def comp_def)

text \<open>
  C11.  \<^verbatim>\<open>sys_user_print(buf, n)\<close> uses the terminated text at \<^verbatim>\<open>buf\<close> as a format string without arguments, whatever \<^verbatim>\<open>n\<close>
  is: a text without percent sign is put on the console as it is and the result is 0; the first conversion of a text, wherever it
  stands, takes an argument that was never passed, which is undefined behaviour (\<^verbatim>\<open>%c\<close> only where the output is not
  full yet); a percent sign with no conversion after it, and all that follows it, is left out.  Without a terminator in memory the call never returns.
\<close>

theorem sys_user_print_correct:
  assumes "fs_lock s = 0"
  shows "(cstr_at (mem s) buf (bytes_of t) \<longrightarrow>
      (case expand 256 0 False False t [] of
         Inl u \<Rightarrow> sys_user_print E buf n s = Undef u
       | Inr e \<Rightarrow> \<exists>s'. sys_user_print E buf n s = Ret 0 s' \<and> console s' = console s @ clip e \<and> mem s' = mem s)
      \<and> (CHR ''%'' \<notin> set t \<longrightarrow>
          (\<exists>s'. sys_user_print E buf n s = Ret 0 s' \<and> console s' = console s @ clip t \<and> mem s' = mem s))
      \<and> (t = a @ ''%'' @ spec @ c # b \<and> CHR ''%'' \<notin> set a \<and> no_conversion spec \<and> conversion c
          \<and> (c = CHR ''c'' \<longrightarrow> length a < 255) \<longrightarrow> sys_user_print E buf n s = Undef VaArgs)
      \<and> (t = a @ ''%'' @ spec \<and> CHR ''%'' \<notin> set a \<and> no_conversion spec \<longrightarrow>
          (\<exists>s'. sys_user_print E buf n s = Ret 0 s' \<and> console s' = console s @ clip a \<and> mem s' = mem s)))
    \<and> (c_string (mem s) buf = None \<longrightarrow> sys_user_print E buf n s = Diverge)"
proof (intro conjI impI)
  show "sys_user_print E buf n s = Diverge" if "c_string (mem s) buf = None"
    using that by (simp add: sys_user_print_def with_string_def seq_def)
  assume "cstr_at (mem s) buf (bytes_of t)"
  note eq = sys_user_print_expand [OF assms c_string_bytes_of [OF this], of E n]
  show "case expand 256 0 False False t [] of
      Inl u \<Rightarrow> sys_user_print E buf n s = Undef u
    | Inr e \<Rightarrow> \<exists>s'. sys_user_print E buf n s = Ret 0 s' \<and> console s' = console s @ clip e \<and> mem s' = mem s"
    unfolding eq by (simp split: sum.split)
  show "\<exists>s'. sys_user_print E buf n s = Ret 0 s' \<and> console s' = console s @ clip t \<and> mem s' = mem s"
    if "CHR ''%'' \<notin> set t"
    unfolding eq using that by (simp add: expand_literal)
  show "sys_user_print E buf n s = Undef VaArgs"
    if "t = a @ ''%'' @ spec @ c # b \<and> CHR ''%'' \<notin> set a \<and> no_conversion spec \<and> conversion c
      \<and> (c = CHR ''c'' \<longrightarrow> length a < 255)"
    unfolding eq using that expand_first_conversion [of a spec c 0 256 False b] by simp
  show "\<exists>s'. sys_user_print E buf n s = Ret 0 s' \<and> console s' = console s @ clip a \<and> mem s' = mem s"
    if "t = a @ ''%'' @ spec \<and> CHR ''%'' \<notin> set a \<and> no_conversion spec"
    unfolding eq using that expand_spec [of spec 256 "length a" False "[]" "[]"] by (simp add: expand_literal_append)
qed

theorem sys_user_print_correct_witness:
  "\<exists>s'. sys_user_print sample_env 0x80023018 99 (sample_state\<lparr>mem := sample_symbols\<rparr>) = Ret 0 s'
    \<and> console s' = ''f8'' \<and> mem s' = sample_symbols"
  using sys_user_print_correct [of "sample_state\<lparr>mem := sample_symbols\<rparr>" "0x80023018" "''f8''" sample_env 99]
  by (simp add: bytes_of_def byte_of_def sample_bytes)

text \<open>An exit prints the code and stops the machine with it.\<close>

lemma sys_user_exit_eq:
  assumes "fs_lock s = 0"
  shows "sys_user_exit E code s = Halt (Exit (ucast code)) (halted E (ucast code)
    (emit (''User exit with code:'' @ expand_d (scast (ucast code :: int32)) @ ''.\<newline>'') s))"
proof -
  have e: "expand 256 0 False False ''User exit with code:%d.\<newline>'' [VaWord code] =
      Inr (''User exit with code:'' @ expand_d (scast (ucast code :: int32)) @ ''.\<newline>'')"
    by simp
  show ?thesis
    using assms by (simp add: sys_user_exit_def con.print_then [OF assms e] shutdown_eq)
qed

lemma unknown_syscall_halts:
  assumes "fs_lock s = 0" and "a0 \<notin> {64, 65, 66}"
  shows "do_syscall E a0 a1 a2 a3 a4 a5 a6 a7 s = Halt (Exit (- 1))
    (halted E (- 1) (emit (''Unknown syscall '' @ expand_d (va_area E) @ '' \<newline>\<newline>'') s))"
proof -
  have e: "expand 256 0 False False ((''Unknown syscall %ld '' @ ''\<newline>'') @ ''\<newline>'') [VaWord (va_area E)]
      = Inr (''Unknown syscall '' @ expand_d (va_area E) @ '' \<newline>\<newline>'')"
    by simp
  have "(panic E (''Unknown syscall %ld '' @ ''\<newline>'') [VaWord a0] :: int64 op) s =
      Halt (Exit (- 1)) (halted E (- 1) (emit (''Unknown syscall '' @ expand_d (va_area E) @ '' \<newline>\<newline>'') s))"
    using assms(1) by (simp only: panic_def do_panic_def con.print_then [OF assms(1) e]) (simp add: shutdown_eq)
  then show ?thesis
    using assms(2) by (simp add: do_syscall_def const_defs)
qed

text \<open>
  C10.  The dispatcher: number 64 prints, 65 stops the machine with the user's exit code after
  the exit message, 66 is the backtrace, and any other number stops the machine with
  exit code -1.
\<close>

theorem do_syscall_correct:
  assumes "fs_lock s = 0"
  shows "do_syscall E 64 a1 a2 a3 a4 a5 a6 a7 s = sys_user_print E a1 a2 s
    \<and> do_syscall E 66 a1 a2 a3 a4 a5 a6 a7 s = sys_user_backtrace E a1 s
    \<and> (\<exists>t. do_syscall E 65 a1 a2 a3 a4 a5 a6 a7 s = Halt (Exit (ucast a1)) t
         \<and> console t = console s
             @ clip (''User exit with code:'' @ expand_d (scast (ucast a1 :: int32)) @ ''.\<newline>'')
             @ clip (shutdown_message (ucast a1)))
    \<and> (a0 \<notin> {64, 65, 66} \<longrightarrow> (\<exists>t. do_syscall E a0 a1 a2 a3 a4 a5 a6 a7 s = Halt (Exit (- 1)) t))"
  using assms by (simp add: unknown_syscall_halts) (simp add: do_syscall_def const_defs sys_user_exit_eq console_halted)

theorem do_syscall_correct_witness:
  "\<exists>t. do_syscall sample_env 70 0 0 0 0 0 0 0 sample_state = Halt (Exit (- 1)) t"
  using do_syscall_correct [of sample_state sample_env 0 0 0 0 0 0 0 70] by simp

subsection \<open>What a backtrace reads\<close>

text \<open>Two memories that agree on the \<open>n\<close> bytes from \<open>a\<close>.\<close>

definition agree :: "uint64 \<Rightarrow> nat \<Rightarrow> memory \<Rightarrow> memory \<Rightarrow> bool" where
  "agree a n m m' \<longleftrightarrow> (\<forall>i<n. m' (a + of_nat i) = m (a + of_nat i))"

lemma agree_byte: "agree a n m m' \<Longrightarrow> unat j < n \<Longrightarrow> m' (a + j) = m (a + j)"
  unfolding agree_def by (metis of_nat_unat_eq)

lemma agree_read_bytes:
  assumes "agree a n m m'" and "unat j + k \<le> n"
  shows "read_bytes m' (a + j) k = read_bytes m (a + j) k"
proof (rule nth_equalityI; simp)
  fix i
  assume "i < k"
  then have "m' (a + of_nat (unat j + i)) = m (a + of_nat (unat j + i))"
    using assms unfolding agree_def by (metis add_less_cancel_left less_le_trans)
  then show "m' (a + j + of_nat i) = m (a + j + of_nat i)"
    by (simp add: add.assoc)
qed

lemma agree_read64: "agree a n m m' \<Longrightarrow> unat j + 8 \<le> n \<Longrightarrow> read64 m' (a + j) = read64 m (a + j)"
  by (simp add: read64_def agree_read_bytes)

lemma agree_symbol:
  assumes "agree p n m m'" and "unat j + 24 \<le> n"
  shows "read_symbol m' (p + j) = read_symbol m (p + j)"
proof -
  have "read_bytes m' (p + j) 24 = read_bytes m (p + j) 24"
    using assms by (rule agree_read_bytes)
  then have sub: "agree (p + j) 24 m m'"
    unfolding agree_def by (metis nth_read_bytes)
  show ?thesis
    using agree_read_bytes [OF sub, of 0 4] agree_read_bytes [OF sub, of 6 2] agree_read64 [OF sub, of 8]
      agree_read64 [OF sub, of 16] agree_byte [OF sub, of 4] agree_byte [OF sub, of 5]
    by (simp add: read_symbol_def read32_def read16_def)
qed

lemma agree_lookup:
  assumes "agree p 20512 m m'" and "symtab_ok m p"
  shows "lookup_symbol m' p a = lookup_symbol m p a"
proof -
  have n: "unat (read64 m (p + p_sym_count)) \<le> 512"
    using assms(2) by (simp add: symtab_ok_def word_le_nat_alt)
  have counts: "read64 m' (p + p_sym_count) = read64 m (p + p_sym_count)"
    "read64 m' (p + p_strtab_sz) = read64 m (p + p_strtab_sz)"
    by (rule agree_read64 [OF assms(1)]; simp)+
  have "read_symbol m' (p + p_symtab + of_nat (24 * i)) = read_symbol m (p + p_symtab + of_nat (24 * i))"
    if "i < unat (read64 m (p + p_sym_count))" for i
  proof -
    have "unat (p_symtab + of_nat (24 * i)) = 16 + 24 * i"
      using that n unat_add_small [of p_symtab "24 * i"] by simp
    then show ?thesis
      using agree_symbol [OF assms(1), of "p_symtab + of_nat (24 * i)"] that n
      by (simp add: add.assoc)
  qed
  then have "symbols m' p = symbols m p"
    by (simp add: symbols_def counts)
  then show ?thesis
    by (simp add: lookup_symbol_def counts)
qed

lemma agree_label:
  assumes "agree p 20512 m m'" and "tables_ok m p" and "read64 m (p + p_strtab_sz) \<le> 8192"
  shows "label m' p a = label m p a"
proof (cases "lookup_symbol m p a = 0")
  case True
  then show ?thesis
    using agree_lookup [OF assms(1), of a] assms(2) by (simp add: label_def tables_ok_def)
next
  case False
  let ?q = "lookup_symbol m p a"
  obtain bs off where q: "?q = p + p_strtab + off"
    and len: "unat off + length bs < unat (read64 m (p + p_strtab_sz))"
    and str: "cstr_at m ?q bs"
    using lookup_symbol_string [OF assms(2) False] by metis
  have bound: "unat off + length bs < 8192"
    using len assms(3) by (simp add: word_le_nat_alt)
  have "m' (?q + of_nat i) = m (?q + of_nat i)" if "i \<le> length bs" for i
  proof -
    have "unat (off + of_nat i) = unat off + i"
      using bound that by (intro unat_add_small) simp
    then have "unat (p_strtab + (off + of_nat i)) = 12312 + (unat off + i)"
      using bound that unat_add_small [of p_strtab "unat (off + of_nat i)"] by simp
    then have "m' (p + (p_strtab + (off + of_nat i))) = m (p + (p_strtab + (off + of_nat i)))"
      using bound that by (intro agree_byte [OF assms(1)]) simp
    then show ?thesis by (simp add: q add.assoc)
  qed
  then have "cstr_at m' ?q bs"
    using cstr_at_cong [of bs m' ?q m] str by blast
  with str have "c_string m' ?q = c_string m ?q"
    by (simp only: c_string_cstr)
  then show ?thesis
    using agree_lookup [OF assms(1), of a] assms(2) by (simp add: label_def tables_ok_def Let_def)
qed

text \<open>The walk reads only between the stack pointer and the top of the user stack.\<close>

definition stack_agree :: "uint64 \<Rightarrow> memory \<Rightarrow> memory \<Rightarrow> bool" where
  "stack_agree sp m m' \<longleftrightarrow> (\<forall>x. sp < x \<and> x < USER_STACK \<longrightarrow> m' x = m x)"

lemma stack_agree_read64:
  assumes "stack_agree sp m m'" and "16 \<le> sp" and "sp < fp" and "fp < USER_STACK"
    and "k = 8 \<or> k = 16" and "sp < fp - k"
  shows "read64 m' (fp - k) = read64 m (fp - k)"
proof -
  have fp: "unat (fp - k) = unat fp - unat k"
    using assms(2,3,5) by (intro unat_sub_le_word) (auto simp: word_le_nat_alt word_less_nat_alt)
  have k: "8 \<le> unat k" "unat k < unat fp"
    using assms(2,3,5) by (auto simp: word_le_nat_alt word_less_nat_alt)
  have "m' (fp - k + of_nat i) = m (fp - k + of_nat i)" if "i < 8" for i
  proof -
    have "unat (fp - k + of_nat i) = unat fp - unat k + i"
      using that k fp unat_add_small [of "fp - k" i] unat_bound64 [of fp] by simp
    then have "sp < fp - k + of_nat i \<and> fp - k + of_nat i < USER_STACK"
      using that k assms(4,6) fp unfolding word_less_nat_alt by linarith
    with assms(1) show ?thesis by (simp add: stack_agree_def)
  qed
  then have "read_bytes m' (fp - k) 8 = read_bytes m (fp - k) 8"
    by (intro nth_equalityI) simp_all
  then show ?thesis by (simp add: read64_def)
qed

lemma stack_agree_chain:
  assumes "stack_agree sp m m'" and "16 \<le> sp"
  shows "chain m' sp fp = chain m sp fp"
proof (induction fp rule: measure_induct_rule [where f = "\<lambda>fp. 2 ^ 64 - unat fp"])
  case (less fp)
  note rd = stack_agree_read64 [OF assms, of fp]
  show ?case
  proof (cases "fp \<noteq> 0 \<and> sp < fp \<and> fp < USER_STACK \<and> sp < fp - 8 \<and> read64 m (fp - 8) \<noteq> 0")
    case False
    then have "\<not> (fp \<noteq> 0 \<and> sp < fp \<and> fp < USER_STACK \<and> sp < fp - 8 \<and> read64 m' (fp - 8) \<noteq> 0)"
      using rd [of 8] by auto
    with False have "chain m' sp fp = []" "chain m sp fp = []"
      by (subst chain.simps; simp only: if_False)+
    then show ?thesis by simp
  next
    case True
    let ?old = "read64 m (fp - 16)"
    have r8: "read64 m' (fp - 8) = read64 m (fp - 8)"
      using True rd [of 8] by auto
    have r16: "sp < fp - 16 \<Longrightarrow> read64 m' (fp - 16) = ?old"
      using True rd [of 16] by auto
    have IH: "fp < ?old \<Longrightarrow> chain m' sp ?old = chain m sp ?old"
      using unat_bound64 [of ?old] by (intro less) (simp add: word_less_nat_alt)
    have "chain m' sp fp = read64 m (fp - 8) #
        (if sp < fp - 16 \<and> fp < ?old \<and> ?old < USER_STACK then chain m' sp ?old else [])"
      using True r8 r16 by (subst chain.simps) (auto simp: Let_def)
    moreover have "chain m sp fp = read64 m (fp - 8) #
        (if sp < fp - 16 \<and> fp < ?old \<and> ?old < USER_STACK then chain m sp ?old else [])"
      using True by (subst chain.simps) (auto simp: Let_def)
    ultimately show ?thesis
      using IH by auto
  qed
qed

lemma agree_tables:
  assumes "agree p 20512 m m'" and "tables_ok m p" and "read64 m (p + p_strtab_sz) \<le> 8192"
  shows "tables_ok m' p"
proof -
  let ?sz = "read64 m (p + p_strtab_sz)"
  have counts: "read64 m' (p + p_sym_count) = read64 m (p + p_sym_count)"
    "read64 m' (p + p_strtab_sz) = ?sz"
    by (rule agree_read64 [OF assms(1)]; simp)+
  have "m' (p + p_strtab + (?sz - 1)) = m (p + p_strtab + (?sz - 1))" if "?sz \<noteq> 0"
  proof -
    have sz: "unat (?sz - 1) < 8192"
      using that assms(3) by (simp add: unat_minus_one word_le_nat_alt)
    then have "unat (p_strtab + (?sz - 1)) = 12312 + unat (?sz - 1)"
      using unat_add_small [of p_strtab "unat (?sz - 1)"] by simp
    then have "m' (p + (p_strtab + (?sz - 1))) = m (p + (p_strtab + (?sz - 1)))"
      using sz by (intro agree_byte [OF assms(1)]) simp
    then show ?thesis by (simp add: add.assoc)
  qed
  with assms(2) counts show ?thesis
    by (auto simp: tables_ok_def symtab_ok_def Let_def)
qed

text \<open>
  C7.  A backtrace shows nothing but the stack: what it prints is determined by the process
  structure, the trap frame and the bytes of the user stack above the saved stack pointer.
  Memory that differs anywhere else, the kernel's included, gives the same report.
\<close>

theorem backtrace_confined:
  fixes s m'
  defines "p \<equiv> current s" and "tf \<equiv> tf_of (mem s) (current s)"
  assumes "fs_lock s = 0" and "tables_ok (mem s) p" and "read64 (mem s) (p + p_strtab_sz) \<le> 8192"
    and "16 \<le> tf_reg (mem s) tf Sp"
    and "agree p 20512 (mem s) m'" and "agree tf 272 (mem s) m'"
    and "stack_agree (tf_reg (mem s) tf Sp) (mem s) m'"
  shows "\<exists>c t t'. sys_user_backtrace E d s = Ret c t \<and> sys_user_backtrace E d (s\<lparr>mem := m'\<rparr>) = Ret c t'
    \<and> console t = console t'"
proof -
  let ?s = "s\<lparr>mem := m'\<rparr>"
  have tf: "tf_of m' p = tf"
    using agree_read64 [OF assms(7), of p_trapframe] by (simp add: tf_of_def tf_def p_def)
  have regs: "tf_reg m' tf r = tf_reg (mem s) tf r" for r
    unfolding tf_reg_def
    by (rule agree_read64 [OF assms(8)]) (cases r; simp)
  have tables: "tables_ok m' p"
    by (rule agree_tables [OF assms(7,4,5)])
  have start: "backtrace_start ?s = backtrace_start s"
    using stack_agree_read64 [OF assms(9,6), of "tf_reg (mem s) tf S0" 8]
    unfolding backtrace_start_def Let_def by (auto simp: tf [unfolded p_def] regs simp flip: tf_def)
  have lab: "label m' (current s) = label (mem s) (current s)"
    using agree_label [OF assms(7,4,5)] by (auto simp: p_def)
  have "backtrace_lines (unat d) ?s = backtrace_lines (unat d) s"
    unfolding backtrace_lines_def start
    by (simp add: tf [unfolded p_def] regs lab stack_agree_chain [OF assms(9,6)] split: option.split
        flip: tf_def)
  then show ?thesis
    using sys_user_backtrace_eq [of s E d] sys_user_backtrace_eq [of ?s E d] tables assms(3,4)
      con.outs_shown
    by (simp add: backtrace_result_def p_def)
qed

theorem backtrace_confined_witness:
  "\<exists>c t t'. sys_user_backtrace sample_env 8 (sample_state\<lparr>current := 0x80020000, mem := sample_symbols\<rparr>) = Ret c t
    \<and> sys_user_backtrace sample_env 8
        (sample_state\<lparr>current := 0x80020000, mem := sample_symbols(0x90000000 := 1)\<rparr>) = Ret c t'
    \<and> console t = console t'"
proof -
  let ?s = "sample_state\<lparr>current := 0x80020000, mem := sample_symbols\<rparr>"
  let ?m = "sample_symbols(0x90000000 := 1)"
  have tf: "tf_of sample_symbols 0x80020000 = 0x81300000"
    by (simp add: tf_of_def const_defs sample_reads)
  have out: "agree a n sample_symbols ?m" if "unat a + n \<le> 0x90000000" for a n
    unfolding agree_def
  proof (intro allI impI)
    fix i
    assume "i < n"
    then have "unat (a + of_nat i) < 0x90000000"
      using that unat_add_small [of a i] by simp
    then have "a + of_nat i \<noteq> 0x90000000" by auto
    then show "?m (a + of_nat i) = sample_symbols (a + of_nat i)" by simp
  qed
  have "stack_agree 0x81000000 sample_symbols ?m"
    by (simp add: stack_agree_def USER_STACK_def)
  then show ?thesis
    using backtrace_confined [of ?s ?m sample_env 8] sample_tables tf out
    by (simp add: tf_reg_def sample_reads p_strtab_sz_def)
qed

end
