(* ===== verification/Strap.thy ===== *)
theory Strap
  imports Syscall
begin

text \<open>
  Trap handling in supervisor mode (\<^verbatim>\<open>kernel/strap.c\<close>), and what a trap means to the process: the
  way from user mode through \<^verbatim>\<open>smode_trap_vector\<close>, the handler and \<^verbatim>\<open>switch_to\<close> back to user mode.
\<close>

subsection \<open>The handlers\<close>

definition handle_syscall :: "env \<Rightarrow> uint64 \<Rightarrow> unit op" where
  "handle_syscall E tf s =
     (let s1 = s\<lparr>mem := write64 (mem s) (tf + tf_epc) (read64 (mem s) (tf + tf_epc) + 4)\<rparr>;
          a = tf_reg (mem s1) tf
      in and_then (do_syscall E (a A0) (a A1) (a A2) (a A3) (a A4) (a A5) (a A6) (a A7))
           (\<lambda>ret_val s2. Ret () (s2\<lparr>mem := write64 (mem s2) (tf + reg_off A0) ret_val\<rparr>)) s1)"

definition handle_mtimer_trap :: "env \<Rightarrow> unit op" where
  "handle_mtimer_trap E s =
     seq (sprint E ''Ticks %d\<newline>'' [VaWord (g_ticks s)])
       (\<lambda>s1. Ret () (s1\<lparr>g_ticks := g_ticks s1 + 1,
          csr := write_sip (read_sip (csr s1) AND NOT SIP_SSIP) (csr s1)\<rparr>)) s"

definition smode_dispatch :: "env \<Rightarrow> unit op" where
  "smode_dispatch E s =
     (let cause = scause (csr s) in
      if cause = CAUSE_USER_ECALL then
        handle_syscall E (read64 (mem s) (current s + p_trapframe)) s
      else if cause = CAUSE_MTIMER_S_TRAP then handle_mtimer_trap E s
      else
        seq (sprint E ''smode_trap_handler(): unexpected scause %p\<newline>'' [VaWord (scause (csr s))])
          (seq (sprint E ''            sepc=%p stval=%p\<newline>'' [VaWord (sepc (csr s)), VaWord (stval (csr s))])
            (panic E (''unexpected exception happened.'' @ ''\<newline>'') [])) s)"

definition smode_trap_handler :: "env \<Rightarrow> unit op" where
  "smode_trap_handler E s =
     (if read_sstatus (csr s) AND SSTATUS_SPP \<noteq> 0 then panic E ''usertrap: not from user mode'' [] s
      else
        seq (assert E (current s \<noteq> 0) ''kernel/strap.c'' 60 ''current'')
          (\<lambda>s1.
            let s2 = s1\<lparr>mem := write64 (mem s1) (read64 (mem s1) (current s1 + p_trapframe) + tf_epc)
                        (sepc (csr s1))\<rparr>
            in seq (smode_dispatch E) (\<lambda>s3. switch_to E (current s3) s3) s2) s)"

subsection \<open>From a trap back to the process\<close>

text \<open>The handler's state when it has saved the program counter.\<close>

definition handler_ready :: "uint64 \<Rightarrow> uint64 \<Rightarrow> kstate \<Rightarrow> kstate" where
  "handler_ready cause tval s =
     (let h = handler_entry cause tval s
      in h\<lparr>mem := write64 (mem h) (sscratch (csr s) + tf_epc) (pc s)\<rparr>)"

lemma handler_ready_fields [simp]:
  "current (handler_ready cause tval s) = current s" "trace (handler_ready cause tval s) = trace s"
  "fs_lock (handler_ready cause tval s) = fs_lock s"
  "sepc (csr (handler_ready cause tval s)) = pc s" "scause (csr (handler_ready cause tval s)) = cause"
  "stval (csr (handler_ready cause tval s)) = tval"
  "mideleg (csr (handler_ready cause tval s)) = mideleg (csr s)"
  "mip (csr (handler_ready cause tval s)) = mip (csr s)"
  "spike_files (handler_ready cause tval s) = spike_files s" "htif (handler_ready cause tval s) = htif s"
  "g_ticks (handler_ready cause tval s) = g_ticks s"
  "console (handler_ready cause tval s) = console s" "m_regs (csr (handler_ready cause tval s)) = m_regs (csr s)"
  by (simp_all add: handler_ready_def Let_def console_def)

lemma handler_ready_mem:
  fixes cause tval s p
  assumes "user_ready E p s"
  defines "tf \<equiv> tf_of (mem s) p"
  defines "m \<equiv> mem (handler_ready cause tval s)"
  shows "only_changes tf 272 (mem s) m" and "tf_of m p = tf" and "layout_ok m p"
    and "tf_reg m tf = saved_regs (gpr s) tf" and "read64 m (tf + tf_epc) = pc s"
proof -
  let ?mh = "mem (handler_entry cause tval s)"
  have ready: "layout_ok (mem s) p" "sscratch (csr s) = tf"
    using assms(1) by (simp_all add: user_ready_def tf_def)
  note h = handler_entry_mem [where s = s and cause = cause and tval = tval, unfolded ready(2)]
  have m: "m = write64 ?mh (tf + tf_epc) (pc s)"
    by (simp add: m_def handler_ready_def Let_def ready(2))
  show ch: "only_changes tf 272 (mem s) m"
    unfolding m by (rule only_changes_trans [OF h(1)]) (rule frame_member_only_changes, simp)
  show "tf_of m p = tf" "layout_ok m p"
    using frame_change_tf_of [OF ready(1), of m] frame_change_layout [OF ready(1), of m] ch
    by (simp_all add: tf_def)
  show "tf_reg m tf = saved_regs (gpr s) tf"
    unfolding m h(2) [symmetric] by (rule ext) (simp add: tf_reg_def read64_write64_apart frame_apart)
  show "read64 m (tf + tf_epc) = pc s"
    by (simp add: m)
qed

lemma smode_trap_handler_user:
  assumes "user_ready E p s"
  shows "smode_trap_handler E (handler_entry cause tval s) =
    seq (smode_dispatch E) (\<lambda>s3. switch_to E (current s3) s3) (handler_ready cause tval s)"
proof -
  let ?h = "handler_entry cause tval s"
  have u: "priv s = U_mode" "current s = p" "layout_ok (mem s) p" "sscratch (csr s) = tf_of (mem s) p"
    using assms by (simp_all add: user_ready_def)
  then have "p \<noteq> 0" by (simp add: layout_ok_def)
  have "tf_of (mem ?h) p = tf_of (mem s) p"
    using frame_change_tf_of [OF u(3), of "mem ?h"]
      handler_entry_mem(1) [where s = s and cause = cause and tval = tval] u(4)
    by simp
  then have "read64 (mem ?h) (current s + p_trapframe) = sscratch (csr s)"
    by (simp add: tf_of_def u(2,4))
  then show ?thesis
    using handler_entry_from_user [OF u(1), of cause tval] u(2) \<open>p \<noteq> 0\<close>
    by (simp add: smode_trap_handler_def seq_def assert_def ret_def handler_ready_def Let_def)
qed

text \<open>The state in which \<^verbatim>\<open>do_syscall\<close> runs: the program counter of the trap frame has moved past the
  \<^verbatim>\<open>ecall\<close>.\<close>

definition syscall_state :: "uint64 \<Rightarrow> kstate \<Rightarrow> kstate" where
  "syscall_state tval s =
     (let h = handler_ready CAUSE_USER_ECALL tval s
      in h\<lparr>mem := write64 (mem h) (sscratch (csr s) + tf_epc) (pc s + 4)\<rparr>)"

lemma syscall_state_fields [simp]:
  "current (syscall_state tval s) = current s" "trace (syscall_state tval s) = trace s"
  "fs_lock (syscall_state tval s) = fs_lock s" "g_ticks (syscall_state tval s) = g_ticks s"
  "console (syscall_state tval s) = console s" "csr (syscall_state tval s) = csr (handler_ready CAUSE_USER_ECALL tval s)"
  "spike_files (syscall_state tval s) = spike_files s" "htif (syscall_state tval s) = htif s"
  by (simp_all add: syscall_state_def Let_def console_def)

lemma syscall_state_mem:
  fixes tval s p
  assumes "user_ready E p s"
  defines "tf \<equiv> tf_of (mem s) p"
  defines "m \<equiv> mem (syscall_state tval s)"
  shows "only_changes tf 272 (mem s) m" and "tf_of m p = tf" and "layout_ok m p"
    and "tf_reg m tf = saved_regs (gpr s) tf" and "read64 m (tf + tf_epc) = pc s + 4"
proof -
  have ready: "layout_ok (mem s) p" "sscratch (csr s) = tf"
    using assms(1) by (simp_all add: user_ready_def tf_def)
  note h = handler_ready_mem [OF assms(1), of CAUSE_USER_ECALL tval, folded tf_def]
  have m: "m = write64 (mem (handler_ready CAUSE_USER_ECALL tval s)) (tf + tf_epc) (pc s + 4)"
    by (simp add: m_def syscall_state_def Let_def ready(2))
  show ch: "only_changes tf 272 (mem s) m"
    unfolding m by (rule only_changes_trans [OF h(1)]) (rule frame_member_only_changes, simp)
  show "tf_of m p = tf" "layout_ok m p"
    using frame_change_tf_of [OF ready(1), of m] frame_change_layout [OF ready(1), of m] ch
    by (simp_all add: tf_def)
  show "tf_reg m tf = saved_regs (gpr s) tf"
    unfolding m h(4) [symmetric] by (rule ext) (simp add: tf_reg_def read64_write64_apart frame_apart)
  show "read64 m (tf + tf_epc) = pc s + 4"
    by (simp add: m)
qed

text \<open>The dispatcher's call, with the user's registers as arguments.\<close>

definition user_syscall :: "env \<Rightarrow> gprs \<Rightarrow> int64 op" where
  "user_syscall E g = do_syscall E (g A0) (g A1) (g A2) (g A3) (g A4) (g A5) (g A6) (g A7)"

lemma smode_dispatch_syscall:
  assumes "user_ready E p s"
  shows "smode_dispatch E (handler_ready CAUSE_USER_ECALL tval s) =
    and_then (user_syscall E (gpr s))
      (\<lambda>r s2. Ret () (s2\<lparr>mem := write64 (mem s2) (tf_of (mem s) p + reg_off A0) r\<rparr>)) (syscall_state tval s)"
proof -
  let ?h = "handler_ready CAUSE_USER_ECALL tval s" and ?tf = "tf_of (mem s) p"
  have u: "current s = p" "sscratch (csr s) = ?tf"
    using assms by (simp_all add: user_ready_def)
  note h = handler_ready_mem [OF assms, of CAUSE_USER_ECALL tval]
  note m = syscall_state_mem [OF assms, of tval]
  have "read64 (mem ?h) (current ?h + p_trapframe) = ?tf"
    using h(2) u(1) by (simp add: tf_of_def)
  moreover have "?h\<lparr>mem := write64 (mem ?h) (?tf + tf_epc) (read64 (mem ?h) (?tf + tf_epc) + 4)\<rparr> =
      syscall_state tval s"
    using h(5) u(2) by (simp add: syscall_state_def Let_def)
  ultimately have "smode_dispatch E ?h = and_then (user_syscall E (tf_reg (mem (syscall_state tval s)) ?tf))
      (\<lambda>r s2. Ret () (s2\<lparr>mem := write64 (mem s2) (?tf + reg_off A0) r\<rparr>)) (syscall_state tval s)"
    by (simp add: smode_dispatch_def handle_syscall_def user_syscall_def Let_def del: and_then.simps)
  also have "user_syscall E (tf_reg (mem (syscall_state tval s)) ?tf) = user_syscall E (gpr s)"
    by (simp add: m(4) user_syscall_def saved_regs_def)
  finally show ?thesis .
qed

text \<open>A system call that only prints: the process goes on after the \<^verbatim>\<open>ecall\<close> with the result in
  \<^verbatim>\<open>a0\<close>.\<close>

lemma syscall_returns:
  assumes "user_ready E p s"
    and "user_syscall E (gpr s) (syscall_state tval s) = Ret r ((syscall_state tval s)\<lparr>trace := tr\<rparr>)"
  defines "tf \<equiv> tf_of (mem s) p"
  obtains t where "smode_trap_handler E (handler_entry CAUSE_USER_ECALL tval s) = Resume t"
    and "user_ready E p t" and "pc t = pc s + 4" and "gpr t = (gpr s)(T6 := tf, A0 := r)"
    and "only_changes tf 272 (mem s) (mem t)" and "trace t = tr" and "fs_lock t = fs_lock s"
    and "g_ticks t = g_ticks s" and "is_intr_enable (csr t)" and "tf_of (mem t) p = tf"
    and "m_regs (csr t) = m_regs (csr s)"
proof -
  note m = syscall_state_mem [OF assms(1), of tval, folded tf_def]
  let ?s1 = "syscall_state tval s"
  let ?s2 = "?s1\<lparr>trace := tr, mem := write64 (mem ?s1) (tf + reg_off A0) r\<rparr>"
  have u: "current s = p" "layout_ok (mem s) p"
    using assms(1) by (simp_all add: user_ready_def)
  have ch: "only_changes tf 272 (mem s) (mem ?s2)"
    using only_changes_trans [OF m(1), of "mem ?s2"] frame_member_only_changes [of "reg_off A0" tf "mem ?s1" r]
    by simp
  have tf2: "tf_of (mem ?s2) p = tf" and lay: "layout_ok (mem ?s2) p"
    using frame_change_tf_of [OF u(2), of "mem ?s2"] frame_change_layout [OF u(2), of "mem ?s2"] ch
    by (simp_all add: tf_def)
  have epc: "read64 (mem ?s2) (tf + tf_epc) = pc s + 4"
    using m(5) frame_apart_regs(3) [of A0] by (simp add: read64_write64_apart)
  have regs: "tf_reg (mem ?s2) tf = (gpr s)(T6 := tf, A0 := r)"
  proof
    fix q
    have "tf_reg (mem ?s1) tf q = saved_regs (gpr s) tf q"
      using m(4) by simp
    then show "tf_reg (mem ?s2) tf q = ((gpr s)(T6 := tf, A0 := r)) q"
      using apart_reg_off [of A0 q]
      by (cases "q = A0") (simp_all add: tf_reg_def saved_regs_def read64_write64_apart del: reg_off.simps)
  qed
  have "smode_trap_handler E (handler_entry CAUSE_USER_ECALL tval s) = switch_to E p ?s2"
    using smode_trap_handler_user [OF assms(1), of CAUSE_USER_ECALL tval] u(1)
    by (simp add: seq_def smode_dispatch_syscall [OF assms(1)] assms(2) tf_def)
  then have "smode_trap_handler E (handler_entry CAUSE_USER_ECALL tval s) = Resume (user_state E p ?s2)"
    by (simp only: switch_to_eq [OF lay])
  then show ?thesis
  proof (rule that)
    show "user_ready E p (user_state E p ?s2)" by (rule user_state_ready [OF lay])
    show "only_changes tf 272 (mem s) (mem (user_state E p ?s2))"
      using only_changes_trans [OF ch] frame_armed_only_changes [of "mem ?s2" p E]
      by (simp only: user_state_fields tf2)
    show "tf_of (mem (user_state E p ?s2)) p = tf"
      using frame_armed_reads(1) [OF lay, of E] by (simp only: user_state_fields tf2)
  qed (simp_all only: user_state_fields user_state_interrupts tf2 epc regs, simp_all)
qed

subsection \<open>Traps as the process sees them\<close>

text \<open>The backtrace of a running process, from its live registers.\<close>

definition stack_lines :: "memory \<Rightarrow> uint64 \<Rightarrow> uint64 \<Rightarrow> uint64 \<Rightarrow> nat \<Rightarrow> string list" where
  "stack_lines m p sp fp k =
     (let up = read64 m (fp - 8)
      in if sp < fp \<and> fp < USER_STACK \<and> sp < fp - 8 \<and> fp < up \<and> up < USER_STACK
         then report k (map (label m p) (chain m sp up)) else [])"

lemma backtrace_lines_stack:
  "backtrace_lines k s = (let r = tf_reg (mem s) (tf_of (mem s) (current s))
     in stack_lines (mem s) (current s) (r Sp) (r S0) k)"
  by (simp add: backtrace_lines_def backtrace_start_def stack_lines_def Let_def)

text \<open>The trap frame lies above the user stack, as \<^verbatim>\<open>kernel/config.h\<close> places it.\<close>

definition frame_above_stack :: "memory \<Rightarrow> uint64 \<Rightarrow> bool" where
  "frame_above_stack m p \<longleftrightarrow> USER_STACK \<le> tf_of m p \<and> unat (tf_of m p) + 272 < 2 ^ 64"

lemma frame_change_stack:
  assumes "only_changes tf 272 m m'" and "USER_STACK \<le> tf" and "unat tf + 272 < 2 ^ 64"
  shows "stack_agree sp m m'"
  unfolding stack_agree_def
proof (intro allI impI)
  fix x
  assume "sp < x \<and> x < USER_STACK"
  then have "unat x < unat tf"
    using assms(2) by (auto simp: word_less_nat_alt word_le_nat_alt)
  then have "272 \<le> unat (x - tf)"
    using assms(3) by (simp add: unat_sub_if')
  with assms(1) show "m' x = m x" by (simp add: only_changes_def)
qed

lemma frame_change_agree:
  assumes "layout_ok m p" and "only_changes (tf_of m p) 272 m m'"
  shows "agree p 20512 m m'"
  using frame_change_process [OF assms, of 0 20512] unfolding agree_def
  by (metis add.right_neutral le_refl nth_read_bytes plus_nat.add_0 unat_0)

lemma stack_lines_agree:
  assumes "agree p 20512 m m'" and "stack_agree sp m m'" and "16 \<le> sp"
    and "tables_ok m p" and "read64 m (p + p_strtab_sz) \<le> 8192"
  shows "stack_lines m' p sp fp k = stack_lines m p sp fp k"
proof -
  have lab: "label m' p = label m p"
    using agree_label [OF assms(1,4,5)] by auto
  show ?thesis
    using stack_agree_read64 [OF assms(2,3), of fp 8]
    by (auto simp: stack_lines_def Let_def lab stack_agree_chain [OF assms(2,3)])
qed

text \<open>The backtrace system call, seen from the process.\<close>

lemma backtrace_syscall_resumes:
  assumes "user_ready E p s" and "fs_lock s = 0" and "gpr s A0 = SYS_user_backtrace"
    and "tables_ok (mem s) p" and "read64 (mem s) (p + p_strtab_sz) \<le> 8192"
    and "frame_above_stack (mem s) p" and "16 \<le> gpr s Sp"
  shows "\<exists>t. smode_trap_handler E (handler_entry CAUSE_USER_ECALL tval s) = Resume t
    \<and> user_ready E p t \<and> pc t = pc s + 4
    \<and> (let ls = stack_lines (mem s) p (gpr s Sp) (gpr s S0) (unat (gpr s A1)) in
         gpr t = (gpr s)(T6 := tf_of (mem s) p, A0 := of_nat (length ls))
         \<and> console t = console s @ concat (map (\<lambda>l. clip (l @ ''\<newline>'')) ls))
    \<and> only_changes (tf_of (mem s) p) 272 (mem s) (mem t) \<and> fs_lock t = 0"
proof -
  let ?s1 = "syscall_state tval s" and ?tf = "tf_of (mem s) p"
  let ?ls = "stack_lines (mem s) p (gpr s Sp) (gpr s S0) (unat (gpr s A1))"
  have u: "current s = p" "layout_ok (mem s) p"
    using assms(1) by (simp_all add: user_ready_def)
  note m = syscall_state_mem [OF assms(1), of tval]
  have agr: "agree p 20512 (mem s) (mem ?s1)"
    by (rule frame_change_agree [OF u(2) m(1)])
  have stk: "stack_agree (gpr s Sp) (mem s) (mem ?s1)"
    using frame_change_stack [OF m(1)] assms(6) by (simp add: frame_above_stack_def)
  have lines: "backtrace_lines (unat (gpr s A1)) ?s1 = ?ls"
    using stack_lines_agree [OF agr stk assms(7,4,5)]
    by (simp add: backtrace_lines_stack u(1) m(2,4) saved_regs_def)
  have tab: "tables_ok (mem ?s1) (current ?s1)"
    using agree_tables [OF agr assms(4,5)] by (simp add: u(1))
  have "user_syscall E (gpr s) ?s1 = sys_user_backtrace E (gpr s A1) ?s1"
    by (simp add: user_syscall_def do_syscall_def assms(3) const_defs)
  then have res: "user_syscall E (gpr s) ?s1 = backtrace_result 0 ?ls ?s1"
    using sys_user_backtrace_eq [of ?s1 E "gpr s A1", OF _ tab] assms(2) lines by simp
  let ?t1 = "fold emit (map (\<lambda>l. l @ ''\<newline>'') ?ls) ?s1"
  have t1: "?t1 = ?s1\<lparr>trace := trace ?t1\<rparr>"
    by (simp add: emits_eq)
  have "user_syscall E (gpr s) ?s1 = Ret (of_nat (length ?ls)) (?s1\<lparr>trace := trace ?t1\<rparr>)"
    unfolding res backtrace_result_def by (subst t1) simp
  from syscall_returns [OF assms(1) this] obtain t where
    t: "smode_trap_handler E (handler_entry CAUSE_USER_ECALL tval s) = Resume t" "user_ready E p t"
      "pc t = pc s + 4" "gpr t = (gpr s)(T6 := ?tf, A0 := of_nat (length ?ls))"
      "only_changes ?tf 272 (mem s) (mem t)" "trace t = trace ?t1" "fs_lock t = fs_lock s" by metis
  have "console t = console s @ concat (map (\<lambda>l. clip (l @ ''\<newline>'')) ?ls)"
    using con.outs_shown [of "map (\<lambda>l. l @ ''\<newline>'') ?ls" ?s1] t(6)
    by (simp add: console_def comp_def)
  with t assms(2) show ?thesis by (simp add: Let_def)
qed

text \<open>
  C6.  The backtrace system call, from the \<^verbatim>\<open>ecall\<close> to the return: the process goes on at the next
  instruction in user mode, with the number of lines in \<^verbatim>\<open>a0\<close> and its other registers as they
  were (but for \<^verbatim>\<open>t6\<close>, which the trap entry overwrites); the console shows the functions on
  its stack; and of its memory only the trap frame has changed.
\<close>

theorem backtrace_syscall_correct:
  assumes "user_ready E p s" and "fs_lock s = 0" and "gpr s A0 = SYS_user_backtrace"
    and "tables_ok (mem s) p" and "read64 (mem s) (p + p_strtab_sz) \<le> 8192"
    and "frame_above_stack (mem s) p" and "16 \<le> gpr s Sp"
  shows "\<exists>t. smode_trap_handler E (handler_entry CAUSE_USER_ECALL tval s) = Resume t
    \<and> user_ready E p t \<and> pc t = pc s + 4
    \<and> (let ls = stack_lines (mem s) p (gpr s Sp) (gpr s S0) (unat (gpr s A1)) in
         gpr t = (gpr s)(T6 := tf_of (mem s) p, A0 := of_nat (length ls))
         \<and> console t = console s @ concat (map (\<lambda>l. clip (l @ ''\<newline>'')) ls))
    \<and> only_changes (tf_of (mem s) p) 272 (mem s) (mem t) \<and> fs_lock t = 0"
  using assms by (rule backtrace_syscall_resumes)

text \<open>A running process for the instances, about to execute a system call.\<close>

definition sample_user :: "uint64 \<Rightarrow> uint64 \<Rightarrow> kstate" where
  "sample_user a0 a1 = sample_state\<lparr>mem := sample_symbols, current := 0x80020000, priv := U_mode,
     csr := sample_csrs\<lparr>stvec := 0x80000100, sscratch := 0x81300000, mideleg := 0x222, mip := 2\<rparr>,
     gpr := (\<lambda>_. 0)(A0 := a0, A1 := a1, Sp := 0x81000000, S0 := 0x81000100), pc := 0x81500100\<rparr>"

lemma sample_user_fields [simp]:
  "mem (sample_user a0 a1) = sample_symbols" "fs_lock (sample_user a0 a1) = 0"
  "gpr (sample_user a0 a1) A0 = a0" "gpr (sample_user a0 a1) A1 = a1"
  "gpr (sample_user a0 a1) Sp = 0x81000000" "gpr (sample_user a0 a1) S0 = 0x81000100"
  "console (sample_user a0 a1) = []" "pc (sample_user a0 a1) = 0x81500100"
  "current (sample_user a0 a1) = 0x80020000" "g_ticks (sample_user a0 a1) = 0"
  "mideleg (csr (sample_user a0 a1)) = 0x222" "priv (sample_user a0 a1) = U_mode"
  by (simp_all add: sample_user_def console_def)

lemma sample_tf: "tf_of sample_symbols 0x80020000 = 0x81300000"
  by (simp add: tf_of_def const_defs sample_reads)

lemma sample_user_ready: "user_ready sample_env 0x80020000 (sample_user a0 a1)"
  by (simp add: user_ready_def layout_ok_def sample_tf)
    (simp add: sample_user_def sample_env_def const_defs sample_reads apart_def)

theorem backtrace_syscall_correct_witness:
  "\<exists>t. smode_trap_handler sample_env (handler_entry CAUSE_USER_ECALL 0 (sample_user 66 8)) = Resume t
    \<and> pc t = 0x81500104 \<and> gpr t A0 = 1 \<and> console t = ''f8'' @ [CHR 0x0A]"
proof -
  have ls: "stack_lines sample_symbols 0x80020000 0x81000000 0x81000100 8 = [''f8'']"
    by (simp add: stack_lines_def const_defs sample_reads sample_chain sample_label report_def)
  show ?thesis
    using backtrace_syscall_correct [OF sample_user_ready, of 66 8 0] sample_tables
    by (auto simp: SYS_user_backtrace_def SYS_user_base_def sample_reads p_strtab_sz_def
        frame_above_stack_def sample_tf USER_STACK_def ls Let_def)
qed

text \<open>A print system call, seen from the process.  The kernel reads the text after the registers of the process
  were saved in the trap frame.\<close>

definition print_text :: "uint64 \<Rightarrow> kstate \<Rightarrow> string option" where
  "print_text tval s = c_string (mem (syscall_state tval s)) (gpr s A1)"

lemma print_text_apart:
  assumes "user_ready E p s" and "cstr_at (mem s) (gpr s A1) (bytes_of msg)"
    and "apart (tf_of (mem s) p) 272 (gpr s A1) (Suc (length msg))"
  shows "print_text tval s = Some msg"
proof -
  let ?s1 = "syscall_state tval s"
  have "read_bytes (mem ?s1) (gpr s A1) (Suc (length msg)) = read_bytes (mem s) (gpr s A1) (Suc (length msg))"
    by (rule only_changes_read_bytes [OF syscall_state_mem(1) [OF assms(1)] assms(3)])
  then have "cstr_at (mem ?s1) (gpr s A1) (bytes_of msg)"
    using assms(2) by (simp add: cstr_at_iff bytes_of_def)
  then show ?thesis by (simp add: print_text_def c_string_bytes_of)
qed

lemma print_syscall_outcome:
  assumes "user_ready E p s" and "fs_lock s = 0" and "gpr s A0 = SYS_user_print"
  shows "case print_text tval s of
      None \<Rightarrow> smode_trap_handler E (handler_entry CAUSE_USER_ECALL tval s) = Diverge
    | Some msg \<Rightarrow>
        (case expand 256 0 False False msg [] of
           Inl u \<Rightarrow> smode_trap_handler E (handler_entry CAUSE_USER_ECALL tval s) = Undef u
         | Inr e \<Rightarrow> \<exists>t. smode_trap_handler E (handler_entry CAUSE_USER_ECALL tval s) = Resume t
             \<and> user_ready E p t \<and> pc t = pc s + 4 \<and> gpr t = (gpr s)(T6 := tf_of (mem s) p, A0 := 0)
             \<and> console t = console s @ clip e
             \<and> only_changes (tf_of (mem s) p) 272 (mem s) (mem t) \<and> fs_lock t = 0)"
proof -
  let ?s1 = "syscall_state tval s" and ?tf = "tf_of (mem s) p"
  have run: "user_syscall E (gpr s) ?s1 = sys_user_print E (gpr s A1) (gpr s A2) ?s1"
    by (simp add: user_syscall_def do_syscall_def assms(3))
  note handler = smode_trap_handler_user [OF assms(1), of CAUSE_USER_ECALL tval] smode_dispatch_syscall [OF assms(1), of tval]
  show ?thesis
  proof (cases "print_text tval s")
    case None
    then have "sys_user_print E (gpr s A1) (gpr s A2) ?s1 = Diverge"
      by (simp add: print_text_def sys_user_print_def with_string_def seq_def)
    with None show ?thesis by (simp add: handler seq_def run)
  next
    case (Some msg)
    note eq = sys_user_print_expand [of ?s1 "gpr s A1" msg E "gpr s A2"]
    show ?thesis
    proof (cases "expand 256 0 False False msg []")
      case (Inl u)
      with Some eq assms(2) show ?thesis
        by (simp add: handler seq_def run print_text_def)
    next
      case (Inr e)
      then have "user_syscall E (gpr s) ?s1 = Ret 0 (?s1\<lparr>trace := trace (emit e ?s1)\<rparr>)"
        using Some eq assms(2) by (simp add: run print_text_def emit_def)
      from syscall_returns [OF assms(1) this] obtain t where
        t: "smode_trap_handler E (handler_entry CAUSE_USER_ECALL tval s) = Resume t" "user_ready E p t"
          "pc t = pc s + 4" "gpr t = (gpr s)(T6 := ?tf, A0 := 0)"
          "only_changes ?tf 272 (mem s) (mem t)" "trace t = trace (emit e ?s1)" "fs_lock t = fs_lock s" by metis
      have "console t = console (emit e ?s1)"
        using t(6) by (simp add: console_def)
      with t assms(2) Some Inr show ?thesis by simp
    qed
  qed
qed

text \<open>The state after the timer handler's work.\<close>

definition tick :: "kstate \<Rightarrow> kstate" where
  "tick s = (emit (''Ticks '' @ expand_d (scast (ucast (g_ticks s) :: int32)) @ ''\<newline>'') s)
     \<lparr>g_ticks := g_ticks s + 1, csr := write_sip (read_sip (csr s) AND NOT SIP_SSIP) (csr s)\<rparr>"

lemma handle_mtimer_trap_eq:
  assumes "fs_lock s = 0"
  shows "handle_mtimer_trap E s = Ret () (tick s)"
proof -
  have e: "expand 256 0 False False ''Ticks %d\<newline>'' [VaWord (g_ticks s)] =
      Inr (''Ticks '' @ expand_d (scast (ucast (g_ticks s) :: int32)) @ ''\<newline>'')"
    by simp
  show ?thesis
    by (simp add: handle_mtimer_trap_def con.print_then [OF assms e] tick_def)
qed

lemma sret_mip [simp]: "mip (csr (sret s)) = mip (csr s)" "mideleg (csr (sret s)) = mideleg (csr s)"
  by (simp_all add: sret_def Let_def write_sstatus_def)

lemma user_state_mip: "mip (csr (user_state E p s)) = mip (csr s)"
  by (simp add: user_state_def user_sstatus_def write_sstatus_def)

text \<open>A timer tick, seen from the process.\<close>

lemma timer_trap_resumes:
  assumes "user_ready E p s" and "fs_lock s = 0" and "bit (mideleg (csr s)) 1"
  shows "\<exists>t. smode_trap_handler E (handler_entry CAUSE_MTIMER_S_TRAP tval s) = Resume t
    \<and> user_ready E p t \<and> pc t = pc s \<and> gpr t = (gpr s)(T6 := tf_of (mem s) p)
    \<and> only_changes (tf_of (mem s) p) 272 (mem s) (mem t)
    \<and> g_ticks t = g_ticks s + 1 \<and> \<not> bit (mip (csr t)) 1
    \<and> console t = console s @ clip (''Ticks '' @ expand_d (scast (ucast (g_ticks s) :: int32)) @ ''\<newline>'')
    \<and> fs_lock t = 0 \<and> m_regs (csr t) = m_regs (csr s)"
proof -
  let ?h = "handler_ready CAUSE_MTIMER_S_TRAP tval s" and ?tf = "tf_of (mem s) p"
  note m = handler_ready_mem [OF assms(1), of CAUSE_MTIMER_S_TRAP tval]
  have u: "current s = p"
    using assms(1) by (simp add: user_ready_def)
  have tick_mem: "mem (tick ?h) = mem ?h" "current (tick ?h) = p"
    by (simp_all add: tick_def u)
  have "smode_dispatch E ?h = Ret () (tick ?h)"
    using handle_mtimer_trap_eq [of ?h E] assms(2)
    by (simp add: smode_dispatch_def Let_def CAUSE_MTIMER_S_TRAP_def CAUSE_USER_ECALL_def)
  then have "smode_trap_handler E (handler_entry CAUSE_MTIMER_S_TRAP tval s) = switch_to E p (tick ?h)"
    using smode_trap_handler_user [OF assms(1), of CAUSE_MTIMER_S_TRAP tval] tick_mem
    by (simp add: seq_def)
  then have res: "smode_trap_handler E (handler_entry CAUSE_MTIMER_S_TRAP tval s) =
      Resume (user_state E p (tick ?h))"
    using switch_to_eq [of "tick ?h" p E] m(3) by (simp add: tick_mem)
  have lay: "layout_ok (mem (tick ?h)) p"
    using m(3) by (simp add: tick_mem)
  have pend: "\<not> bit (mip (csr (tick ?h))) 1"
    using assms(3) by (simp add: tick_def bit_write_sip bit_and_iff bit_not_iff bit_flags)
  have ch: "only_changes ?tf 272 (mem s) (mem (user_state E p (tick ?h)))"
    using only_changes_trans [OF m(1)] frame_armed_only_changes [of "mem ?h" p E] m(2)
    by (simp add: user_state_fields tick_mem)
  have "console (user_state E p (tick ?h)) = console (tick ?h)"
    by (simp add: console_def user_state_fields)
  then show ?thesis
    using res user_state_ready [OF lay, of E] ch pend m(2,4,5) assms(2)
    by (simp add: user_state_fields user_state_mip tick_mem saved_regs_def)
      (simp add: tick_def)
qed

text \<open>
  C14.  A timer tick is invisible to the process: it goes on at the interrupted instruction in
  user mode with every register but \<^verbatim>\<open>t6\<close> and all of its memory outside the trap frame as they
  were.  The kernel has counted the tick, reported it, and acknowledged the software interrupt, so
  that it is not pending again.
\<close>

theorem timer_trap_correct:
  assumes "user_ready E p s" and "fs_lock s = 0" and "bit (mideleg (csr s)) 1"
  shows "\<exists>t. smode_trap_handler E (handler_entry CAUSE_MTIMER_S_TRAP tval s) = Resume t
    \<and> user_ready E p t \<and> pc t = pc s \<and> gpr t = (gpr s)(T6 := tf_of (mem s) p)
    \<and> only_changes (tf_of (mem s) p) 272 (mem s) (mem t)
    \<and> g_ticks t = g_ticks s + 1 \<and> \<not> bit (mip (csr t)) 1
    \<and> console t = console s @ clip (''Ticks '' @ expand_d (scast (ucast (g_ticks s) :: int32)) @ ''\<newline>'')"
  using timer_trap_resumes [OF assms] by blast

theorem timer_trap_correct_witness:
  "\<exists>t. smode_trap_handler sample_env (handler_entry CAUSE_MTIMER_S_TRAP 0 (sample_user 0 0)) = Resume t
    \<and> g_ticks t = 1 \<and> pc t = 0x81500100 \<and> \<not> bit (mip (csr t)) 1"
  using timer_trap_correct [OF sample_user_ready, of 0 0 0] by auto

lemma unexpected_trap_stops:
  assumes "fs_lock s = 0" and "user_ready E p s" and "cause \<notin> {CAUSE_USER_ECALL, CAUSE_MTIMER_S_TRAP}"
  shows "\<exists>t. smode_trap_handler E (handler_entry cause tval s) = Halt (Exit (- 1)) t"
proof -
  let ?h = "handler_ready cause tval s"
  have lock: "fs_lock ?h = 0" using assms(1) by simp
  obtain e1 where e1: "expand 256 0 False False ''smode_trap_handler(): unexpected scause %p\<newline>''
      [VaWord cause] = Inr e1"
    by simp
  obtain e2 where e2: "expand 256 0 False False ''            sepc=%p stval=%p\<newline>''
      [VaWord (pc s), VaWord tval] = Inr e2"
    by simp
  have "\<exists>t. smode_dispatch E ?h = Halt (Exit (- 1)) t"
    using assms(2,3) lock by (simp add: smode_dispatch_def Let_def con.print_then [OF lock e1]
        con.print_then [OF _ e2] panic_def do_panic_literal)
  then show ?thesis
    using smode_trap_handler_user [OF assms(2)] by (auto simp: seq_def)
qed

lemma other_mode_stops:
  assumes "fs_lock s = 0" and "read_sstatus (csr s) AND SSTATUS_SPP \<noteq> 0"
  shows "\<exists>t. smode_trap_handler E s = Halt (Exit (- 1)) t
    \<and> console t = console s @ ''usertrap: not from user mode'' @ [CHR 0x0A] @ clip (shutdown_message (- 1))"
  using assms by (simp add: smode_trap_handler_def panic_def do_panic_literal console_halted)

text \<open>
  C15.  Every other trap stops the machine with exit code -1: a trap whose cause is neither a
  system call nor the timer, and any trap that did not come from user mode.
\<close>

theorem unexpected_trap_halts:
  assumes "fs_lock s = 0"
  shows "(user_ready E p s \<and> cause \<notin> {CAUSE_USER_ECALL, CAUSE_MTIMER_S_TRAP} \<longrightarrow>
      (\<exists>t. smode_trap_handler E (handler_entry cause tval s) = Halt (Exit (- 1)) t))
    \<and> (read_sstatus (csr s) AND SSTATUS_SPP \<noteq> 0 \<longrightarrow>
      (\<exists>t. smode_trap_handler E s = Halt (Exit (- 1)) t
         \<and> console t = console s @ ''usertrap: not from user mode'' @ [CHR 0x0A]
             @ clip (shutdown_message (- 1))))"
  using unexpected_trap_stops [OF assms] other_mode_stops [OF assms] by blast

theorem unexpected_trap_halts_witness:
  "\<exists>t. smode_trap_handler sample_env (handler_entry CAUSE_BREAKPOINT 0 (sample_user 0 0)) = Halt (Exit (- 1)) t"
  using unexpected_trap_halts [of "sample_user 0 0" sample_env "0x80020000" CAUSE_BREAKPOINT 0]
  by (simp add: sample_user_ready const_defs)

end
