(* ===== verification/UserLib.thy ===== *)
theory UserLib
  imports Strap
begin

text \<open>
  The library of the applications (\<^verbatim>\<open>user/user_lib.c\<close>).  Its functions run in user mode on the same
  machine; a system call is the \<^verbatim>\<open>ecall\<close> instruction, which enters the kernel through
  \<open>handler_entry\<close> and comes back when the kernel leaves for user mode.  Where the compiler puts
  the local array \<^verbatim>\<open>out\<close> of \<^verbatim>\<open>printu\<close> is an argument of the definition, and so is what the stack
  holds: the library is described between the entry of a function and its return.
\<close>

subsection \<open>The functions\<close>

definition call_regs :: "uint64 list \<Rightarrow> gprs \<Rightarrow> gprs" where
  "call_regs as g = fold (\<lambda>(r, v) f. f(r := v)) (zip [A0, A1, A2, A3, A4, A5, A6, A7] as) g"

text \<open>The system call: the arguments in \<^verbatim>\<open>a0\<close> to \<^verbatim>\<open>a7\<close>, \<^verbatim>\<open>ecall\<close>, and the low word of \<^verbatim>\<open>a0\<close> as the result.  The local variable \<^verbatim>\<open>ret\<close> it
  passes through is a word of the function's own stack frame, which App adds as \<open>leaf_call\<close>.\<close>

definition do_user_call ::
  "env \<Rightarrow> uint64 \<Rightarrow> uint64 \<Rightarrow> uint64 \<Rightarrow> uint64 \<Rightarrow> uint64 \<Rightarrow> uint64 \<Rightarrow> uint64 \<Rightarrow> uint64 \<Rightarrow> int32 op" where
  "do_user_call E sysnum a1 a2 a3 a4 a5 a6 a7 s =
     (let s1 = s\<lparr>gpr := call_regs [sysnum, a1, a2, a3, a4, a5, a6, a7] (gpr s)\<rparr> in
      case smode_trap_handler E (handler_entry CAUSE_USER_ECALL 0 s1) of
        Resume t \<Rightarrow> Ret (ucast (gpr t A0)) t
      | r \<Rightarrow> no_return r)"

definition printu :: "env \<Rightarrow> uint64 \<Rightarrow> string \<Rightarrow> va list \<Rightarrow> int32 op" where
  "printu E out fmt vl s =
     (case vsnprintf (map char_of_byte (read_bytes (mem s) out 256)) 256 fmt vl of
        Inl u \<Rightarrow> Undef u
      | Inr (res, text) \<Rightarrow>
          let r = scast res :: uint64;
              n = (if r < 256 then r else 256)
          in do_user_call E SYS_user_print out n 0 0 0 0 0
               (s\<lparr>mem := write_bytes (mem s) out (bytes_of text)\<rparr>))"

definition exit :: "env \<Rightarrow> int32 \<Rightarrow> int32 op" where
  "exit E code = do_user_call E SYS_user_exit (scast code) 0 0 0 0 0 0"

definition print_backtrace :: "env \<Rightarrow> int32 \<Rightarrow> int32 op" where
  "print_backtrace E depth = do_user_call E SYS_user_backtrace (scast depth) 0 0 0 0 0 0"

subsection \<open>System calls from the library\<close>

text \<open>What a system call leaves of the registers of its caller.\<close>

lemma call_regs_args [simp]:
  "call_regs [n, a1, a2, a3, a4, a5, a6, a7] g A0 = n" "call_regs [n, a1, a2, a3, a4, a5, a6, a7] g A1 = a1"
  "call_regs [n, a1, a2, a3, a4, a5, a6, a7] g A2 = a2"
  by (simp_all add: call_regs_def)

lemma call_regs_kept [simp]:
  "r \<notin> {A0, A1, A2, A3, A4, A5, A6, A7} \<Longrightarrow> call_regs [n, a1, a2, a3, a4, a5, a6, a7] g r = g r"
  by (simp add: call_regs_def)

lemma user_ready_gpr [simp]: "user_ready E p (s\<lparr>gpr := g\<rparr>) = user_ready E p s"
  by (simp add: user_ready_def)

text \<open>A change outside the process structure and the trap frame leaves the process able to run.\<close>

lemma user_ready_change:
  assumes "user_ready E p s" and "only_changes a n (mem s) m" and "apart a n p 20512" and "apart a n (tf_of (mem s) p) 272"
  shows "user_ready E p (s\<lparr>mem := m, gpr := g\<rparr>)" and "tf_of m p = tf_of (mem s) p" and "agree p 20512 (mem s) m"
proof -
  let ?tf = "tf_of (mem s) p"
  have far: "read64 m (p + b) = read64 (mem s) (p + b)" if "unat b + 8 \<le> 20512" for b
    using apart_sub [OF assms(3), of 0 n "unat b" 8] that by (simp add: only_changes_read64 [OF assms(2)])
  have frame: "read64 m (?tf + b) = read64 (mem s) (?tf + b)" if "unat b + 8 \<le> 272" for b
    using apart_sub [OF assms(4), of 0 n "unat b" 8] that by (simp add: only_changes_read64 [OF assms(2)])
  show tf: "tf_of m p = ?tf"
    unfolding tf_of_def by (rule far) simp
  show "user_ready E p (s\<lparr>mem := m, gpr := g\<rparr>)"
    using assms(1) by (simp add: user_ready_def layout_ok_def tf far frame)
  show "agree p 20512 (mem s) m"
    using assms(2) apart_offset [OF assms(3)] by (simp add: agree_def only_changes_def)
qed

text \<open>The console, the lock and the fields the library reads of a state about to trap.\<close>

lemma do_user_call_resume:
  assumes "smode_trap_handler E (handler_entry CAUSE_USER_ECALL 0
      (s\<lparr>gpr := call_regs [n, a1, a2, a3, a4, a5, a6, a7] (gpr s)\<rparr>)) = Resume t"
  shows "do_user_call E n a1 a2 a3 a4 a5 a6 a7 s = Ret (ucast (gpr t A0)) t"
  using assms by (simp add: do_user_call_def Let_def)

lemma length_bytes_of [simp]: "length (bytes_of t) = length t"
  by (simp add: bytes_of_def)

lemma cstr_at_written:
  assumes "CHR 0x00 \<notin> set t" and "Suc (length t + length rest) \<le> 2 ^ 64"
  shows "cstr_at (write_bytes m a (bytes_of (t @ CHR 0x00 # rest))) a (bytes_of t)"
  using read_write_bytes_sub [of 0 "Suc (length t)" "bytes_of (t @ CHR 0x00 # rest)" m a] assms
  by (simp add: cstr_at_iff zero_notin_bytes_of) (simp add: bytes_of_def byte_of_def)

lemma c_text_no_zero: "CHR 0x00 \<notin> set (c_text cs)"
  by (auto simp: c_text_def dest: set_takeWhileD)

lemma c_text_split:
  obtains rest' where "cs @ CHR 0x00 # rest = c_text cs @ CHR 0x00 # rest'"
proof (cases "dropWhile (\<lambda>c. c \<noteq> CHR 0x00) cs")
  case Nil
  then have "c_text cs = cs" by (simp add: c_text_def dropWhile_eq_Nil_conv)
  then show ?thesis using that by simp
next
  case (Cons c ds)
  then have "c = CHR 0x00" by (metis (full_types) hd_dropWhile list.sel(1) list.distinct(1))
  then have "cs = c_text cs @ CHR 0x00 # ds"
    unfolding c_text_def by (metis Cons takeWhile_dropWhile_id)
  then show ?thesis using that [of "ds @ CHR 0x00 # rest"] by (metis append.assoc append_Cons)
qed

text \<open>\<^verbatim>\<open>printu\<close>, from its call to its return.  What the kernel gets is the text in the array, as a format string.\<close>

definition printed_from :: "uint64 \<Rightarrow> uint64 \<Rightarrow> kstate \<Rightarrow> kstate \<Rightarrow> bool" where
  "printed_from out p s t \<longleftrightarrow> gpr t Sp = gpr s Sp \<and> gpr t S0 = gpr s S0 \<and> gpr t Ra = gpr s Ra
     \<and> (\<forall>x. 256 \<le> unat (x - out) \<and> 272 \<le> unat (x - tf_of (mem s) p) \<longrightarrow> mem t x = mem s x)"

lemma printu_outcome:
  assumes "user_ready E p s" and "fs_lock s = 0" and "expand 256 0 False False fmt vl = Inr e"
    and "apart out 256 p 20512" and "apart out 256 (tf_of (mem s) p) 272"
  shows "case expand 256 0 False False (c_text (take 255 e)) [] of
      Inl u \<Rightarrow> printu E out fmt vl s = Undef u
    | Inr e' \<Rightarrow> \<exists>t. printu E out fmt vl s = Ret 0 t \<and> user_ready E p t \<and> fs_lock t = 0
        \<and> console t = console s @ e' \<and> printed_from out p s t"
proof -
  let ?rest = "drop (Suc (min (length e) 255)) (map char_of_byte (read_bytes (mem s) out 256))"
  let ?b = "bytes_of (take 255 e @ CHR 0x00 # ?rest)" and ?msg = "c_text (take 255 e)"
  define n where "n = (if (scast (of_nat (length e) :: int32) :: uint64) < 256 then scast (of_nat (length e) :: int32) else 256 :: uint64)"
  define s1 where "s1 = s\<lparr>mem := write_bytes (mem s) out ?b\<rparr>"
  have len: "length ?b = 256" by auto
  obtain rest' where rest': "take 255 e @ CHR 0x00 # ?rest = ?msg @ CHR 0x00 # rest'"
    using c_text_split .
  have fmt: "vsnprintf (map char_of_byte (read_bytes (mem s) out 256)) 256 fmt vl =
      Inr (of_nat (length e), take 255 e @ CHR 0x00 # ?rest)"
    by (subst vsnprintf_expand) (simp_all add: assms(3))
  have call: "printu E out fmt vl s = do_user_call E SYS_user_print out n 0 0 0 0 0 s1"
    by (simp only: printu_def fmt sum.case prod.case Let_def n_def s1_def)
  let ?c = "s1\<lparr>gpr := call_regs [SYS_user_print, out, n, 0, 0, 0, 0, 0] (gpr s1)\<rparr>"
  have tf: "tf_of (mem s1) p = tf_of (mem s) p" and ready: "user_ready E p s1"
    using user_ready_change(1,2) [OF assms(1) only_changes_write_bytes [of out ?b, unfolded len] assms(4,5)]
    unfolding s1_def by simp_all
  have small: "length ?msg \<le> 255"
    using length_takeWhile_le [of "\<lambda>c. c \<noteq> CHR 0x00" "take 255 e"] by (simp add: c_text_def)
  have "Suc (length ?msg + length rest') \<le> 2 ^ 64"
    using len arg_cong [OF rest', of length] by simp
  then have "cstr_at (mem ?c) (gpr ?c A1) (bytes_of ?msg)"
    using cstr_at_written [OF c_text_no_zero, of "take 255 e" rest' "mem s" out] by (simp add: s1_def rest')
  moreover have "apart (tf_of (mem ?c) p) 272 (gpr ?c A1) (Suc (length ?msg))"
    using apart_sub [OF assms(5), of 0 "Suc (length ?msg)" 0 272] tf small by (simp add: apart_sym)
  ultimately have msg: "print_text 0 ?c = Some ?msg"
    using ready by (intro print_text_apart) simp_all
  have handled: "case expand 256 0 False False ?msg [] of
      Inl u \<Rightarrow> smode_trap_handler E (handler_entry CAUSE_USER_ECALL 0 ?c) = Undef u
    | Inr e' \<Rightarrow> \<exists>t. smode_trap_handler E (handler_entry CAUSE_USER_ECALL 0 ?c) = Resume t
        \<and> user_ready E p t \<and> pc t = pc ?c + 4 \<and> gpr t = (gpr ?c)(T6 := tf_of (mem ?c) p, A0 := 0)
        \<and> console t = console ?c @ clip e' \<and> only_changes (tf_of (mem ?c) p) 272 (mem ?c) (mem t) \<and> fs_lock t = 0"
  proof -
    have "user_ready E p ?c" "fs_lock ?c = 0" "gpr ?c A0 = SYS_user_print"
      using ready assms(2) by (simp_all add: s1_def)
    from print_syscall_outcome [OF this, of 0, unfolded msg option.case] show ?thesis .
  qed
  show ?thesis
  proof (cases "expand 256 0 False False ?msg []")
    case (Inl u)
    with handled show ?thesis by (simp add: call do_user_call_def Let_def)
  next
    case (Inr e')
    then obtain t where t: "smode_trap_handler E (handler_entry CAUSE_USER_ECALL 0 ?c) = Resume t"
        "user_ready E p t" "gpr t = (gpr ?c)(T6 := tf_of (mem ?c) p, A0 := 0)" "console t = console ?c @ clip e'"
        "only_changes (tf_of (mem ?c) p) 272 (mem ?c) (mem t)" "fs_lock t = 0"
      using handled by auto
    have "mem t x = mem s x" if "256 \<le> unat (x - out)" "272 \<le> unat (x - tf_of (mem s) p)" for x
      using t(5) that tf len by (simp add: only_changes_def s1_def write_bytes_out)
    moreover have "length e' < 256"
      using expand_length [OF Inr] small by simp
    then have "console t = console s @ e'"
      using t(4) by (simp add: s1_def)
    moreover have "printu E out fmt vl s = Ret 0 t"
      using do_user_call_resume [OF t(1)] t(3) call by simp
    ultimately show ?thesis
      using Inr t(2,3,6) by (simp add: printed_from_def s1_def)
  qed
qed

text \<open>
  C9.  \<^verbatim>\<open>printu\<close>, from its call to its return, with the kernel in between.  Arguments that do not fit the format
  string are undefined behaviour.  Otherwise the array \<^verbatim>\<open>out\<close> gets the first 255 characters of the formatted text, and the kernel
  uses them, up to a zero character, as a format string once more, without arguments: where that takes an argument
  the call is undefined behaviour; where it does not, what it stands for is on the console (the text
  itself, if it has no percent sign), the result is 0, and the process goes on with its stack and frame pointers, with nothing of its memory changed
  outside \<^verbatim>\<open>out\<close> and the trap frame.  The array lies apart from the process structure and the trap frame.
\<close>

theorem printu_correct:
  assumes "user_ready E p s" and "fs_lock s = 0" and "apart out 256 p 20512" and "apart out 256 (tf_of (mem s) p) 272"
  shows "case expand 256 0 False False fmt vl of
      Inl u \<Rightarrow> printu E out fmt vl s = Undef u
    | Inr e \<Rightarrow>
        (let text = c_text (take 255 e) in
         case expand 256 0 False False text [] of
           Inl u \<Rightarrow> printu E out fmt vl s = Undef u
         | Inr e' \<Rightarrow> (CHR ''%'' \<notin> set text \<longrightarrow> e' = text)
             \<and> (\<exists>t. printu E out fmt vl s = Ret 0 t \<and> user_ready E p t \<and> fs_lock t = 0 \<and> console t = console s @ e'
                  \<and> gpr t Sp = gpr s Sp \<and> gpr t S0 = gpr s S0 \<and> gpr t Ra = gpr s Ra
                  \<and> (\<forall>x. 256 \<le> unat (x - out) \<and> 272 \<le> unat (x - tf_of (mem s) p) \<longrightarrow> mem t x = mem s x)))"
proof (cases "expand 256 0 False False fmt vl")
  case (Inl u)
  then show ?thesis by (simp add: printu_def vsnprintf_expand)
next
  case (Inr e)
  then show ?thesis
    using printu_outcome [OF assms(1,2) Inr assms(3,4)]
    by (auto simp: Let_def printed_from_def expand_literal split: sum.splits)
qed

theorem printu_correct_witness:
  "\<exists>t. printu sample_env 0x81000000 ''pid %d'' [VaWord 7] (sample_user 0 0) = Ret 0 t \<and> console t = ''pid 7''"
proof -
  have "expand_d 7 = ''7''"
    by (simp add: expand_d_def count_digits_small char_of_def)
  then have e: "expand 256 0 False False ''pid %d'' [VaWord 7] = Inr ''pid 7''"
    by simp
  have "apart 0x81000000 256 0x80020000 20512" "apart 0x81000000 256 (0x81300000 :: uint64) 272"
    by (simp_all add: apart_def)
  then show ?thesis
    using printu_correct [OF sample_user_ready, of 0 0 "0x81000000" "''pid %d''" "[VaWord 7]", unfolded e]
    by (auto simp: sample_tf Let_def c_text_def)
qed

subsection \<open>exit and print\_backtrace\<close>

lemma exit_halts:
  assumes "user_ready E p s" and "fs_lock s = 0"
  shows "\<exists>t. exit E code s = Halt (Exit code) t \<and> console t = console s
    @ clip (''User exit with code:'' @ expand_d (scast code) @ ''.\<newline>'') @ clip (shutdown_message code)"
proof -
  let ?c = "s\<lparr>gpr := call_regs [SYS_user_exit, scast code, 0, 0, 0, 0, 0, 0] (gpr s)\<rparr>"
  let ?s1 = "syscall_state 0 ?c"
  have ready: "user_ready E p ?c" using assms(1) by simp
  have "user_syscall E (gpr ?c) ?s1 = sys_user_exit E (scast code) ?s1"
    by (simp add: user_syscall_def do_syscall_def const_defs)
  then have "user_syscall E (gpr ?c) ?s1 = Halt (Exit code) (halted E code
      (emit (''User exit with code:'' @ expand_d (scast code) @ ''.\<newline>'') ?s1))"
    using sys_user_exit_eq [of ?s1 E "scast code"] assms(2) by simp
  then have "smode_trap_handler E (handler_entry CAUSE_USER_ECALL 0 ?c) = Halt (Exit code) (halted E code
      (emit (''User exit with code:'' @ expand_d (scast code) @ ''.\<newline>'') ?s1))"
    by (simp add: smode_trap_handler_user [OF ready] seq_def smode_dispatch_syscall [OF ready])
  then show ?thesis
    by (simp add: exit_def do_user_call_def Let_def console_halted)
qed

lemma print_backtrace_returns:
  assumes "user_ready E p s" and "fs_lock s = 0"
    and "tables_ok (mem s) p" and "read64 (mem s) (p + p_strtab_sz) \<le> 8192"
    and "frame_above_stack (mem s) p" and "16 \<le> gpr s Sp"
  defines "ls \<equiv> \<lambda>depth. stack_lines (mem s) p (gpr s Sp) (gpr s S0) (unat (scast (depth :: int32) :: uint64))"
  shows "\<exists>t. print_backtrace E depth s = Ret (of_nat (length (ls depth))) t \<and> user_ready E p t \<and> fs_lock t = 0
    \<and> console t = console s @ concat (map (\<lambda>l. clip (l @ ''\<newline>'')) (ls depth))
    \<and> gpr t Sp = gpr s Sp \<and> gpr t S0 = gpr s S0 \<and> gpr t Ra = gpr s Ra
    \<and> only_changes (tf_of (mem s) p) 272 (mem s) (mem t)"
proof -
  let ?c = "s\<lparr>gpr := call_regs [SYS_user_backtrace, scast depth, 0, 0, 0, 0, 0, 0] (gpr s)\<rparr>"
  have "\<exists>t. smode_trap_handler E (handler_entry CAUSE_USER_ECALL 0 ?c) = Resume t
    \<and> user_ready E p t \<and> pc t = pc ?c + 4
    \<and> (let ls = stack_lines (mem ?c) p (gpr ?c Sp) (gpr ?c S0) (unat (gpr ?c A1)) in
         gpr t = (gpr ?c)(T6 := tf_of (mem ?c) p, A0 := of_nat (length ls))
         \<and> console t = console ?c @ concat (map (\<lambda>l. clip (l @ ''\<newline>'')) ls))
    \<and> only_changes (tf_of (mem ?c) p) 272 (mem ?c) (mem t) \<and> fs_lock t = 0"
    using assms(1-6) by (intro backtrace_syscall_resumes) simp_all
  then obtain t where t: "smode_trap_handler E (handler_entry CAUSE_USER_ECALL 0 ?c) = Resume t"
    "user_ready E p t" "gpr t = (gpr ?c)(T6 := tf_of (mem s) p, A0 := of_nat (length (ls depth)))"
    "console t = console s @ concat (map (\<lambda>l. clip (l @ ''\<newline>'')) (ls depth))"
    "only_changes (tf_of (mem s) p) 272 (mem s) (mem t)" "fs_lock t = 0"
    by (auto simp: Let_def ls_def)
  have "print_backtrace E depth s = Ret (of_nat (length (ls depth))) t"
    using do_user_call_resume [OF t(1)] t(3) by (simp add: print_backtrace_def ucast_of_nat_32)
  with t show ?thesis by (intro exI [of _ t]) simp
qed

end
