(* ===== verification/App.thy ===== *)
theory App
  imports UserLib
begin

text \<open>
  The application (\<^verbatim>\<open>user/app_print_backtrace.c\<close>): \<^verbatim>\<open>main\<close> prints a line, calls \<^verbatim>\<open>f1\<close> to \<^verbatim>\<open>f8\<close>, each from the
  one before, and \<^verbatim>\<open>f8\<close> asks for a backtrace.

  What the kernel walks is the stack that the compiled code builds.  The C source does not say
  how; the build asks for frame pointers (\<^verbatim>\<open>-fno-omit-frame-pointer\<close>), and then a function of the
  RISC-V calling convention stores the return address and the caller's frame pointer in the two
  words below the stack pointer it was called with, and makes that its frame pointer; a function
  that calls no other stores the frame pointer alone.  This is \<open>call\<close> and \<open>leaf_call\<close>; the size of the
  frames and the addresses the calls return to are arguments (\<open>frames\<close>).  The functions in
  which nothing walks the stack (\<^verbatim>\<open>printu\<close> and \<^verbatim>\<open>exit\<close>) are called without a frame of their own.
\<close>

record frames =
  ret_addr :: "string \<Rightarrow> uint64"     \<comment> \<open>where the calls made in a function return to\<close>
  frame_size :: "string \<Rightarrow> uint64"

definition enter :: "uint64 \<Rightarrow> uint64 \<Rightarrow> kstate \<Rightarrow> kstate" where
  "enter ra n s =
     (let sp = gpr s Sp
      in s\<lparr>mem := write64 (write64 (mem s) (sp - 8) ra) (sp - 16) (gpr s S0),
           gpr := (gpr s)(Ra := ra, S0 := sp, Sp := sp - n)\<rparr>)"

definition call :: "uint64 \<Rightarrow> uint64 \<Rightarrow> 'a op \<Rightarrow> 'a op" where
  "call ra n body s =
     and_then body (\<lambda>r t.
       let q = gpr t Sp + n
       in Ret r (t\<lparr>gpr := (gpr t)(Ra := read64 (mem t) (q - 8), S0 := read64 (mem t) (q - 16), Sp := q)\<rparr>))
       (enter ra n s)"

definition enter_leaf :: "uint64 \<Rightarrow> kstate \<Rightarrow> kstate" where
  "enter_leaf n s =
     (let sp = gpr s Sp
      in s\<lparr>mem := write64 (mem s) (sp - 8) (gpr s S0), gpr := (gpr s)(S0 := sp, Sp := sp - n)\<rparr>)"

definition leaf_call :: "uint64 \<Rightarrow> 'a op \<Rightarrow> 'a op" where
  "leaf_call n body s =
     and_then body (\<lambda>r t.
       let q = gpr t Sp + n
       in Ret r (t\<lparr>gpr := (gpr t)(S0 := read64 (mem t) (q - 8), Sp := q)\<rparr>))
       (enter_leaf n s)"

subsection \<open>The functions\<close>

definition f8 :: "env \<Rightarrow> frames \<Rightarrow> unit op" where
  "f8 E L = seq (call (ret_addr L ''f8'') (frame_size L ''print_backtrace'')
     (leaf_call (frame_size L ''do_user_call'') (print_backtrace E 8))) (ret ())"

definition f7 :: "env \<Rightarrow> frames \<Rightarrow> unit op" where
  "f7 E L = call (ret_addr L ''f7'') (frame_size L ''f8'') (f8 E L)"

definition f6 :: "env \<Rightarrow> frames \<Rightarrow> unit op" where
  "f6 E L = call (ret_addr L ''f6'') (frame_size L ''f7'') (f7 E L)"

definition f5 :: "env \<Rightarrow> frames \<Rightarrow> unit op" where
  "f5 E L = call (ret_addr L ''f5'') (frame_size L ''f6'') (f6 E L)"

definition f4 :: "env \<Rightarrow> frames \<Rightarrow> unit op" where
  "f4 E L = call (ret_addr L ''f4'') (frame_size L ''f5'') (f5 E L)"

definition f3 :: "env \<Rightarrow> frames \<Rightarrow> unit op" where
  "f3 E L = call (ret_addr L ''f3'') (frame_size L ''f4'') (f4 E L)"

definition f2 :: "env \<Rightarrow> frames \<Rightarrow> unit op" where
  "f2 E L = call (ret_addr L ''f2'') (frame_size L ''f3'') (f3 E L)"

definition f1 :: "env \<Rightarrow> frames \<Rightarrow> unit op" where
  "f1 E L = call (ret_addr L ''f1'') (frame_size L ''f2'') (f2 E L)"

definition main :: "env \<Rightarrow> frames \<Rightarrow> uint64 \<Rightarrow> int32 op" where
  "main E L out =
     seq (printu E out ''back trace the user app in the following:\<newline>'' [])
       (seq (call (ret_addr L ''main'') (frame_size L ''f1'') (f1 E L))
         (seq (exit E 0) (ret 0)))"

subsection \<open>Frames on the stack\<close>

text \<open>The frames from \<open>fp\<close> upwards return into the functions \<open>names\<close>, in this order.\<close>

primrec linked :: "memory \<Rightarrow> uint64 \<Rightarrow> uint64 \<Rightarrow> uint64 \<Rightarrow> string list \<Rightarrow> bool" where
  "linked m p sp fp [] \<longleftrightarrow> True"
| "linked m p sp fp (f # fs) \<longleftrightarrow>
     unat sp + 16 \<le> unat fp \<and> fp < USER_STACK \<and> read64 m (fp - 8) \<noteq> 0
     \<and> label m p (read64 m (fp - 8)) = f \<and> linked m p fp (read64 m (fp - 16)) fs"

lemma unat_minus_const: "unat k \<le> unat fp \<Longrightarrow> unat (fp - k) = unat fp - unat (k :: uint64)"
  by (intro unat_sub_le_word) (simp add: word_le_nat_alt)

lemma linked_chain:
  assumes "linked m p sp fp names" and "lo < sp"
  shows "\<exists>rest. map (label m p) (chain m lo fp) = names @ rest"
  using assms
proof (induction names arbitrary: sp fp)
  case (Cons f fs)
  let ?old = "read64 m (fp - 16)"
  have fp: "unat sp + 16 \<le> unat fp" "fp < USER_STACK" "read64 m (fp - 8) \<noteq> 0" "label m p (read64 m (fp - 8)) = f"
    "linked m p fp ?old fs" "unat lo < unat sp"
    using Cons.prems by (simp_all add: word_less_nat_alt)
  have below: "fp \<noteq> 0" "lo < fp" "lo < fp - 8" "lo < fp - 16"
    using fp(1,6) unat_minus_const [of 8 fp] unat_minus_const [of 16 fp]
    by (auto simp: word_less_nat_alt)
  show ?case
  proof (cases "fs = []")
    case True
    then show ?thesis
      using fp below by (subst chain.simps) (simp add: Let_def)
  next
    case False
    then have old: "fp < ?old" "?old < USER_STACK"
      using fp(5) by (cases fs; simp add: word_less_nat_alt)+
    obtain rest where "map (label m p) (chain m lo ?old) = fs @ rest"
      using Cons.IH [OF fp(5) below(2)] by blast
    then show ?thesis
      using fp below old by (subst chain.simps) (simp add: Let_def)
  qed
qed simp

text \<open>Only the stack from the stack pointer up matters.\<close>

lemma linked_stable:
  assumes "linked m p sp fp names" and "\<And>x. sp \<le> x \<Longrightarrow> x < USER_STACK \<Longrightarrow> m' x = m x"
    and "label m' p = label m p"
  shows "linked m' p sp fp names"
  using assms(1,2)
proof (induction names arbitrary: sp fp)
  case (Cons f fs)
  have fp: "unat sp + 16 \<le> unat fp" "unat fp < unat USER_STACK" "linked m p fp (read64 m (fp - 16)) fs"
    using Cons.prems(1) by (simp_all add: word_less_nat_alt)
  have rd: "read64 m' (fp - k) = read64 m (fp - k)" if "k = 8 \<or> k = 16" for k :: uint64
  proof -
    have k: "unat (fp - k) = unat fp - unat k" "8 \<le> unat k" "unat k \<le> 16"
      using that fp(1) unat_minus_const [of k fp] by auto
    have "m' (fp - k + of_nat i) = m (fp - k + of_nat i)" if "i < 8" for i
    proof (rule Cons.prems(2))
      have "unat (fp - k + of_nat i) = unat fp - unat k + i"
        using k that unat_bound64 [of fp] fp(1) by (subst unat_add_small) auto
      then show "sp \<le> fp - k + of_nat i" "fp - k + of_nat i < USER_STACK"
        using k that fp(1,2) by (simp_all add: word_le_nat_alt word_less_nat_alt)
    qed
    then have "read_bytes m' (fp - k) 8 = read_bytes m (fp - k) 8"
      by (intro nth_equalityI) simp_all
    then show ?thesis by (simp add: read64_def)
  qed
  have "sp \<le> fp"
    using fp(1) by (simp add: word_le_nat_alt)
  then have "linked m' p fp (read64 m (fp - 16)) fs"
    using Cons.IH [OF fp(3)] Cons.prems(2) order_trans by blast
  then show ?case
    using Cons.prems(1) rd [of 8] rd [of 16] assms(3) by simp
qed simp

subsection \<open>A running application\<close>

definition app_names :: "string list" where
  "app_names = [''main'', ''f1'', ''f2'', ''f3'', ''f4'', ''f5'', ''f6'', ''f7'', ''f8'']"

text \<open>The last 4096 bytes below the top of the user stack.\<close>

definition stack_low :: uint64 where [const_defs]: "stack_low = 0x810ff000"

text \<open>What the application needs of the process it runs in: it can trap, its symbol table names the
  return addresses, and the stack lies apart from the process structure and the trap frame.\<close>

definition app_ready :: "env \<Rightarrow> frames \<Rightarrow> uint64 \<Rightarrow> kstate \<Rightarrow> bool" where
  "app_ready E L p s \<longleftrightarrow>
     user_ready E p s \<and> fs_lock s = 0 \<and> tables_ok (mem s) p \<and> read64 (mem s) (p + p_strtab_sz) \<le> 8192
     \<and> frame_above_stack (mem s) p \<and> apart stack_low 4096 p 20512
     \<and> list_all (\<lambda>f. ret_addr L f \<noteq> 0 \<and> label (mem s) p (ret_addr L f) = f) app_names"

text \<open>A state inside the functions \<open>names\<close>, innermost first, with room for \<open>k\<close> frames.\<close>

definition inside :: "env \<Rightarrow> frames \<Rightarrow> uint64 \<Rightarrow> string list \<Rightarrow> nat \<Rightarrow> kstate \<Rightarrow> bool" where
  "inside E L p names k s \<longleftrightarrow>
     app_ready E L p s \<and> linked (mem s) p (gpr s Sp) (gpr s S0) names
     \<and> unat stack_low + 64 * k \<le> unat (gpr s Sp) \<and> gpr s Sp < USER_STACK"

definition frame_sizes :: "frames \<Rightarrow> bool" where
  "frame_sizes L \<longleftrightarrow> list_all (\<lambda>f. 16 \<le> frame_size L f \<and> frame_size L f \<le> 64)
     (tl app_names @ [''print_backtrace'', ''do_user_call''])"

lemma stack_slot:
  assumes "unat stack_low + n \<le> unat sp" and "sp \<le> USER_STACK" and "n \<le> 4096"
  shows "apart stack_low 4096 p 20512 \<Longrightarrow> apart (sp - of_nat n) n p 20512"
    and "frame_above_stack m p \<Longrightarrow> apart (sp - of_nat n) n (tf_of m p) 272"
    and "unat (sp - of_nat n) = unat sp - n"
proof -
  have n: "unat (of_nat n :: uint64) = n"
    using assms(3) by (simp add: unat_of_nat_small)
  then show sp: "unat (sp - of_nat n) = unat sp - n"
    using unat_minus_const [of "of_nat n" sp] assms(1) by simp
  have top: "unat sp \<le> unat stack_low + 4096"
    using assms(2) by (simp add: word_le_nat_alt const_defs)
  have "sp - of_nat n = stack_low + of_nat (unat sp - n - unat stack_low)"
    using sp assms(1) by (simp add: of_nat_diff)
  then show "apart stack_low 4096 p 20512 \<Longrightarrow> apart (sp - of_nat n) n p 20512"
    using apart_sub [of stack_low 4096 p 20512 "unat sp - n - unat stack_low" n 0 20512] assms(1) top by simp
  assume "frame_above_stack m p"
  then have tf: "unat sp \<le> unat (tf_of m p)" "unat (tf_of m p) + 272 < 2 ^ 64"
    using assms(2) by (auto simp: frame_above_stack_def word_le_nat_alt)
  then have "unat (tf_of m p - (sp - of_nat n)) = unat (tf_of m p) - (unat sp - n)"
    using sp by (subst unat_sub_le_word) (auto simp: word_le_nat_alt)
  then show "apart (sp - of_nat n) n (tf_of m p) 272"
    using tf assms(1) by (simp add: apart_nat) linarith
qed

text \<open>The process structure and what a trap needs are all the application depends on.\<close>

lemma app_ready_agree:
  assumes "app_ready E L p s" and "agree p 20512 (mem s) (mem t)" and "user_ready E p t" and "fs_lock t = 0"
  shows "app_ready E L p t" and "label (mem t) p = label (mem s) p"
proof -
  note a = assms(1) [unfolded app_ready_def]
  show lab: "label (mem t) p = label (mem s) p"
    using agree_label [OF assms(2)] a by auto
  have "read64 (mem t) (p + p_strtab_sz) = read64 (mem s) (p + p_strtab_sz)" "tf_of (mem t) p = tf_of (mem s) p"
    unfolding tf_of_def by (rule agree_read64 [OF assms(2)], simp)+
  then show "app_ready E L p t"
    using a assms(3,4) agree_tables [OF assms(2)] by (simp add: app_ready_def lab frame_above_stack_def)
qed

text \<open>A change below the stack pointer, of memory or of registers, keeps the application ready and its
  frames linked.\<close>

lemma inside_change:
  assumes "app_ready E L p s" and "only_changes (sp - of_nat n) n (mem s) m"
    and "unat stack_low + n \<le> unat sp" and "sp \<le> USER_STACK" and "n \<le> 4096"
  shows "app_ready E L p (s\<lparr>mem := m, gpr := g\<rparr>)" and "label m p = label (mem s) p"
    and "linked (mem s) p sp fp names \<Longrightarrow> linked m p sp fp names"
proof -
  note a = assms(1) [unfolded app_ready_def]
  note slot = stack_slot [OF assms(3,4,5)]
  note ready = user_ready_change [of E p s "sp - of_nat n" n m, OF _ assms(2) slot(1) slot(2)]
  let ?t = "s\<lparr>mem := m, gpr := g\<rparr>"
  have "agree p 20512 (mem s) (mem ?t)" "user_ready E p ?t" "fs_lock ?t = 0"
    using ready(1) [of g] ready(3) a by auto
  note keep = app_ready_agree [OF assms(1) this]
  show "app_ready E L p ?t" by (rule keep(1))
  show lab: "label m p = label (mem s) p" using keep(2) by simp
  have same: "m x = mem s x" if "sp \<le> x" for x
  proof -
    have "unat (x - (sp - of_nat n)) = unat x - (unat sp - n)"
      using that slot(3) by (subst unat_sub_le_word) (auto simp: word_le_nat_alt)
    then have "n \<le> unat (x - (sp - of_nat n))"
      using that assms(3) by (simp add: word_le_nat_alt)
    then show ?thesis using assms(2) by (simp add: only_changes_def)
  qed
  show "linked (mem s) p sp fp names \<Longrightarrow> linked m p sp fp names"
    by (erule linked_stable) (use lab same in simp_all)
qed

lemma enter_fields [simp]:
  "console (enter ra n s) = console s" "console (enter_leaf n s) = console s"
  by (simp_all add: enter_def enter_leaf_def Let_def)

lemma enter_mem:
  "only_changes (sp - 16) 16 m (write64 (write64 m (sp - 8) ra) (sp - 16) fp)"
  "read64 (write64 (write64 m (sp - 8) ra) (sp - 16) fp) (sp - 8) = ra"
proof -
  have "sp - 8 = (sp - 16) + of_nat 8" by simp
  then have "only_changes (sp - 16) 16 m (write64 m (sp - 8) ra)"
    using only_changes_mono [of "sp - 16" 8 8 m "write64 m (sp - 8) ra" 16] only_changes_write64 [of "sp - 8" m ra]
    by simp
  moreover have "only_changes (sp - 16) 16 m' (write64 m' (sp - 16) fp)" for m'
    using only_changes_mono [of "sp - 16" 0 8 m' "write64 m' (sp - 16) fp" 16] only_changes_write64 [of "sp - 16" m' fp]
    by simp
  ultimately show "only_changes (sp - 16) 16 m (write64 (write64 m (sp - 8) ra) (sp - 16) fp)"
    using only_changes_trans by blast
  have "apart (sp - 16) 8 (sp - 8) 8" by (simp add: apart_def)
  then show "read64 (write64 (write64 m (sp - 8) ra) (sp - 16) fp) (sp - 8) = ra"
    by (simp add: read64_write64_apart)
qed

text \<open>A call adds its frame.\<close>

lemma inside_enter:
  assumes "inside E L p names (Suc k) s" and "f \<in> set app_names" and "16 \<le> n" and "n \<le> 64"
  shows "inside E L p (f # names) k (enter (ret_addr L f) n s)"
proof -
  let ?sp = "gpr s Sp" and ?m = "mem (enter (ret_addr L f) n s)"
  note a = assms(1) [unfolded inside_def]
  have m: "?m = write64 (write64 (mem s) (?sp - 8) (ret_addr L f)) (?sp - 16) (gpr s S0)"
    by (simp add: enter_def Let_def)
  have s': "enter (ret_addr L f) n s = s\<lparr>mem := ?m, gpr := (gpr s)(Ra := ret_addr L f, S0 := ?sp, Sp := ?sp - n)\<rparr>"
    by (simp add: enter_def Let_def)
  have room: "unat stack_low + 16 \<le> unat ?sp" "?sp \<le> USER_STACK"
    using a by auto
  note ch = inside_change [of E L p s ?sp 16 ?m, OF _ _ room]
  have changes: "only_changes (?sp - of_nat 16) 16 (mem s) ?m"
    using enter_mem(1) [of ?sp "mem s" "ret_addr L f" "gpr s S0"] m by simp
  have f: "ret_addr L f \<noteq> 0" "label (mem s) p (ret_addr L f) = f"
    using a assms(2) by (auto simp: app_ready_def list_all_iff)
  have n: "16 \<le> unat n" "unat n \<le> 64"
    using assms(3,4) by (simp_all add: word_le_nat_alt)
  have sp: "unat (?sp - n) = unat ?sp - unat n"
    using n a by (intro unat_minus_const) simp
  have "linked ?m p ?sp (gpr s S0) names"
    using ch(3) changes a by auto
  then have "linked ?m p (?sp - n) ?sp (f # names)"
    using enter_mem(2) [of "mem s" ?sp "ret_addr L f" "gpr s S0"] f ch(2) changes a n sp by (simp add: m)
  moreover have "app_ready E L p (enter (ret_addr L f) n s)"
    by (subst s', rule ch(1) [OF _ changes]) (use a in auto)
  moreover have "?sp - n < USER_STACK"
    using a sp by (auto simp: word_less_nat_alt)
  moreover have "gpr (enter (ret_addr L f) n s) Sp = ?sp - n" "gpr (enter (ret_addr L f) n s) S0 = ?sp"
    by (simp_all add: enter_def Let_def)
  moreover have "unat stack_low + 64 * k \<le> unat (?sp - n)"
    using a n sp by auto
  ultimately show ?thesis
    unfolding inside_def by simp
qed

text \<open>An operation that returns to the running process after printing \<open>out\<close>.\<close>

definition prints :: "env \<Rightarrow> uint64 \<Rightarrow> string \<Rightarrow> 'a op \<Rightarrow> kstate \<Rightarrow> bool" where
  "prints E p out f s \<longleftrightarrow>
     (\<exists>r t. f s = Ret r t \<and> user_ready E p t \<and> fs_lock t = 0 \<and> console t = console s @ out)"

lemma prints_call: "prints E p out body (enter ra n s) \<Longrightarrow> prints E p out (call ra n body) s"
  by (auto simp: prints_def call_def Let_def)

lemma prints_leaf_call: "prints E p out body (enter_leaf n s) \<Longrightarrow> prints E p out (leaf_call n body) s"
  by (auto simp: prints_def leaf_call_def Let_def)

lemma prints_then: "prints E p out f s \<Longrightarrow> prints E p out (seq f (ret x)) s"
  by (auto simp: prints_def seq_def ret_def)

lemma prints_enter:
  assumes "inside E L p names (Suc k) s" and "f \<in> set app_names" and "16 \<le> n" and "n \<le> 64"
    and "\<And>t. inside E L p (f # names) k t \<Longrightarrow> prints E p out body t"
  shows "prints E p out (call (ret_addr L f) n body) s"
  by (rule prints_call, rule assms(5), rule inside_enter) (use assms in simp_all)

text \<open>The backtrace that is asked for inside the functions \<open>f # names\<close>.\<close>

lemma inside_leaf:
  assumes "inside E L p (f # names) (Suc k) s" and "16 \<le> n" and "n \<le> 64"
  defines "s' \<equiv> enter_leaf n s"
  shows "app_ready E L p s'" and "16 \<le> gpr s' Sp"
    and "\<exists>rest. stack_lines (mem s') p (gpr s' Sp) (gpr s' S0) d = report d (f # names @ rest)"
proof -
  let ?sp = "gpr s Sp" and ?fp = "gpr s S0" and ?m = "write64 (mem s) (gpr s Sp - 8) (gpr s S0)"
  note a = assms(1) [unfolded inside_def]
  have s': "s' = s\<lparr>mem := ?m, gpr := (gpr s)(S0 := ?sp, Sp := ?sp - n)\<rparr>"
    by (simp add: s'_def enter_leaf_def Let_def)
  have n: "16 \<le> unat n" "unat n \<le> 64"
    using assms(2,3) by (simp_all add: word_le_nat_alt)
  have room: "unat stack_low + 8 \<le> unat ?sp" "?sp \<le> USER_STACK" "unat stack_low + 64 \<le> unat ?sp"
    using a by auto
  have changes: "only_changes (?sp - of_nat 8) 8 (mem s) ?m"
    using only_changes_write64 [of "?sp - 8"] by simp
  note ch = inside_change [of E L p s ?sp 8 ?m, OF _ changes room(1,2)]
  show "app_ready E L p s'"
    unfolding s' using ch(1) a by auto
  have sp: "unat (?sp - n) = unat ?sp - unat n" "unat (?sp - 8) = unat ?sp - 8"
    using n room unat_minus_const [of n ?sp] unat_minus_const [of 8 ?sp] by simp_all
  then show "16 \<le> gpr s' Sp"
    using n room by (simp add: s' word_le_nat_alt stack_low_def)
  have link: "linked ?m p ?sp ?fp (f # names)"
    by (rule ch(3)) (use a in auto)
  then have up: "?sp < ?fp" "?fp < USER_STACK"
    by (simp_all add: word_less_nat_alt)
  have low: "?sp - n < ?sp" "?sp - n < ?sp - 8"
    using n room sp by (simp_all add: word_less_nat_alt)
  obtain rest where "map (label ?m p) (chain ?m (?sp - n) ?fp) = (f # names) @ rest"
    using linked_chain [OF link low(1)] by blast
  then show "\<exists>rest. stack_lines (mem s') p (gpr s' Sp) (gpr s' S0) d = report d (f # names @ rest)"
    using up low a by (simp add: s' stack_lines_def Let_def) blast
qed

subsection \<open>The application\<close>

definition app_lines :: string where
  "app_lines = ''f8\<newline>f7\<newline>f6\<newline>f5\<newline>f4\<newline>f3\<newline>f2\<newline>f1\<newline>''"

definition callers :: "string list" where
  "callers = [''f7'', ''f6'', ''f5'', ''f4'', ''f3'', ''f2'', ''f1'', ''main'']"

lemma report_app: "report 8 (''f8'' # callers @ rest) = [''f8'', ''f7'', ''f6'', ''f5'', ''f4'', ''f3'', ''f2'', ''f1'']"
  by (simp add: report_def callers_def)

lemma backtrace_prints:
  assumes "inside E L p (''f8'' # callers) (Suc k) s" and "16 \<le> n" and "n \<le> 64"
  shows "prints E p app_lines (leaf_call n (print_backtrace E 8)) s"
proof (rule prints_leaf_call)
  let ?s = "enter_leaf n s"
  note leaf = inside_leaf [OF assms]
  obtain rest where ls: "stack_lines (mem ?s) p (gpr ?s Sp) (gpr ?s S0) 8 = report 8 (''f8'' # callers @ rest)"
    using leaf(3) [of 8] by blast
  have d: "unat (scast (8 :: int32) :: uint64) = 8" by simp
  show "prints E p app_lines (print_backtrace E 8) ?s"
    using print_backtrace_returns [of E p ?s 8] leaf(1,2)
    unfolding app_ready_def prints_def d ls report_app by (auto simp: app_lines_def)
qed

lemma f1_prints:
  assumes "inside E L p [''main''] 9 s" and "frame_sizes L"
  shows "prints E p app_lines (f1 E L) s"
proof -
  have size: "16 \<le> frame_size L f" "frame_size L f \<le> 64"
    if "f \<in> {''f2'', ''f3'', ''f4'', ''f5'', ''f6'', ''f7'', ''f8'', ''print_backtrace'', ''do_user_call''}" for f
    using assms(2) that by (auto simp: frame_sizes_def app_names_def)
  have *: "inside E L p [''main''] (Suc (Suc (Suc (Suc (Suc (Suc (Suc (Suc (Suc 0))))))))) s"
    using assms(1) by (simp add: eval_nat_numeral)
  have f8: "prints E p app_lines (f8 E L) t"
    if "inside E L p callers (Suc (Suc 0)) t" for t
    unfolding f8_def
    by (rule prints_then, rule prints_enter [OF that])
      (simp_all add: app_names_def size, rule backtrace_prints, simp_all add: size)
  show ?thesis
    using * unfolding f1_def f2_def f3_def f4_def f5_def f6_def f7_def
    by - ((rule prints_enter, assumption, simp add: app_names_def, (rule size, simp)+)+, rule f8, simp add: callers_def)
qed

lemma main_runs:
  assumes "app_ready E L p s" and "frame_sizes L"
    and "gpr s Sp < USER_STACK" and "unat stack_low + 1024 \<le> unat (gpr s Sp)"
    and "unat stack_low \<le> unat out" and "unat out + 256 \<le> unat (gpr s Sp)"
  shows "\<exists>t. main E L out s = Halt (Exit 0) t
    \<and> console t = console s @ ''back trace the user app in the following:\<newline>''
        @ ''f8\<newline>f7\<newline>f6\<newline>f5\<newline>f4\<newline>f3\<newline>f2\<newline>f1\<newline>''
        @ ''User exit with code:0.\<newline>'' @ clip (shutdown_message 0)"
proof -
  let ?head = "''back trace the user app in the following:\<newline>''"
  note a = assms(1) [unfolded app_ready_def]
  have top: "unat (out + 256) = unat out + 256"
    using unat_add_small [of out 256] assms(3,6) by (simp add: word_less_nat_alt const_defs)
  have slot: "unat stack_low + 256 \<le> unat (out + 256)" "out + 256 \<le> USER_STACK"
    using assms(3,5,6) top by (simp_all add: word_le_nat_alt word_less_nat_alt)
  have far: "apart out 256 p 20512" "apart out 256 (tf_of (mem s) p) 272"
    using stack_slot(1,2) [OF slot] a by auto
  have e: "expand 256 0 False False ?head [] = Inr ?head"
    by (rule expand_literal) simp
  obtain t where t: "printu E out ?head [] s = Ret 0 t" "user_ready E p t" "fs_lock t = 0" "console t = console s @ ?head"
      "gpr t Sp = gpr s Sp" "\<forall>x. 256 \<le> unat (x - out) \<and> 272 \<le> unat (x - tf_of (mem s) p) \<longrightarrow> mem t x = mem s x"
    using printu_outcome [of E p s ?head "[]" ?head out] a far e by (auto simp: c_text_def printed_from_def)
  have "agree p 20512 (mem s) (mem t)"
    using t(6) apart_offset [OF far(1)] apart_offset [of "tf_of (mem s) p" 272 p 20512] a
    by (simp add: agree_def user_ready_def layout_ok_def)
  then have "app_ready E L p t"
    using app_ready_agree(1) [OF assms(1)] t(2,3) by blast
  then have "inside E L p [] (Suc 9) t"
    using assms(3,4) t(5) by (simp add: inside_def)
  moreover have "16 \<le> frame_size L ''f1''" "frame_size L ''f1'' \<le> 64"
    using assms(2) by (simp_all add: frame_sizes_def app_names_def)
  ultimately have "prints E p app_lines (call (ret_addr L ''main'') (frame_size L ''f1'') (f1 E L)) t"
    using f1_prints [OF _ assms(2)] by (intro prints_enter) (auto simp: app_names_def)
  then obtain r u where u: "call (ret_addr L ''main'') (frame_size L ''f1'') (f1 E L) t = Ret r u"
      "user_ready E p u" "fs_lock u = 0" "console u = console t @ app_lines"
    by (auto simp: prints_def)
  obtain v where "exit E 0 u = Halt (Exit 0) v" "console v = console u
    @ clip (''User exit with code:'' @ expand_d (scast (0 :: int32)) @ ''.\<newline>'') @ clip (shutdown_message 0)"
    using exit_halts [OF u(2,3), of 0] by blast
  moreover have "expand_d 0 = ''0''"
    by (simp add: expand_d_def count_digits_small char_of_def)
  ultimately show ?thesis
    using t(1,4) u(1,4) by (simp add: main_def seq_def app_lines_def)
qed

text \<open>
  C2.  The application from the beginning of \<^verbatim>\<open>main\<close> to the end of the machine, with the kernel and the
  stack the compiler builds: the console shows the headline, the names of the eight functions between
  the request and \<^verbatim>\<open>main\<close>, innermost first and without \<^verbatim>\<open>print_backtrace\<close> and \<^verbatim>\<open>do_user_call\<close>, and the
  messages of an exit with code 0.
\<close>

theorem main_correct:
  assumes "app_ready E L p s" and "frame_sizes L"
    and "gpr s Sp < USER_STACK" and "unat stack_low + 1024 \<le> unat (gpr s Sp)"
    and "unat stack_low \<le> unat out" and "unat out + 256 \<le> unat (gpr s Sp)"
  shows "\<exists>t. main E L out s = Halt (Exit 0) t
    \<and> console t = console s @ ''back trace the user app in the following:\<newline>''
        @ ''f8\<newline>f7\<newline>f6\<newline>f5\<newline>f4\<newline>f3\<newline>f2\<newline>f1\<newline>''
        @ ''User exit with code:0.\<newline>'' @ clip (shutdown_message 0)"
  using assms by (rule main_runs)

subsection \<open>A concrete process\<close>

text \<open>A process with the symbols of the application.\<close>

definition symbol_bytes :: "uint32 \<Rightarrow> uint64 \<Rightarrow> uint8 list" where
  "symbol_bytes name addr = le_bytes 4 name @ [2, 0, 0, 0] @ le_bytes 8 addr @ le_bytes 8 (64 :: uint64)"

lemma length_symbol_bytes [simp]: "length (symbol_bytes name addr) = 24"
  by (simp add: symbol_bytes_def)

lemma read_symbol_bytes:
  assumes "read_bytes m a 24 = symbol_bytes name addr"
  shows "st_name (read_symbol m a) = name" "st_info (read_symbol m a) = 2"
    "st_value (read_symbol m a) = addr" "st_size (read_symbol m a) = 64"
proof -
  have part: "read_bytes m (a + of_nat i) k = take k (drop i (symbol_bytes name addr))" if "i + k \<le> 24" for i k
    using that by (simp add: assms [symmetric] drop_read_bytes take_read_bytes)
  have "read_bytes m a 4 = le_bytes 4 name" "read_bytes m (a + 4) 1 = [2]"
    "read_bytes m (a + 8) 8 = le_bytes 8 addr" "read_bytes m (a + 16) 8 = le_bytes 8 (64 :: uint64)"
    using part [of 0 4] part [of 4 1] part [of 8 8] part [of 16 8] by (simp_all add: symbol_bytes_def)
  then show "st_name (read_symbol m a) = name" "st_info (read_symbol m a) = 2"
    "st_value (read_symbol m a) = addr" "st_size (read_symbol m a) = 64"
    by (simp_all add: read_symbol_def read32_def read64_def u32.dec_enc u64.dec_enc read_bytes_Suc)
qed

definition app_table :: "(uint32 \<times> uint64) list" where
  "app_table = [(0, 0x81000000), (5, 0x81000040), (8, 0x81000080), (11, 0x810000c0), (14, 0x81000100),
     (17, 0x81000140), (20, 0x81000180), (23, 0x810001c0), (26, 0x81000200)]"

definition app_memory :: memory where
  "app_memory = write_bytes (write_bytes (write64 (write64 (write64 (write64 (write64 sample_process
       0x80020000 0x81200000) 0x813000f8 0x81200000) 0x81300100 0x80000200) 0x80023010 9) 0x80025018 29)
     0x80020010 (concat (map (\<lambda>(name, addr). symbol_bytes name addr) app_table)))
     0x80023018 (bytes_of (concat (map (\<lambda>f. f @ [CHR 0x00]) app_names)))"

lemma concat_chunk:
  "\<forall>x\<in>set xs. length (g x) = k \<Longrightarrow> i < length xs \<Longrightarrow> take k (drop (k * i) (concat (map g xs))) = g (xs ! i)"
proof (induction xs arbitrary: i)
  case (Cons x xs)
  then show ?case by (cases i) simp_all
qed simp

lemma length_app_table [simp]: "length app_table = 9"
  "length (concat (map (\<lambda>(name, addr). symbol_bytes name addr) app_table)) = 216"
  by (simp_all add: app_table_def)

lemma length_app_names: "length app_names = 9"
  by (simp add: app_names_def)

lemma app_strings: "bytes_of (concat (map (\<lambda>f. f @ [CHR 0x00]) app_names)) =
    [109, 97, 105, 110, 0, 102, 49, 0, 102, 50, 0, 102, 51, 0, 102, 52, 0, 102, 53, 0, 102, 54, 0, 102, 55, 0, 102, 56, 0]"
  by (simp add: bytes_of_def app_names_def byte_of_def)

lemma app_reads:
  "read64 app_memory 0x80020000 = 0x81200000" "read64 app_memory 0x80020008 = 0x81300000"
  "read64 app_memory 0x80023010 = 9" "read64 app_memory 0x80025018 = 29"
  "read64 app_memory 0x813000f8 = 0x81200000" "read64 app_memory 0x81300100 = 0x80000200"
  by (simp_all add: app_memory_def sample_process_def app_strings mem_simps apart_def del: concat.simps)

lemma app_symbol:
  assumes "i < 9"
  shows "read_bytes app_memory (0x80020010 + 24 * of_nat i) 24 = symbol_bytes (fst (app_table ! i)) (snd (app_table ! i))"
proof -
  let ?T = "concat (map (\<lambda>(name, addr). symbol_bytes name addr) app_table)"
  have "apart 0x80023018 29 (0x80020010 + 24 * of_nat i) 24"
    using apart_sub [of "0x80023018" 29 "0x80020010" 216 0 29 "24 * i" 24] assms by (simp add: apart_def)
  then have "read_bytes app_memory (0x80020010 + 24 * of_nat i) 24 =
      read_bytes (write_bytes (write64 (write64 (write64 (write64 (write64 sample_process
       0x80020000 0x81200000) 0x813000f8 0x81200000) 0x81300100 0x80000200) 0x80023010 9) 0x80025018 29)
     0x80020010 ?T) (0x80020010 + 24 * of_nat i) 24"
    unfolding app_memory_def app_strings by (intro read_write_bytes_apart) (simp add: eval_nat_numeral)
  also have "\<dots> = take 24 (drop (24 * i) ?T)"
    using read_write_bytes_sub [of "24 * i" 24 ?T _ "0x80020010"] assms by simp
  also have "\<dots> = symbol_bytes (fst (app_table ! i)) (snd (app_table ! i))"
    using assms by (subst concat_chunk) (simp_all add: case_prod_unfold)
  finally show ?thesis .
qed

lemma app_symbols: "symbols app_memory 0x80020000 = map (\<lambda>i. read_symbol app_memory (0x80020010 + 24 * of_nat i)) [0..<9]"
  by (simp add: symbols_def p_symtab_def p_sym_count_def app_reads)

lemmas app_symbol_fields = read_symbol_bytes [OF app_symbol]

text \<open>The symbol of a return address.\<close>

lemma app_covers:
  assumes "i < 9"
  shows "covers 29 a (read_symbol app_memory (0x80020010 + 24 * of_nat i)) \<longleftrightarrow>
    snd (app_table ! i) \<noteq> 0 \<and> snd (app_table ! i) \<le> a \<and> a < snd (app_table ! i) + 64 \<and> ucast (fst (app_table ! i)) < (29 :: uint64)"
  using assms by (simp add: covers_def app_symbol_fields ELF64_ST_TYPE_def STT_FUNC_def)

lemma app_find:
  assumes "i < 9" and "a = snd (app_table ! i) + 16"
  shows "lookup_symbol app_memory 0x80020000 a = 0x80023018 + ucast (fst (app_table ! i))"
proof -
  let ?P = "\<lambda>k. snd (app_table ! k) \<noteq> 0 \<and> snd (app_table ! k) \<le> a \<and> a < snd (app_table ! k) + 64 \<and> ucast (fst (app_table ! k)) < (29 :: uint64)"
  have uniq: "?P k \<longleftrightarrow> k = i" if "k < 9" for k
  proof -
    have "i \<in> {0, 1, 2, 3, 4, 5, 6, 7, 8}" "k \<in> {0, 1, 2, 3, 4, 5, 6, 7, 8}" using assms(1) that by auto
    then show ?thesis
      unfolding assms(2) by (elim insertE emptyE) (simp_all add: app_table_def)
  qed
  have "find (covers 29 a) (symbols app_memory 0x80020000) = Some (read_symbol app_memory (0x80020010 + 24 * of_nat i))"
    unfolding find_Some_iff using assms(1) uniq
    by (intro exI [of _ i]) (simp add: app_symbols app_covers)
  then show ?thesis
    using assms(1) by (simp add: lookup_symbol_def app_reads p_strtab_sz_def p_strtab_def app_symbol_fields)
qed

lemma app_label:
  assumes "i < 9"
  shows "label app_memory 0x80020000 (snd (app_table ! i) + 16) = app_names ! i"
proof -
  let ?q = "lookup_symbol app_memory 0x80020000 (snd (app_table ! i) + 16)"
  have "i \<in> {0, 1, 2, 3, 4, 5, 6, 7, 8}" using assms by auto
  then have "?q \<noteq> 0 \<and> cstr_at app_memory ?q (bytes_of (app_names ! i))"
    unfolding app_find [OF assms refl]
    by (elim insertE emptyE) (simp_all add: app_table_def app_names_def bytes_of_def byte_of_def app_memory_def app_strings write_bytes_def)
  then show ?thesis
    using c_string_cstr [of app_memory ?q "bytes_of (app_names ! i)"] by (simp add: label_def bytes_of_def comp_def)
qed

definition app_frames :: frames where
  "app_frames = \<lparr>ret_addr = (\<lambda>f. case map_of (zip app_names (map snd app_table)) f of None \<Rightarrow> 0 | Some a \<Rightarrow> a + 16),
     frame_size = (\<lambda>f. if f = ''do_user_call'' then 32 else 16)\<rparr>"

definition app_state :: kstate where
  "app_state = (sample_user 0 0)\<lparr>mem := app_memory, gpr := (\<lambda>_. 0)(Sp := 0x810ffff0, S0 := 0x81100000)\<rparr>"

lemma app_state_fields [simp]:
  "mem app_state = app_memory" "gpr app_state Sp = 0x810ffff0" "console app_state = []" "fs_lock app_state = 0"
  by (simp_all add: app_state_def)

lemma app_frames_ret:
  assumes "f \<in> set app_names"
  obtains i where "i < 9" and "f = app_names ! i" and "ret_addr app_frames f = snd (app_table ! i) + 16" and "ret_addr app_frames f \<noteq> 0"
proof -
  obtain i where i: "i < 9" "f = app_names ! i"
    using assms length_app_names unfolding in_set_conv_nth by metis
  then have "i \<in> {0, 1, 2, 3, 4, 5, 6, 7, 8}" by auto
  then have "ret_addr app_frames f = snd (app_table ! i) + 16 \<and> snd (app_table ! i) + 16 \<noteq> 0"
    unfolding i(2) by (elim insertE emptyE) (simp_all add: app_frames_def app_names_def app_table_def)
  with i that show ?thesis by simp
qed

lemma app_state_ready: "app_ready sample_env app_frames 0x80020000 app_state"
proof -
  have tf: "tf_of app_memory 0x80020000 = 0x81300000"
    by (simp add: tf_of_def p_trapframe_def app_reads)
  have ready: "user_ready sample_env 0x80020000 app_state"
    by (simp add: user_ready_def layout_ok_def tf)
      (simp add: app_state_def sample_user_def sample_env_def const_defs app_reads apart_def)
  have "app_memory 0x80023034 = 0"
    by (simp add: app_memory_def app_strings write_bytes_def)
  then have tables: "tables_ok app_memory 0x80020000"
    by (simp add: tables_ok_def symtab_ok_def const_defs app_reads)
  have names: "ret_addr app_frames f \<noteq> 0 \<and> label app_memory 0x80020000 (ret_addr app_frames f) = f"
    if "f \<in> set app_names" for f
    using app_frames_ret [OF that] app_label by metis
  show ?thesis
    using ready tables names
    by (simp add: app_ready_def list_all_iff frame_above_stack_def tf USER_STACK_def p_strtab_sz_def app_reads)
      (simp add: stack_low_def apart_def)
qed

theorem main_correct_witness:
  "\<exists>t. main sample_env app_frames 0x810ffe00 app_state = Halt (Exit 0) t \<and> console t =
     ''back trace the user app in the following:\<newline>f8\<newline>f7\<newline>f6\<newline>f5\<newline>f4\<newline>f3\<newline>f2\<newline>f1\<newline>User exit with code:0.\<newline>''
     @ clip (shutdown_message 0)"
  using main_correct [OF app_state_ready, of "0x810ffe00"]
  by (simp add: frame_sizes_def app_names_def app_frames_def USER_STACK_def stack_low_def)

end
