(* ===== verification/SpikeFile.thy ===== *)
theory SpikeFile
  imports SpikeUtils
begin

text \<open>
  Host files (\<^verbatim>\<open>spike_interface/spike_file.c\<close>): the table of open files with its reference counts,
  the descriptor table, and the operations that go to the host.  A \<^verbatim>\<open>spike_file_t*\<close> is an index
  into the table or one of the integers that \<^verbatim>\<open>ERR_PTR\<close> makes into a pointer (\<^verbatim>\<open>NULL\<close> is
  \<open>ErrPtr 0\<close>).
\<close>

datatype file_ptr = File nat | ErrPtr int64

definition INIT_FILE_REF :: uint32 where [const_defs]: "INIT_FILE_REF = 3"
definition ENOMEM :: int64 where [const_defs]: "ENOMEM = 12"
definition AT_FDCWD :: int32 where [const_defs]: "AT_FDCWD = - 100"
definition O_RDONLY :: int32 where [const_defs]: "O_RDONLY = 0"

text \<open>\<^verbatim>\<open>IS_ERR_VALUE\<close>; the table itself is not in the last page of the address space.\<close>

fun is_err_value :: "file_ptr \<Rightarrow> bool" where
  "is_err_value (File f) = False"
| "is_err_value (ErrPtr x) = (x \<ge> (- 4096 :: uint64))"

definition set_refcnt :: "nat \<Rightarrow> uint32 \<Rightarrow> kstate \<Rightarrow> kstate" where
  "set_refcnt f v s = s\<lparr>spike_files := (spike_files s)[f := (spike_files s ! f)\<lparr>refcnt := v\<rparr>]\<rparr>"

definition set_kfd :: "nat \<Rightarrow> int32 \<Rightarrow> kstate \<Rightarrow> kstate" where
  "set_kfd f v s = s\<lparr>spike_files := (spike_files s)[f := (spike_files s ! f)\<lparr>kfd := v\<rparr>]\<rparr>"

subsection \<open>Reference counts and descriptors\<close>

definition spike_file_decref :: "env \<Rightarrow> nat \<Rightarrow> unit op" where
  "spike_file_decref E f s =
     (let (old, v) = atomic_add (refcnt (spike_files s ! f)) (- 1);
          s1 = set_refcnt f v s
      in if old = 2 then
           (let k = kfd (spike_files s1 ! f);
                s2 = set_refcnt f 0 s1
            in seq (frontend_syscall E HTIFSYS_close [scast k, 0, 0, 0, 0, 0, 0]) (ret ()) s2)
         else Ret () s1)"

definition spike_file_incref :: "env \<Rightarrow> nat \<Rightarrow> unit op" where
  "spike_file_incref E f s =
     (let (prev, v) = atomic_add (refcnt (spike_files s ! f)) 1
      in kassert E (prev > 0) ''prev > 0'' (set_refcnt f v s))"

function get_free_from :: "nat \<Rightarrow> kstate \<Rightarrow> nat option \<times> kstate" where
  "get_free_from f s =
     (if f < MAX_FILES then
        (if refcnt (spike_files s ! f) = 0 then
           (let (old, v) = atomic_cas (refcnt (spike_files s ! f)) 0 INIT_FILE_REF;
                s1 = set_refcnt f v s
            in if old = 0 then (Some f, s1) else get_free_from (Suc f) s1)
         else get_free_from (Suc f) s)
      else (None, s))"
  by pat_completeness auto
termination by (relation "measure (\<lambda>(f, s). MAX_FILES - f)") auto

declare get_free_from.simps [simp del]

definition spike_file_get_free :: "kstate \<Rightarrow> nat option \<times> kstate" where
  "spike_file_get_free s = get_free_from 0 s"

function dup_from :: "env \<Rightarrow> nat \<Rightarrow> nat \<Rightarrow> int32 op" where
  "dup_from E f i s =
     (if i < MAX_FDS then
        (let (old, v) = atomic_cas (spike_fds s ! i) None (Some f);
             s1 = s\<lparr>spike_fds := (spike_fds s)[i := v]\<rparr>
         in if old = None then seq (spike_file_incref E f) (ret (of_nat i)) s1
            else dup_from E f (Suc i) s1)
      else Ret (- 1) s)"
  by pat_completeness auto
termination by (relation "measure (\<lambda>(E, f, i, s). MAX_FDS - i)") auto

declare dup_from.simps [simp del]

definition spike_file_dup :: "env \<Rightarrow> nat \<Rightarrow> int32 op" where
  "spike_file_dup E f = dup_from E f 0"

text \<open>\<^verbatim>\<open>spike_file_close\<close>: the descriptor table is indexed with the host's descriptor.\<close>

fun spike_file_close :: "env \<Rightarrow> file_ptr \<Rightarrow> int32 op" where
  "spike_file_close E (ErrPtr x) s = (if x = 0 then Ret (- 1) s else Undef NullDeref)"
| "spike_file_close E (File f) s =
     (let k = sint (kfd (spike_files s ! f)) in
      if k < 0 \<or> int MAX_FDS \<le> k then Undef BufOverflow
      else
        let (old, v) = atomic_cas (spike_fds s ! nat k) (Some f) None;
            s1 = s\<lparr>spike_fds := (spike_fds s)[nat k := v]\<rparr>
        in seq (spike_file_decref E f)
             (if old \<noteq> Some f then ret (- 1)
              else seq (spike_file_decref E f) (ret 0)) s1)"

subsection \<open>Initialisation and opening\<close>

definition init_one :: "env \<Rightarrow> nat \<Rightarrow> unit op" where
  "init_one E i s =
     (case spike_file_get_free s of
        (None, s1) \<Rightarrow> Undef NullDeref
      | (Some f, s1) \<Rightarrow> seq (spike_file_dup E f) (ret ()) (set_kfd f (of_nat i) s1))"

definition spike_file_init :: "env \<Rightarrow> unit op" where
  "spike_file_init E = seq (init_one E 0) (seq (init_one E 1) (init_one E 2))"

definition spike_file_openat :: "env \<Rightarrow> int32 \<Rightarrow> uint64 \<Rightarrow> int32 \<Rightarrow> int32 \<Rightarrow> file_ptr op" where
  "spike_file_openat E dirfd fn flags mode s =
     (case spike_file_get_free s of
        (None, s1) \<Rightarrow> Ret (ErrPtr (- ENOMEM)) s1
      | (Some f, s1) \<Rightarrow>
          (case strlen (mem s1) fn of
             None \<Rightarrow> Diverge
           | Some n \<Rightarrow>
               and_then (frontend_syscall E HTIFSYS_openat
                   [scast dirfd, fn, n + 1, scast flags, scast mode, 0, 0])
                 (\<lambda>r s2. if 0 \<le> sint r then Ret (File f) (set_kfd f (ucast r) s2)
                    else seq (spike_file_decref E f) (ret (ErrPtr r)) s2) s1))"

definition spike_file_open :: "env \<Rightarrow> uint64 \<Rightarrow> int32 \<Rightarrow> int32 \<Rightarrow> file_ptr op" where
  "spike_file_open E fn flags mode = spike_file_openat E AT_FDCWD fn flags mode"

subsection \<open>Reading\<close>

fun with_file :: "file_ptr \<Rightarrow> (nat \<Rightarrow> 'a op) \<Rightarrow> 'a op" where
  "with_file (File f) g s = g f s"
| "with_file (ErrPtr x) g s = Undef NullDeref"

definition spike_file_pread :: "env \<Rightarrow> file_ptr \<Rightarrow> uint64 \<Rightarrow> uint64 \<Rightarrow> uint64 \<Rightarrow> int64 op" where
  "spike_file_pread E fp buf n offset =
     with_file fp (\<lambda>f s. frontend_syscall E HTIFSYS_pread
       [scast (kfd (spike_files s ! f)), buf, n, offset, 0, 0, 0] s)"

definition spike_file_read :: "env \<Rightarrow> file_ptr \<Rightarrow> uint64 \<Rightarrow> uint64 \<Rightarrow> int64 op" where
  "spike_file_read E fp buf n =
     with_file fp (\<lambda>f s. frontend_syscall E HTIFSYS_read
       [scast (kfd (spike_files s ! f)), buf, n, 0, 0, 0, 0] s)"

definition spike_file_lseek :: "env \<Rightarrow> file_ptr \<Rightarrow> uint64 \<Rightarrow> int32 \<Rightarrow> int64 op" where
  "spike_file_lseek E fp ptr dir =
     with_file fp (\<lambda>f s. frontend_syscall E HTIFSYS_lseek
       [scast (kfd (spike_files s ! f)), ptr, scast dir, 0, 0, 0, 0] s)"

subsection \<open>Finding a free slot\<close>

definition files_ok :: "kstate \<Rightarrow> bool" where
  "files_ok s \<longleftrightarrow> length (spike_files s) = MAX_FILES \<and> length (spike_fds s) = MAX_FDS"

definition slot_used :: "kstate \<Rightarrow> nat \<Rightarrow> bool" where
  "slot_used s f \<longleftrightarrow> f < MAX_FILES \<and> refcnt (spike_files s ! f) \<noteq> 0"

lemma get_free_from_some:
  assumes "f \<le> g" and "g < MAX_FILES" and "refcnt (spike_files s ! g) = 0"
    and "\<And>h. f \<le> h \<Longrightarrow> h < g \<Longrightarrow> refcnt (spike_files s ! h) \<noteq> 0"
  shows "get_free_from f s = (Some g, set_refcnt g INIT_FILE_REF s)"
  using assms
proof (induction "g - f" arbitrary: f)
  case 0
  then have "f = g" by simp
  with 0 show ?case by (subst get_free_from.simps) (simp add: atomic_cas_def)
next
  case (Suc n)
  then have "f < g" by simp
  with Suc.prems Suc.hyps(1) [of "Suc f"] Suc.hyps(2) show ?case
    by (subst get_free_from.simps) auto
qed

lemma get_free_from_none:
  assumes "\<And>h. f \<le> h \<Longrightarrow> h < MAX_FILES \<Longrightarrow> refcnt (spike_files s ! h) \<noteq> 0"
  shows "get_free_from f s = (None, s)"
  using assms
proof (induction "MAX_FILES - f" arbitrary: f)
  case 0
  then show ?case by (subst get_free_from.simps) simp
next
  case (Suc n)
  then show ?case by (subst get_free_from.simps) auto
qed

lemma spike_file_get_free_cases:
  obtains (full) "\<forall>f<MAX_FILES. slot_used s f" "spike_file_get_free s = (None, s)"
  | (slot) f where "f < MAX_FILES" "\<not> slot_used s f" "\<forall>g<f. slot_used s g"
      "spike_file_get_free s = (Some f, set_refcnt f INIT_FILE_REF s)"
proof (cases "\<forall>f<MAX_FILES. slot_used s f")
  case True
  then have "spike_file_get_free s = (None, s)"
    unfolding spike_file_get_free_def by (intro get_free_from_none) (auto simp: slot_used_def)
  with True full show ?thesis by blast
next
  case False
  define f where "f = (LEAST f. f < MAX_FILES \<and> \<not> slot_used s f)"
  have f: "f < MAX_FILES \<and> \<not> slot_used s f"
    unfolding f_def by (rule LeastI_ex) (use False in blast)
  have less: "slot_used s g" if "g < f" for g
    using not_less_Least [of g "\<lambda>f. f < MAX_FILES \<and> \<not> slot_used s f"] that f by (auto simp: f_def)
  have "spike_file_get_free s = (Some f, set_refcnt f INIT_FILE_REF s)"
    unfolding spike_file_get_free_def
    by (rule get_free_from_some) (use f less in \<open>auto simp: slot_used_def\<close>)
  with slot f less show ?thesis by blast
qed

lemma slot_used_set_refcnt:
  "files_ok s \<Longrightarrow> f < MAX_FILES \<Longrightarrow>
    slot_used (set_refcnt f v s) g \<longleftrightarrow> (if g = f then v \<noteq> 0 else slot_used s g)"
  by (auto simp: slot_used_def set_refcnt_def files_ok_def)

text \<open>An allocator of numbered slots: it hands out a slot that is not in use, marks it, and leaves
  the others as they are; it fails only when every slot is in use.\<close>

locale slot_allocator =
  fixes alloc :: "'t \<Rightarrow> nat option \<times> 't"
    and used :: "'t \<Rightarrow> nat \<Rightarrow> bool"
    and ok :: "'t \<Rightarrow> bool"
    and cap :: nat
  assumes alloc_some: "ok t \<Longrightarrow> alloc t = (Some f, t') \<Longrightarrow>
      ok t' \<and> f < cap \<and> \<not> used t f \<and> (\<forall>g. used t' g \<longleftrightarrow> used t g \<or> g = f)"
    and alloc_none: "ok t \<Longrightarrow> alloc t = (None, t') \<Longrightarrow> t' = t \<and> (\<forall>f<cap. used t f)"
begin

lemma alloc_distinct:
  "ok t \<Longrightarrow> alloc t = (Some f, t') \<Longrightarrow> alloc t' = (Some g, t'') \<Longrightarrow> f \<noteq> g"
  using alloc_some by metis

lemma alloc_keeps: "ok t \<Longrightarrow> alloc t = (r, t') \<Longrightarrow> used t g \<Longrightarrow> used t' g"
  using alloc_some alloc_none by (cases r) metis+

lemma alloc_succeeds_iff: "ok t \<Longrightarrow> (\<exists>f t'. alloc t = (Some f, t')) \<longleftrightarrow> (\<exists>f<cap. \<not> used t f)"
  using alloc_some alloc_none by (metis option.exhaust surj_pair)

end

interpretation files: slot_allocator spike_file_get_free slot_used files_ok MAX_FILES
proof
  fix s f s'
  assume "files_ok s" and "spike_file_get_free s = (Some f, s')"
  then show "files_ok s' \<and> f < MAX_FILES \<and> \<not> slot_used s f \<and> (\<forall>g. slot_used s' g \<longleftrightarrow> slot_used s g \<or> g = f)"
    by (cases rule: spike_file_get_free_cases [of s])
      (auto simp: slot_used_set_refcnt INIT_FILE_REF_def, auto simp: files_ok_def set_refcnt_def)
next
  fix s s'
  assume "files_ok s" and "spike_file_get_free s = (None, s')"
  then show "s' = s \<and> (\<forall>f<MAX_FILES. slot_used s f)"
    by (cases rule: spike_file_get_free_cases [of s]) auto
qed

text \<open>
  C33.  \<^verbatim>\<open>spike_file_get_free\<close> allocates: it succeeds exactly when some slot is free, takes the first free slot,
  sets its count to the initial one and changes nothing else, neither the host's descriptor of the slot nor any other slot, and
  the next call never returns the same slot.  When every slot is in use it changes nothing.
\<close>

theorem get_free_correct:
  assumes "files_ok s" and "spike_file_get_free s = (r, s')"
  shows "(r \<noteq> None \<longleftrightarrow> (\<exists>f<MAX_FILES. \<not> slot_used s f)) \<and> (r = None \<longrightarrow> s' = s)
    \<and> (\<forall>f. r = Some f \<longrightarrow> f < MAX_FILES \<and> \<not> slot_used s f \<and> (\<forall>g<f. slot_used s g)
         \<and> s' = s\<lparr>spike_files := (spike_files s)[f := (spike_files s ! f)\<lparr>refcnt := INIT_FILE_REF\<rparr>]\<rparr>
         \<and> slot_used s' f \<and> (\<forall>g. g \<noteq> f \<longrightarrow> spike_files s' ! g = spike_files s ! g \<and> slot_used s' g = slot_used s g)
         \<and> fst (spike_file_get_free s') \<noteq> Some f)
    \<and> files_ok s'"
proof (cases rule: spike_file_get_free_cases [of s])
  case full
  then show ?thesis
    using assms by auto
next
  case (slot f)
  with assms have eq: "spike_file_get_free s = (Some f, s')" by simp
  have "fst (spike_file_get_free s') \<noteq> Some f"
    using files.alloc_distinct [OF assms(1) eq] by (metis prod.collapse)
  moreover have "s' = set_refcnt f INIT_FILE_REF s" "r = Some f"
    using slot(4) assms(2) eq by simp_all
  ultimately show ?thesis
    using files.alloc_some [OF assms(1) eq] slot(2,3) by (auto simp: set_refcnt_def)
qed

theorem get_free_correct_witness:
  "fst (spike_file_get_free sample_state) \<noteq> None"
  using get_free_correct [of sample_state "fst (spike_file_get_free sample_state)" "snd (spike_file_get_free sample_state)"]
  by (auto simp: files_ok_def const_defs slot_used_def intro!: exI [of _ 0])

subsection \<open>Standard files\<close>

lemma dup_from_first:
  assumes "i \<le> j" and "j < MAX_FDS" and "spike_fds s ! j = None"
    and "\<And>h. i \<le> h \<Longrightarrow> h < j \<Longrightarrow> spike_fds s ! h \<noteq> None" and "length (spike_fds s) = MAX_FDS"
  shows "dup_from E f i s =
    seq (spike_file_incref E f) (ret (of_nat j)) (s\<lparr>spike_fds := (spike_fds s)[j := Some f]\<rparr>)"
  using assms
proof (induction "j - i" arbitrary: i)
  case 0
  then have "i = j" by simp
  with 0 show ?case by (subst dup_from.simps) (simp add: atomic_cas_def)
next
  case (Suc n)
  then have "i < j" and nn: "spike_fds s ! i \<noteq> None" by auto
  then have "s\<lparr>spike_fds := (spike_fds s)[i := spike_fds s ! i]\<rparr> = s" by simp
  then have "dup_from E f i s = dup_from E f (Suc i) s"
    using \<open>i < j\<close> nn Suc.prems(2)
    by (subst dup_from.simps) (auto simp: atomic_cas_def Let_def)
  then show ?case
    using Suc.prems \<open>i < j\<close> Suc.hyps(1) [of "Suc i"] Suc.hyps(2) by simp
qed

lemma incref_eq:
  assumes "refcnt (spike_files s ! f) \<noteq> 0"
  shows "spike_file_incref E f s = Ret () (set_refcnt f (refcnt (spike_files s ! f) + 1) s)"
  using assms by (simp add: spike_file_incref_def atomic_defs kassert_def ret_def word_gt_0)

text \<open>One standard file, in a table whose used slots come first.\<close>

lemma init_one_eq:
  assumes "spike_files s = xs @ x # ys" and "refcnt x = 0" and "\<forall>y\<in>set xs. refcnt y \<noteq> 0"
    and "length (spike_files s) = MAX_FILES"
    and "spike_fds s = zs @ None # ws" and "None \<notin> set zs" and "length (spike_fds s) = MAX_FDS"
  shows "init_one E i s = Ret () (s\<lparr>spike_files := xs @ \<lparr>kfd = of_nat i, refcnt = 4\<rparr> # ys,
    spike_fds := zs @ Some (length xs) # ws\<rparr>)"
proof -
  have free: "spike_file_get_free s = (Some (length xs), set_refcnt (length xs) INIT_FILE_REF s)"
    unfolding spike_file_get_free_def
    by (rule get_free_from_some) (use assms in \<open>auto simp: nth_append\<close>)
  define s1 where "s1 = s\<lparr>spike_files := xs @ \<lparr>kfd = of_nat i, refcnt = 3\<rparr> # ys\<rparr>"
  have s1: "set_kfd (length xs) (of_nat i) (set_refcnt (length xs) INIT_FILE_REF s) = s1"
    by (cases x) (simp add: s1_def set_kfd_def set_refcnt_def assms(1) INIT_FILE_REF_def)
  let ?s2 = "s1\<lparr>spike_fds := zs @ Some (length xs) # ws\<rparr>"
  have fds: "(spike_fds s1)[length zs := Some (length xs)] = zs @ Some (length xs) # ws"
    by (simp add: s1_def assms(5))
  have dup: "spike_file_dup E (length xs) s1 = seq (spike_file_incref E (length xs)) (ret (of_nat (length zs))) ?s2"
    unfolding spike_file_dup_def fds [symmetric]
    by (rule dup_from_first) (use assms in \<open>auto simp: s1_def nth_append in_set_conv_nth\<close>)
  have "spike_file_incref E (length xs) ?s2 = Ret () (set_refcnt (length xs) 4 ?s2)"
    by (subst incref_eq) (simp_all add: s1_def)
  then show ?thesis
    by (simp add: init_one_def free s1 seq_def dup ret_def) (simp add: set_refcnt_def s1_def)
qed

lemma spike_file_init_eq:
  assumes "spike_files s = replicate 128 \<lparr>kfd = - 1, refcnt = 0\<rparr>" and "spike_fds s = replicate 128 None"
  shows "spike_file_init E s = Ret () (s\<lparr>
    spike_files := [\<lparr>kfd = 0, refcnt = 4\<rparr>, \<lparr>kfd = 1, refcnt = 4\<rparr>, \<lparr>kfd = 2, refcnt = 4\<rparr>]
      @ replicate 125 \<lparr>kfd = - 1, refcnt = 0\<rparr>,
    spike_fds := [Some 0, Some 1, Some 2] @ replicate 125 None\<rparr>)"
proof -
  let ?free = "\<lparr>kfd = - 1, refcnt = 0\<rparr> :: spike_file"
  let ?f = "\<lambda>i. \<lparr>kfd = of_nat i, refcnt = 4\<rparr> :: spike_file"
  have r: "replicate 128 x = x # replicate 127 x" "replicate 127 x = x # replicate 126 x"
    "replicate 126 x = x # replicate 125 x" for x :: 'a
    by (simp_all flip: replicate_Suc)
  define s1 where "s1 = s\<lparr>spike_files := ?f 0 # replicate 127 ?free, spike_fds := Some 0 # replicate 127 None\<rparr>"
  define s2 where "s2 = s\<lparr>spike_files := ?f 0 # ?f 1 # replicate 126 ?free,
    spike_fds := Some 0 # Some 1 # replicate 126 None\<rparr>"
  have "init_one E 0 s = Ret () s1"
    using init_one_eq [of s "[]" ?free "replicate 127 ?free" "[]" "replicate 127 None" E 0] assms
      r(1) [of ?free] r(1) [of "None :: nat option"]
    by (simp add: s1_def const_defs)
  moreover have "init_one E 1 s1 = Ret () s2"
    using init_one_eq [of s1 "[?f 0]" ?free "replicate 126 ?free" "[Some 0]" "replicate 126 None" E 1]
      r(2) [of ?free] r(2) [of "None :: nat option"]
    by (simp add: s1_def s2_def const_defs)
  moreover have "init_one E 2 s2 = Ret () (s\<lparr>
      spike_files := ?f 0 # ?f 1 # ?f 2 # replicate 125 ?free,
      spike_fds := Some 0 # Some 1 # Some 2 # replicate 125 None\<rparr>)"
    using init_one_eq [of s2 "[?f 0, ?f 1]" ?free "replicate 125 ?free" "[Some 0, Some 1]" "replicate 125 None" E 2]
      r(3) [of ?free] r(3) [of "None :: nat option"]
    by (simp add: s2_def const_defs)
  ultimately show ?thesis
    by (simp add: spike_file_init_def seq_def)
qed

subsection \<open>Opening and closing\<close>

lemma decref_eq:
  assumes "refcnt (spike_files s ! f) \<noteq> 2"
  shows "spike_file_decref E f s = Ret () (set_refcnt f (refcnt (spike_files s ! f) - 1) s)"
  using assms by (simp add: spike_file_decref_def atomic_defs)

lemma set_refcnt_fields [simp]:
  "fs_lock (set_refcnt f v s) = fs_lock s" "mem (set_refcnt f v s) = mem s"
  "trace (set_refcnt f v s) = trace s" "spike_fds (set_refcnt f v s) = spike_fds s"
  "fs_lock (set_kfd f k s) = fs_lock s" "trace (set_kfd f k s) = trace s"
  "spike_fds (set_kfd f k s) = spike_fds s" "mem (set_kfd f k s) = mem s"
  "length (spike_files (set_refcnt f v s)) = length (spike_files s)"
  "length (spike_files (set_kfd f v s)) = length (spike_files s)"
  by (simp_all add: set_refcnt_def set_kfd_def)

lemma set_refcnt_nth [simp]:
  "f < length (spike_files s) \<Longrightarrow> spike_files (set_refcnt f v s) ! f = (spike_files s ! f)\<lparr>refcnt := v\<rparr>"
  "f < length (spike_files s) \<Longrightarrow> spike_files (set_kfd f k s) ! f = (spike_files s ! f)\<lparr>kfd := k\<rparr>"
  by (simp_all add: set_refcnt_def set_kfd_def)

text \<open>The request \<^verbatim>\<open>openat\<close> sends.\<close>

definition openat_request :: "int32 \<Rightarrow> uint64 \<Rightarrow> uint64 \<Rightarrow> int32 \<Rightarrow> int32 \<Rightarrow> uint64 list" where
  "openat_request dirfd fn n flags mode =
     [HTIFSYS_openat, scast dirfd, fn, n + 1, scast flags, scast mode, 0, 0]"

lemma spike_file_openat_eq:
  assumes "files_ok s" and "fs_lock s = 0" and "cstr_at (mem s) fn name"
    and "spike_file_get_free s = (Some f, s1)"
    and "fesvr E (openat_request dirfd fn (of_nat (length name)) flags mode) (mem s) = (r, m)"
  defines "s2 \<equiv> (set_refcnt f INIT_FILE_REF s)\<lparr>mem := m,
      trace := trace s @ [HostCall (openat_request dirfd fn (of_nat (length name)) flags mode)]\<rparr>"
  shows "spike_file_openat E dirfd fn flags mode s =
      (if 0 \<le> sint r then Ret (File f) (set_kfd f (ucast r) s2)
       else Ret (ErrPtr r) (set_refcnt f 2 s2))"
proof -
  have s1: "s1 = set_refcnt f INIT_FILE_REF s" "f < MAX_FILES"
    using assms(4) by (cases rule: spike_file_get_free_cases [of s]; simp)+
  have f: "f < length (spike_files s)"
    using assms(1) s1(2) by (simp add: files_ok_def)
  have call: "frontend_syscall E HTIFSYS_openat [scast dirfd, fn, of_nat (length name) + 1, scast flags, scast mode, 0, 0] s1
      = Ret r s2"
    using assms(2,5) by (simp add: s1 frontend_syscall_free s2_def openat_request_def)
  have "spike_file_decref E f s2 = Ret () (set_refcnt f 2 s2)"
    using f by (subst decref_eq) (simp_all add: s2_def set_refcnt_def INIT_FILE_REF_def)
  with call show ?thesis
    by (simp add: spike_file_openat_def assms(4) s1 strlen_cstr [OF assms(3)] seq_def ret_def)
qed

lemma close_once:
  assumes "spike_files s ! f = \<lparr>kfd = k, refcnt = 3\<rparr>" and "sint k = int n" and "n < 128"
    and "spike_fds s ! n \<noteq> Some f"
  shows "spike_file_close E (File f) s = Ret (- 1) (set_refcnt f 2 s)"
proof -
  have cas: "atomic_cas (spike_fds s ! n) (Some f) None = (spike_fds s ! n, spike_fds s ! n)"
    using assms(4) by (simp add: atomic_cas_def)
  have same: "s\<lparr>spike_fds := (spike_fds s)[n := spike_fds s ! n]\<rparr> = s"
    by simp
  have dec: "spike_file_decref E f s = Ret () (set_refcnt f 2 s)"
    using assms(1) by (subst decref_eq) simp_all
  have "spike_file_close E (File f) s =
      seq (spike_file_decref E f) (ret (- 1)) (s\<lparr>spike_fds := (spike_fds s)[n := spike_fds s ! n]\<rparr>)"
    using assms by (simp add: cas MAX_FDS_def)
  then show ?thesis
    by (simp only: same seq_def and_then.simps dec outcome.case ret_def)
qed

text \<open>
  C32.  What opening and closing do to the table.  An opened file has a slot with the initial
  count and the host's descriptor.  Closing it once only takes one reference away: the call
  reports -1, the slot stays in use and the host is not told to close its descriptor.  A failed
  open, too, leaves its slot in use, and asks nothing of the host but the open itself.
\<close>

theorem open_close_correct:
  assumes "files_ok s" and "fs_lock s = 0" and "cstr_at (mem s) fn name"
    and "spike_file_get_free s = (Some f, s1)"
    and "fesvr E (openat_request AT_FDCWD fn (of_nat (length name)) flags mode) (mem s) = (r, m)"
  shows "(r < 128 \<and> spike_fds s ! unat r \<noteq> Some f \<longrightarrow> (\<exists>s2 s3. spike_file_open E fn flags mode s = Ret (File f) s2
      \<and> spike_files s2 ! f = \<lparr>kfd = ucast r, refcnt = INIT_FILE_REF\<rparr> \<and> mem s2 = m
      \<and> spike_file_close E (File f) s2 = Ret (- 1) s3
      \<and> slot_used s3 f \<and> trace s3 = trace s2))
    \<and> (sint r < 0 \<longrightarrow> (\<exists>s2. spike_file_open E fn flags mode s = Ret (ErrPtr r) s2 \<and> slot_used s2 f
         \<and> trace s2 = trace s @ [HostCall (openat_request AT_FDCWD fn (of_nat (length name)) flags mode)]))"
proof (intro conjI impI)
  let ?s2 = "(set_refcnt f INIT_FILE_REF s)\<lparr>mem := m,
      trace := trace s @ [HostCall (openat_request AT_FDCWD fn (of_nat (length name)) flags mode)]\<rparr>"
  have f: "f < MAX_FILES" "f < length (spike_files s)"
    using assms(4,1) by (cases rule: spike_file_get_free_cases [of s]; simp add: files_ok_def)+
  note op = spike_file_openat_eq [OF assms(1-5)]
  have fl: "spike_files ?s2 ! f = (spike_files s ! f)\<lparr>refcnt := INIT_FILE_REF\<rparr>"
    using f by (simp add: set_refcnt_def)
  {
    assume r: "r < 128 \<and> spike_fds s ! unat r \<noteq> Some f"
    then have rn: "unat r < 128" by (simp add: word_less_nat_alt)
    let ?s3 = "set_kfd f (ucast r) ?s2"
    have "unat (ucast r :: int32) = unat r"
      using rn by (intro unat_ucast_small) simp
    then have sr: "0 \<le> sint r" "sint (ucast r :: int32) = int (unat r)"
      using rn sint_small [of r] sint_small [of "ucast r :: int32"] by simp_all
    have file3: "spike_files ?s3 ! f = \<lparr>kfd = ucast r, refcnt = INIT_FILE_REF\<rparr>"
      using f fl by (cases "spike_files s ! f") (simp add: set_kfd_def set_refcnt_def)
    have close: "spike_file_close E (File f) ?s3 = Ret (- 1) (set_refcnt f 2 ?s3)"
      by (rule close_once [OF _ sr(2) rn]) (use file3 r in \<open>simp_all add: INIT_FILE_REF_def\<close>)
    have "slot_used (set_refcnt f 2 ?s3) f"
      using f by (simp add: slot_used_def set_refcnt_def set_kfd_def)
    with close op sr file3
    show "\<exists>s2 s3. spike_file_open E fn flags mode s = Ret (File f) s2
      \<and> spike_files s2 ! f = \<lparr>kfd = ucast r, refcnt = INIT_FILE_REF\<rparr> \<and> mem s2 = m
      \<and> spike_file_close E (File f) s2 = Ret (- 1) s3
      \<and> slot_used s3 f \<and> trace s3 = trace s2"
      by (intro exI [of _ ?s3] exI [of _ "set_refcnt f 2 ?s3"]) (simp add: spike_file_open_def)
  next
    assume "sint r < 0"
    then show "\<exists>s2. spike_file_open E fn flags mode s = Ret (ErrPtr r) s2 \<and> slot_used s2 f
        \<and> trace s2 = trace s @ [HostCall (openat_request AT_FDCWD fn (of_nat (length name)) flags mode)]"
      using op f by (auto simp: spike_file_open_def slot_used_def set_refcnt_def)
  }
qed

theorem open_close_correct_witness:
  "\<exists>s2 s3. spike_file_open sample_env 0x1000 0 0 sample_state = Ret (File 0) s2
    \<and> spike_file_close sample_env (File 0) s2 = Ret (- 1) s3 \<and> slot_used s3 0"
proof -
  have free: "spike_file_get_free sample_state = (Some 0, set_refcnt 0 INIT_FILE_REF sample_state)"
    unfolding spike_file_get_free_def by (rule get_free_from_some) (simp_all add: MAX_FILES_def)
  show ?thesis
    using open_close_correct [OF _ _ _ free, of "0x1000" "[]" sample_env 0 0 0 "\<lambda>_. 0"]
    by (simp add: files_ok_def const_defs) metis
qed

end
