(* ===== verification/Elf.thy ===== *)
theory Elf
  imports Process SpikeFile Syscall
begin

text \<open>
  The ELF loader (\<^verbatim>\<open>kernel/elf.c\<close>): reading headers and segments of the application through the
  host, loading its symbol and string tables into the process, and finding the application's name
  on the command line.  The headers are read from the host into stack variables, so they are
  bytes of memory here, at addresses that \<open>env\<close> names, and are decoded where the code reads
  their members.
\<close>

subsection \<open>File structures (kernel/elf.h)\<close>

record elf_header =
  eh_magic :: uint32
  eh_elf :: "uint8 list"
  eh_type :: uint16
  eh_machine :: uint16
  eh_version :: uint32
  eh_entry :: uint64
  eh_phoff :: uint64
  eh_shoff :: uint64
  eh_flags :: uint32
  eh_ehsize :: uint16
  eh_phentsize :: uint16
  eh_phnum :: uint16
  eh_shentsize :: uint16
  eh_shnum :: uint16
  eh_shstrndx :: uint16

definition sizeof_elf_header :: uint64 where [const_defs]: "sizeof_elf_header = 64"

definition read_elf_header :: "memory \<Rightarrow> uint64 \<Rightarrow> elf_header" where
  "read_elf_header m a =
     \<lparr>eh_magic = read32 m a, eh_elf = read_bytes m (a + 4) 12, eh_type = read16 m (a + 16),
      eh_machine = read16 m (a + 18), eh_version = read32 m (a + 20), eh_entry = read64 m (a + 24),
      eh_phoff = read64 m (a + 32), eh_shoff = read64 m (a + 40), eh_flags = read32 m (a + 48),
      eh_ehsize = read16 m (a + 52), eh_phentsize = read16 m (a + 54), eh_phnum = read16 m (a + 56),
      eh_shentsize = read16 m (a + 58), eh_shnum = read16 m (a + 60), eh_shstrndx = read16 m (a + 62)\<rparr>"

record elf_prog_header =
  ph_type :: uint32
  ph_flags :: uint32
  ph_off :: uint64
  ph_vaddr :: uint64
  ph_paddr :: uint64
  ph_filesz :: uint64
  ph_memsz :: uint64
  ph_align :: uint64

definition sizeof_elf_prog_header :: uint64 where [const_defs]: "sizeof_elf_prog_header = 56"

definition read_prog_header :: "memory \<Rightarrow> uint64 \<Rightarrow> elf_prog_header" where
  "read_prog_header m a =
     \<lparr>ph_type = read32 m a, ph_flags = read32 m (a + 4), ph_off = read64 m (a + 8),
      ph_vaddr = read64 m (a + 16), ph_paddr = read64 m (a + 24), ph_filesz = read64 m (a + 32),
      ph_memsz = read64 m (a + 40), ph_align = read64 m (a + 48)\<rparr>"

record elf_section_header =
  sh_name :: uint32
  sh_type :: uint32
  sh_flags :: uint64
  sh_addr :: uint64
  sh_off :: uint64
  sh_size :: uint64
  sh_link :: uint32
  sh_info :: uint32
  sh_addralign :: uint64
  sh_entsize :: uint64

definition sizeof_elf_section_header :: uint64 where [const_defs]: "sizeof_elf_section_header = 64"

definition read_section_header :: "memory \<Rightarrow> uint64 \<Rightarrow> elf_section_header" where
  "read_section_header m a =
     \<lparr>sh_name = read32 m a, sh_type = read32 m (a + 4), sh_flags = read64 m (a + 8),
      sh_addr = read64 m (a + 16), sh_off = read64 m (a + 24), sh_size = read64 m (a + 32),
      sh_link = read32 m (a + 40), sh_info = read32 m (a + 44), sh_addralign = read64 m (a + 48),
      sh_entsize = read64 m (a + 56)\<rparr>"

definition ELF_MAGIC :: uint32 where [const_defs]: "ELF_MAGIC = 0x464C457F"
definition ELF_PROG_LOAD :: uint32 where [const_defs]: "ELF_PROG_LOAD = 1"
definition SHT_SYMTAB :: uint32 where [const_defs]: "SHT_SYMTAB = 2"
definition MAX_CMDLINE_ARGS :: nat where [const_defs]: "MAX_CMDLINE_ARGS = 64"

datatype elf_status = EL_OK | EL_EIO | EL_ENOMEM | EL_NOTELF | EL_ERR

record elf_info =
  info_f :: file_ptr
  info_p :: uint64

subsection \<open>Segments\<close>

definition elf_alloc_mb :: "uint64 \<Rightarrow> uint64 \<Rightarrow> uint64 \<Rightarrow> uint64" where
  "elf_alloc_mb elf_pa elf_va n = elf_va"

definition elf_fpread :: "env \<Rightarrow> elf_info \<Rightarrow> uint64 \<Rightarrow> uint64 \<Rightarrow> uint64 \<Rightarrow> uint64 op" where
  "elf_fpread E info dest nb offset = spike_file_pread E (info_f info) dest nb offset"

definition elf_init :: "env \<Rightarrow> elf_info \<Rightarrow> elf_status op" where
  "elf_init E info =
     and_then (elf_fpread E info (elfloader_ehdr E) sizeof_elf_header 0) (\<lambda>r s.
       if r \<noteq> sizeof_elf_header then Ret EL_EIO s
       else if eh_magic (read_elf_header (mem s) (elfloader_ehdr E)) \<noteq> ELF_MAGIC then Ret EL_NOTELF s
       else Ret EL_OK s)"

lemma and_then_cong [fundef_cong]:
  "f s = f' s' \<Longrightarrow> (\<And>x t. f' s' = Ret x t \<Longrightarrow> g x t = g' x t) \<Longrightarrow> and_then f g s = and_then f' g' s'"
  by (simp split: outcome.split)

lemma uint16_measure: "i < unat (w :: uint16) \<Longrightarrow> 65535 - i < (65536 :: nat) - i"
  using unsigned_less [where 'a = nat, of w] by simp

text \<open>The loop of \<^verbatim>\<open>elf_load\<close>; the number of headers is read again in every round, \<open>i\<close> and \<open>off\<close> are
  the \<^verbatim>\<open>int\<close>s of the source.\<close>

function elf_load_from :: "env \<Rightarrow> elf_info \<Rightarrow> nat \<Rightarrow> int32 \<Rightarrow> elf_status op" where
  "elf_load_from E info i off s =
     (if i < unat (eh_phnum (read_elf_header (mem s) (elfloader_ehdr E))) then
        and_then (elf_fpread E info (ph_addr E) sizeof_elf_prog_header (scast off)) (\<lambda>r s1.
          if r \<noteq> sizeof_elf_prog_header then Ret EL_EIO s1
          else
            let ph = read_prog_header (mem s1) (ph_addr E) in
            if ph_type ph \<noteq> ELF_PROG_LOAD then elf_load_from E info (Suc i) (off + 56) s1
            else if ph_memsz ph < ph_filesz ph then Ret EL_ERR s1
            else if ph_vaddr ph + ph_memsz ph < ph_vaddr ph then Ret EL_ERR s1
            else
              let dest = elf_alloc_mb (ph_vaddr ph) (ph_vaddr ph) (ph_memsz ph) in
              and_then (elf_fpread E info dest (ph_memsz ph) (ph_off ph)) (\<lambda>r2 s2.
                if r2 \<noteq> ph_memsz ph then Ret EL_EIO s2
                else elf_load_from E info (Suc i) (off + 56) s2) s1) s
      else Ret EL_OK s)"
  by pat_completeness auto
termination
  by (relation "measure (\<lambda>(E, info, i, off, s). 2 ^ 16 - i)") (auto dest: uint16_measure)

declare elf_load_from.simps [simp del]

definition elf_load :: "env \<Rightarrow> elf_info \<Rightarrow> elf_status op" where
  "elf_load E info s =
     elf_load_from E info 0 (ucast (eh_phoff (read_elf_header (mem s) (elfloader_ehdr E)))) s"

subsection \<open>Symbols\<close>

text \<open>\<^verbatim>\<open>idx * shentsize\<close> is an \<^verbatim>\<open>int\<close> product, widened with its sign.\<close>

definition get_elf_section_header :: "env \<Rightarrow> elf_info \<Rightarrow> int32 \<Rightarrow> uint64 \<Rightarrow> bool op" where
  "get_elf_section_header E info idx out s =
     (let eh = read_elf_header (mem s) (elfloader_ehdr E);
          offset = eh_shoff eh + scast (idx * ucast (eh_shentsize eh))
      in and_then (elf_fpread E info out sizeof_elf_section_header offset)
           (\<lambda>r. ret (r = sizeof_elf_section_header)) s)"

text \<open>The first pass: the index of the first symbol table, whose header is then in \<^verbatim>\<open>sect\<close>; \<open>None\<close>
  stands for the source's -1.\<close>

function find_symtab_from :: "env \<Rightarrow> elf_info \<Rightarrow> nat \<Rightarrow> nat option op" where
  "find_symtab_from E info k s =
     (if k < unat (eh_shnum (read_elf_header (mem s) (elfloader_ehdr E))) then
        and_then (get_elf_section_header E info (of_nat k) (sect E)) (\<lambda>ok s1.
          if \<not> ok then panic E ''Error reading section header'' [] s1
          else if sh_type (read_section_header (mem s1) (sect E)) = SHT_SYMTAB then Ret (Some k) s1
          else find_symtab_from E info (Suc k) s1) s
      else Ret None s)"
  by pat_completeness auto
termination
  by (relation "measure (\<lambda>(E, info, k, s). 2 ^ 16 - k)") (auto dest: uint16_measure)

declare find_symtab_from.simps [simp del]

text \<open>The second half: the two tables.\<close>

definition load_tables :: "env \<Rightarrow> elf_info \<Rightarrow> elf_section_header \<Rightarrow> unit op" where
  "load_tables E info sym_hdr =
     and_then (get_elf_section_header E info (sh_link sym_hdr) (str_hdr E)) (\<lambda>ok s1.
       if \<not> ok then panic E ''Error reading string table header'' [] s1
       else
         let p = info_p info; str = read_section_header (mem s1) (str_hdr E) in
         if sh_size str > of_nat MAX_USER_STRTAB then panic E ''String table buffer overflow'' [] s1
         else
           and_then (elf_fpread E info (p + p_strtab) (sh_size str) (sh_off str)) (\<lambda>r s2.
             if r \<noteq> sh_size str then panic E ''Failed to load string table'' [] s2
             else
               let s3 = s2\<lparr>mem := write64 (mem s2) (p + p_strtab_sz)
                          (sh_size (read_section_header (mem s2) (str_hdr E)))\<rparr> in
               if sh_entsize sym_hdr = 0 then Undef DivByZero
               else
                 let count = sh_size sym_hdr div sh_entsize sym_hdr in
                 if count > of_nat MAX_USER_SYMS then panic E ''Too many symbols'' [] s3
                 else if sh_entsize sym_hdr \<noteq> sizeof_elf_symbol then
                   panic E ''Symbol entry size mismatch'' [] s3
                 else
                   and_then (elf_fpread E info (p + p_symtab) (sh_size sym_hdr) (sh_off sym_hdr)) (\<lambda>r s4.
                     if r \<noteq> sh_size sym_hdr then panic E ''Failed to load symbol table'' [] s4
                     else Ret () (s4\<lparr>mem := write64 (mem s4) (p + p_sym_count) count\<rparr>)) s3) s1)"

definition load_user_symbols :: "env \<Rightarrow> elf_info \<Rightarrow> unit op" where
  "load_user_symbols E info s =
     (if eh_shnum (read_elf_header (mem s) (elfloader_ehdr E)) = 0 then Ret () s
      else
        and_then (find_symtab_from E info 0) (\<lambda>sym_idx s1.
          case sym_idx of
            None \<Rightarrow> Ret () s1
          | Some k \<Rightarrow> load_tables E info (read_section_header (mem s1) (sect E)) s1) s)"

subsection \<open>Command line and loading\<close>

text \<open>The copy loop of \<^verbatim>\<open>parse_args\<close>; a word past the end of the buffer is out of bounds.\<close>

function parse_args_loop :: "uint64 \<Rightarrow> nat \<Rightarrow> nat \<Rightarrow> memory \<Rightarrow> undef + memory" where
  "parse_args_loop buf pk_argc i m =
     (if 1 + i < pk_argc then
        (if MAX_CMDLINE_ARGS \<le> 2 + i then Inl BufOverflow
         else parse_args_loop buf pk_argc (Suc i)
                (write64 m (buf + of_nat (8 * i)) (read64 m (buf + of_nat (8 * (2 + i))))))
      else Inr m)"
  by pat_completeness auto
termination by (relation "measure (\<lambda>(buf, n, i, m). n - i)") auto

declare parse_args_loop.simps [simp del]

definition parse_args :: "env \<Rightarrow> uint64 op" where
  "parse_args E =
     and_then (frontend_syscall E HTIFSYS_getmainvars [arg_bug_msg E, 512, 0, 0, 0, 0, 0]) (\<lambda>r.
       seq (kassert E (r = 0) ''r == 0'') (\<lambda>s.
         let pk_argc = read64 (mem s) (arg_bug_msg E) in
         case parse_args_loop (arg_bug_msg E) (unat pk_argc) 0 (mem s) of
           Inl u \<Rightarrow> Undef u
         | Inr m \<Rightarrow> Ret (pk_argc - 1) (s\<lparr>mem := m\<rparr>)))"

definition load_bincode_from_host_elf :: "env \<Rightarrow> uint64 \<Rightarrow> unit op" where
  "load_bincode_from_host_elf E p =
     and_then (parse_args E) (\<lambda>argc s.
       if argc = 0 then panic E (''You need to specify the application program!'' @ ''\<newline>'') [] s
       else
         let argv0 = read64 (mem s) (arg_bug_msg E) in
         seq (with_string argv0 (\<lambda>name. sprint E ''Application: %s\<newline>'' [VaStr name]))
           (and_then (spike_file_open E argv0 O_RDONLY 0) (\<lambda>f s1.
             let info = \<lparr>info_f = f, info_p = p\<rparr> in
             if is_err_value f then
               panic E (''Fail on openning the input application program.'' @ ''\<newline>'') [] s1
             else
               and_then (elf_init E info) (\<lambda>st s2.
                 if st \<noteq> EL_OK then panic E (''fail to init elfloader.'' @ ''\<newline>'') [] s2
                 else
                   and_then (elf_load E info) (\<lambda>st s3.
                     if st \<noteq> EL_OK then panic E (''Fail on loading elf.'' @ ''\<newline>'') [] s3
                     else
                       seq (load_user_symbols E info) (\<lambda>s4.
                         let s5 = s4\<lparr>mem := write64 (mem s4) (tf_of (mem s4) p + tf_epc)
                                    (eh_entry (read_elf_header (mem s4) (elfloader_ehdr E)))\<rparr>
                         in seq (spike_file_close E f) (\<lambda>s6.
                              sprint E ''Application program entry point (virtual address): 0x%lx\<newline>''
                                [VaWord (read64 (mem s6) (tf_of (mem s6) p + tf_epc))] s6) s5) s3) s2) s1)) s)"

end
