(* ===== verification/ElfCorrect.thy ===== *)
theory ElfCorrect
  imports Elf
begin

text \<open>
  Correctness of the ELF loader against an abstract loader that works on the bytes of the file.
  The host is a parameter; \<open>serves\<close> states what the loader relies on, the documented
  behaviour of \<^verbatim>\<open>pread\<close>: the bytes of the file from the offset on, at most as many as asked for,
  are copied to the buffer and counted.
\<close>

subsection \<open>Reading through the host\<close>

definition file_bytes :: "uint8 list \<Rightarrow> nat \<Rightarrow> nat \<Rightarrow> uint8 list" where
  "file_bytes file off n = take n (drop off file)"

definition serves :: "env \<Rightarrow> int32 \<Rightarrow> uint8 list \<Rightarrow> bool" where
  "serves E fd file \<longleftrightarrow>
     (\<forall>buf n off m. fesvr E [HTIFSYS_pread, scast fd, buf, n, off, 0, 0, 0] m =
        (of_nat (length (file_bytes file (unat off) (unat n))), write_bytes m buf (file_bytes file (unat off) (unat n))))"

lemma length_file_bytes: "length (file_bytes file off n) = min n (length file - off)"
  by (simp add: file_bytes_def min.commute)

text \<open>The open file of the loader, and the state after a read from it.\<close>

definition loading :: "env \<Rightarrow> elf_info \<Rightarrow> uint8 list \<Rightarrow> kstate \<Rightarrow> bool" where
  "loading E info file s \<longleftrightarrow> fs_lock s = 0
     \<and> (\<exists>f. info_f info = File f \<and> serves E (kfd (spike_files s ! f)) file)"

definition pread_state :: "elf_info \<Rightarrow> uint64 \<Rightarrow> uint64 \<Rightarrow> uint64 \<Rightarrow> uint8 list \<Rightarrow> kstate \<Rightarrow> kstate" where
  "pread_state info dest nb off file s =
     (case info_f info of
        File f \<Rightarrow> s\<lparr>mem := write_bytes (mem s) dest (file_bytes file (unat off) (unat nb)),
            trace := trace s @ [HostCall [HTIFSYS_pread, scast (kfd (spike_files s ! f)), dest, nb, off, 0, 0, 0]]\<rparr>
      | ErrPtr _ \<Rightarrow> s)"

lemma pread_state_fields [simp]:
  "fs_lock (pread_state info dest nb off file s) = fs_lock s"
  "spike_files (pread_state info dest nb off file s) = spike_files s"
  "spike_fds (pread_state info dest nb off file s) = spike_fds s"
  "current (pread_state info dest nb off file s) = current s"
  "csr (pread_state info dest nb off file s) = csr s"
  "htif (pread_state info dest nb off file s) = htif s"
  "console (pread_state info dest nb off file s) = console s"
  by (simp_all add: pread_state_def console_def split: file_ptr.split)

lemma pread_state_mem:
  "loading E info file s \<Longrightarrow>
    mem (pread_state info dest nb off file s) = write_bytes (mem s) dest (file_bytes file (unat off) (unat nb))"
  by (auto simp: loading_def pread_state_def)

lemma pread_state_loading [simp]:
  "loading E info file s \<Longrightarrow> loading E info file (pread_state info dest nb off file s)"
  by (auto simp: loading_def)

lemma elf_fpread_eq:
  assumes "loading E info file s"
  shows "elf_fpread E info dest nb off s =
    Ret (of_nat (length (file_bytes file (unat off) (unat nb)))) (pread_state info dest nb off file s)"
  using assms
  by (auto simp: loading_def elf_fpread_def spike_file_pread_def frontend_syscall_free serves_def pread_state_def)

lemma pread_full_iff:
  "(of_nat (length (file_bytes file off (unat nb))) :: uint64) = nb \<longleftrightarrow> length (file_bytes file off (unat nb)) = unat nb"
proof -
  have "length (file_bytes file off (unat nb)) < 2 ^ 64"
    using unat_bound64 [of nb] by (simp add: length_file_bytes)
  then have "unat (of_nat (length (file_bytes file off (unat nb))) :: uint64) = length (file_bytes file off (unat nb))"
    by (intro unat_of_nat_small) simp
  then show ?thesis by (simp add: word_unat_eq_iff)
qed

subsection \<open>Headers as bytes\<close>

definition ph_of_bytes :: "uint8 list \<Rightarrow> elf_prog_header" where
  "ph_of_bytes bs = read_prog_header (write_bytes (\<lambda>_. 0) 0 bs) 0"

lemma read_prog_header_bytes:
  assumes "length bs = 56"
  shows "read_prog_header (write_bytes m a bs) a = ph_of_bytes bs"
proof -
  have sub: "read_bytes (write_bytes m a bs) (a + of_nat j) k = read_bytes (write_bytes (\<lambda>_. 0) 0 bs) (of_nat j) k"
    if "j + k \<le> 56" for j k
    using read_write_bytes_sub [of j k bs m a] read_write_bytes_sub [of j k bs "\<lambda>_. 0" 0] assms that
    by simp
  show ?thesis
    using sub [of 0 4] sub [of 4 4] sub [of 8 8] sub [of 16 8] sub [of 24 8] sub [of 32 8] sub [of 40 8] sub [of 48 8]
    by (simp add: ph_of_bytes_def read_prog_header_def read32_def read64_def)
qed

subsection \<open>Loading segments\<close>

text \<open>The abstract loader: the segments of the file, in order, copied to their addresses, up to the end of the
  headers or, if \<open>short\<close>, up to a header that is not in the file.  A segment is taken with its size in memory, as the
  code takes it.\<close>

fun load_segments :: "uint8 list \<Rightarrow> bool \<Rightarrow> elf_prog_header list \<Rightarrow> memory \<Rightarrow> elf_status \<times> memory" where
  "load_segments file short [] m = (if short then EL_EIO else EL_OK, m)"
| "load_segments file short (ph # phs) m =
     (if ph_type ph \<noteq> ELF_PROG_LOAD then load_segments file short phs m
      else if ph_memsz ph < ph_filesz ph \<or> ph_vaddr ph + ph_memsz ph < ph_vaddr ph then (EL_ERR, m)
      else
        let bs = file_bytes file (unat (ph_off ph)) (unat (ph_memsz ph));
            m' = write_bytes m (ph_vaddr ph) bs
        in if length bs \<noteq> unat (ph_memsz ph) then (EL_EIO, m') else load_segments file short phs m')"

text \<open>The program headers of a file: where the loader looks for each, an \<^verbatim>\<open>int\<close> that is widened with its sign, and those it
  finds, up to the first that is not in the file.\<close>

definition header_off :: "uint64 \<Rightarrow> nat \<Rightarrow> nat" where
  "header_off phoff i = unat (scast (ucast phoff + 56 * of_nat i :: int32) :: uint64)"

definition has_header :: "uint8 list \<Rightarrow> uint64 \<Rightarrow> nat \<Rightarrow> bool" where
  "has_header file phoff i \<longleftrightarrow> header_off phoff i + 56 \<le> length file"

definition prog_header :: "uint8 list \<Rightarrow> uint64 \<Rightarrow> nat \<Rightarrow> elf_prog_header" where
  "prog_header file phoff i = ph_of_bytes (file_bytes file (header_off phoff i) 56)"

definition headers_from :: "uint8 list \<Rightarrow> uint64 \<Rightarrow> nat \<Rightarrow> nat \<Rightarrow> elf_prog_header list" where
  "headers_from file phoff i n = map (prog_header file phoff) (takeWhile (has_header file phoff) [i..<n])"

definition cut_from :: "uint8 list \<Rightarrow> uint64 \<Rightarrow> nat \<Rightarrow> nat \<Rightarrow> bool" where
  "cut_from file phoff i n \<longleftrightarrow> (\<exists>j\<in>set [i..<n]. \<not> has_header file phoff j)"

definition prog_headers :: "uint8 list \<Rightarrow> uint64 \<Rightarrow> nat \<Rightarrow> elf_prog_header list" where
  "prog_headers file phoff n = headers_from file phoff 0 n"

definition headers_cut :: "uint8 list \<Rightarrow> uint64 \<Rightarrow> nat \<Rightarrow> bool" where
  "headers_cut file phoff n \<longleftrightarrow> (\<exists>j<n. \<not> has_header file phoff j)"

lemma headers_step:
  assumes "i < n"
  shows "headers_from file phoff i n =
      (if has_header file phoff i then prog_header file phoff i # headers_from file phoff (Suc i) n else [])"
    and "cut_from file phoff i n \<longleftrightarrow> \<not> has_header file phoff i \<or> cut_from file phoff (Suc i) n"
  unfolding headers_from_def cut_from_def upt_conv_Cons [OF assms] by simp_all

text \<open>Two states that differ at most in memory and in what was requested of the host, with the same
  console.\<close>

definition mem_only :: "kstate \<Rightarrow> kstate \<Rightarrow> bool" where
  "mem_only s t \<longleftrightarrow> (\<exists>m tr. t = s\<lparr>mem := m, trace := tr\<rparr>) \<and> console t = console s"

lemma mem_only_refl [simp]: "mem_only s s"
  unfolding mem_only_def by (intro conjI exI [of _ "mem s"] exI [of _ "trace s"]) simp_all

lemma mem_onlyI: "concat (map event_text tr) = console s \<Longrightarrow> mem_only s (s\<lparr>mem := m, trace := tr\<rparr>)"
  unfolding mem_only_def by (auto simp: console_def)

lemma mem_only_trans:
  assumes "mem_only s t" and "mem_only t u"
  shows "mem_only s u"
proof -
  obtain m tr m' tr' where "t = s\<lparr>mem := m, trace := tr\<rparr>" "u = t\<lparr>mem := m', trace := tr'\<rparr>"
    using assms unfolding mem_only_def by blast
  then have "u = s\<lparr>mem := m', trace := tr'\<rparr>" by simp
  moreover have "console u = console s" using assms by (simp add: mem_only_def)
  ultimately show ?thesis by (auto simp: mem_only_def)
qed

lemma mem_only_fields:
  assumes "mem_only s t"
  shows "fs_lock t = fs_lock s" "spike_files t = spike_files s" "spike_fds t = spike_fds s" "csr t = csr s"
    "gpr t = gpr s" "current t = current s" "htif t = htif s" "console t = console s" "priv t = priv s"
  using assms by (auto simp: mem_only_def)

lemma mem_only_pread [simp]: "mem_only s (pread_state info dest nb off file s)"
proof -
  have "\<exists>m tr. pread_state info dest nb off file s = s\<lparr>mem := m, trace := tr\<rparr>"
    using mem_only_refl [of s] unfolding mem_only_def pread_state_def by (cases "info_f info") auto
  then show ?thesis by (simp add: mem_only_def)
qed

text \<open>The place of the ELF header, the loader's scratch header, and the segments.\<close>

definition load_layout :: "env \<Rightarrow> elf_prog_header list \<Rightarrow> bool" where
  "load_layout E phs \<longleftrightarrow> apart (ph_addr E) 56 (elfloader_ehdr E) 64
     \<and> (\<forall>ph\<in>set phs. ph_type ph = ELF_PROG_LOAD \<longrightarrow>
          apart (ph_vaddr ph) (unat (ph_memsz ph)) (elfloader_ehdr E) 64)"

abbreviation phnum_at :: "env \<Rightarrow> memory \<Rightarrow> uint16" where
  "phnum_at E m \<equiv> eh_phnum (read_elf_header m (elfloader_ehdr E))"

lemma phnum_at_write:
  assumes "apart a (length bs) (elfloader_ehdr E) 64"
  shows "phnum_at E (write_bytes m a bs) = phnum_at E m"
  using apart_sub [OF assms, of 0 "length bs" 56 2]
  by (simp add: read_elf_header_def read16_write_bytes_apart)

lemma elf_load_header:
  fixes phoff i
  defines "off \<equiv> ucast phoff + 56 * of_nat i :: int32"
  assumes "loading E info file s" and "only_changes (ph_addr E) 56 m (mem s)" and "load_layout E phs"
  shows "\<exists>s1. elf_fpread E info (ph_addr E) sizeof_elf_prog_header (scast off) s =
      Ret (of_nat (length (file_bytes file (header_off phoff i) 56))) s1
    \<and> loading E info file s1 \<and> mem_only s s1 \<and> only_changes (ph_addr E) 56 m (mem s1)
    \<and> phnum_at E (mem s1) = phnum_at E (mem s)
    \<and> (has_header file phoff i \<longrightarrow> read_prog_header (mem s1) (ph_addr E) = prog_header file phoff i)"
proof -
  let ?bs = "file_bytes file (header_off phoff i) 56"
  define s1 where "s1 = pread_state info (ph_addr E) sizeof_elf_prog_header (scast off) file s"
  have off: "unat (scast off :: uint64) = header_off phoff i"
    by (simp add: header_off_def off_def)
  have len: "length ?bs \<le> 56" by (simp add: length_file_bytes)
  have mem1: "mem s1 = write_bytes (mem s) (ph_addr E) ?bs"
    unfolding s1_def pread_state_mem [OF assms(2)] off by (simp add: sizeof_elf_prog_header_def)
  have "elf_fpread E info (ph_addr E) sizeof_elf_prog_header (scast off) s = Ret (of_nat (length ?bs)) s1"
    unfolding s1_def elf_fpread_eq [OF assms(2)] off by (simp add: sizeof_elf_prog_header_def)
  moreover have "only_changes (ph_addr E) 56 (mem s) (mem s1)"
    unfolding mem1 using only_changes_mono [of "ph_addr E" 0 "length ?bs" "mem s" _ 56] only_changes_write_bytes len by simp
  then have "only_changes (ph_addr E) 56 m (mem s1)"
    by (rule only_changes_trans [OF assms(3)])
  moreover have "apart (ph_addr E) (length ?bs) (elfloader_ehdr E) 64"
    using assms(4) apart_sub [of "ph_addr E" 56 "elfloader_ehdr E" 64 0 "length ?bs" 0 64] len
    by (simp add: load_layout_def)
  then have "phnum_at E (mem s1) = phnum_at E (mem s)"
    by (simp add: mem1 phnum_at_write)
  moreover have "read_prog_header (mem s1) (ph_addr E) = prog_header file phoff i" if "has_header file phoff i"
    unfolding mem1 prog_header_def
    by (rule read_prog_header_bytes) (use that in \<open>simp add: has_header_def length_file_bytes\<close>)
  ultimately show ?thesis
    using assms(2) by (intro exI [of _ s1]) (simp add: s1_def)
qed

lemma full_header_iff:
  "(of_nat (length (file_bytes file (header_off phoff i) 56)) :: uint64) = sizeof_elf_prog_header \<longleftrightarrow> has_header file phoff i"
  using pread_full_iff [of "file" "header_off phoff i" 56]
  by (auto simp: sizeof_elf_prog_header_def length_file_bytes has_header_def)

lemma elf_load_segment:
  assumes load1: "loading E info file s1" and ch1: "only_changes (ph_addr E) 56 m (mem s1)"
    and num1: "unat (phnum_at E (mem s1)) = n" and s1: "mem_only s s1"
    and seg: "ph_type ph = ELF_PROG_LOAD \<Longrightarrow> apart (ph_vaddr ph) (unat (ph_memsz ph)) (elfloader_ehdr E) 64"
    and rest: "\<And>u mu. loading E info file u \<Longrightarrow> only_changes (ph_addr E) 56 mu (mem u) \<Longrightarrow>
      unat (phnum_at E (mem u)) = n \<Longrightarrow> mem_only s u \<Longrightarrow>
      \<exists>t. rest u = Ret (fst (load_segments file short phs mu)) t
        \<and> only_changes (ph_addr E) 56 (snd (load_segments file short phs mu)) (mem t) \<and> mem_only s t"
  shows "\<exists>t. (if ph_type ph \<noteq> ELF_PROG_LOAD then rest s1
       else if ph_memsz ph < ph_filesz ph \<or> ph_vaddr ph + ph_memsz ph < ph_vaddr ph then Ret EL_ERR s1
       else and_then (elf_fpread E info (ph_vaddr ph) (ph_memsz ph) (ph_off ph)) (\<lambda>r2 s2.
         if r2 \<noteq> ph_memsz ph then Ret EL_EIO s2 else rest s2) s1) =
      Ret (fst (load_segments file short (ph # phs) m)) t
    \<and> only_changes (ph_addr E) 56 (snd (load_segments file short (ph # phs) m)) (mem t) \<and> mem_only s t"
proof (cases "ph_type ph \<noteq> ELF_PROG_LOAD \<or> ph_memsz ph < ph_filesz ph \<or> ph_vaddr ph + ph_memsz ph < ph_vaddr ph")
  case True
  then show ?thesis using rest [OF load1 ch1 num1 s1] ch1 s1 by auto
next
  case False
  let ?bs = "file_bytes file (unat (ph_off ph)) (unat (ph_memsz ph))"
  define s2 where "s2 = pread_state info (ph_vaddr ph) (ph_memsz ph) (ph_off ph) file s1"
  have mem2: "mem s2 = write_bytes (mem s1) (ph_vaddr ph) ?bs"
    unfolding s2_def by (rule pread_state_mem [OF load1])
  have load2: "loading E info file s2"
    using load1 by (simp add: s2_def)
  have ch2: "only_changes (ph_addr E) 56 (write_bytes m (ph_vaddr ph) ?bs) (mem s2)"
    unfolding mem2 by (rule only_changes_write_both [OF ch1])
  have s2: "mem_only s s2"
    using mem_only_trans [OF s1] by (simp add: s2_def)
  have "length ?bs \<le> unat (ph_memsz ph)"
    by (simp add: length_file_bytes)
  then have "apart (ph_vaddr ph) (length ?bs) (elfloader_ehdr E) 64"
    using apart_sub [OF seg, of 0 "length ?bs" 0 64] False by simp
  then have num2: "unat (phnum_at E (mem s2)) = n"
    using num1 by (simp add: mem2 phnum_at_write)
  show ?thesis
    using rest [OF load2 ch2 num2 s2] ch2 s2 False
    by (simp add: Let_def elf_fpread_eq [OF load1] pread_full_iff flip: s2_def)
qed

lemma elf_load_from_eq:
  assumes "loading E info file s" and "only_changes (ph_addr E) 56 m (mem s)"
    and "unat (phnum_at E (mem s)) = n" and "i \<le> n" and "load_layout E (headers_from file phoff i n)"
  shows "\<exists>t. elf_load_from E info i (ucast phoff + 56 * of_nat i) s =
      Ret (fst (load_segments file (cut_from file phoff i n) (headers_from file phoff i n) m)) t
    \<and> only_changes (ph_addr E) 56 (snd (load_segments file (cut_from file phoff i n) (headers_from file phoff i n) m)) (mem t)
    \<and> mem_only s t"
  using assms
proof (induction "n - i" arbitrary: i s m)
  case 0
  then have "i = n" by simp
  with 0 have "elf_load_from E info i (ucast phoff + 56 * of_nat i) s = Ret EL_OK s"
    by (subst elf_load_from.simps) simp
  with 0 \<open>i = n\<close> show ?case by (simp add: headers_from_def cut_from_def)
next
  case (Suc k)
  then have lt: "i < n" by simp
  let ?off = "ucast phoff + 56 * of_nat i :: int32" and ?ph = "prog_header file phoff i"
  let ?phs = "headers_from file phoff (Suc i) n" and ?cut = "cut_from file phoff (Suc i) n"
  obtain s1 where read: "elf_fpread E info (ph_addr E) sizeof_elf_prog_header (scast ?off) s =
      Ret (of_nat (length (file_bytes file (header_off phoff i) 56))) s1"
    and load1: "loading E info file s1" and s1: "mem_only s s1" and ch1: "only_changes (ph_addr E) 56 m (mem s1)"
    and num1: "unat (phnum_at E (mem s1)) = n"
    and ph: "has_header file phoff i \<Longrightarrow> read_prog_header (mem s1) (ph_addr E) = ?ph"
    using elf_load_header [OF Suc.prems(1,2,5), of phoff i] Suc.prems(3) by auto
  have step: "?off + 56 = ucast phoff + 56 * of_nat (Suc i)" by simp
  have loop: "elf_load_from E info i ?off s =
      (if \<not> has_header file phoff i then Ret EL_EIO s1
       else if ph_type ?ph \<noteq> ELF_PROG_LOAD then elf_load_from E info (Suc i) (ucast phoff + 56 * of_nat (Suc i)) s1
       else if ph_memsz ?ph < ph_filesz ?ph \<or> ph_vaddr ?ph + ph_memsz ?ph < ph_vaddr ?ph then Ret EL_ERR s1
       else and_then (elf_fpread E info (ph_vaddr ?ph) (ph_memsz ?ph) (ph_off ?ph)) (\<lambda>r2 s2.
         if r2 \<noteq> ph_memsz ?ph then Ret EL_EIO s2
         else elf_load_from E info (Suc i) (ucast phoff + 56 * of_nat (Suc i)) s2) s1)"
    unfolding step [symmetric] using lt Suc.prems(3) ph
    by (subst elf_load_from.simps) (auto simp: read full_header_iff Let_def elf_alloc_mb_def simp del: of_nat_Suc)
  show ?case
  proof (cases "has_header file phoff i")
    case False
    then show ?thesis
      using ch1 s1 unfolding loop headers_step [OF lt] by simp
  next
    case True
    note hs = headers_step [OF lt, of "file" phoff]
    have lay: "load_layout E ?phs"
      and seg: "ph_type ?ph = ELF_PROG_LOAD \<Longrightarrow> apart (ph_vaddr ?ph) (unat (ph_memsz ?ph)) (elfloader_ehdr E) 64"
      using Suc.prems(5) True unfolding hs by (simp_all add: load_layout_def)
    have IH: "\<exists>t. elf_load_from E info (Suc i) (ucast phoff + 56 * of_nat (Suc i)) u =
        Ret (fst (load_segments file ?cut ?phs mu)) t
        \<and> only_changes (ph_addr E) 56 (snd (load_segments file ?cut ?phs mu)) (mem t) \<and> mem_only s t"
      if "loading E info file u" "only_changes (ph_addr E) 56 mu (mem u)" "unat (phnum_at E (mem u)) = n" "mem_only s u" for u mu
    proof -
      have "k = n - Suc i" and "Suc i \<le> n" using Suc.hyps(2) lt by simp_all
      then show ?thesis
        using Suc.hyps(1) [OF _ that(1-3) _ lay] mem_only_trans [OF that(4)] by blast
    qed
    show ?thesis
      using elf_load_segment [where rest = "elf_load_from E info (Suc i) (ucast phoff + 56 * of_nat (Suc i))",
          OF load1 ch1 num1 s1 seg IH] True
      unfolding loop hs by (simp only: not_True_eq_False if_False if_True simp_thms)
  qed
qed

text \<open>What it takes for a segment to be loaded, and that loading one does not disturb another.\<close>

definition is_load :: "elf_prog_header \<Rightarrow> bool" where
  "is_load ph \<longleftrightarrow> ph_type ph = ELF_PROG_LOAD"

definition loadable :: "uint8 list \<Rightarrow> elf_prog_header \<Rightarrow> bool" where
  "loadable file ph \<longleftrightarrow> ph_filesz ph \<le> ph_memsz ph \<and> ph_vaddr ph \<le> ph_vaddr ph + ph_memsz ph
     \<and> (ph_memsz ph = 0 \<or> unat (ph_off ph) + unat (ph_memsz ph) \<le> length file)"

definition segments_apart :: "elf_prog_header list \<Rightarrow> bool" where
  "segments_apart phs \<longleftrightarrow>
     sorted_wrt (\<lambda>a b. apart (ph_vaddr a) (unat (ph_memsz a)) (ph_vaddr b) (unat (ph_memsz b))) (filter is_load phs)"

lemma file_bytes_full: "length (file_bytes file off n) = n \<longleftrightarrow> n = 0 \<or> off + n \<le> length file"
  by (auto simp: length_file_bytes min_def)

lemma load_segments_ok_iff:
  "fst (load_segments file short phs m) = EL_OK \<longleftrightarrow> \<not> short \<and> (\<forall>ph\<in>set phs. is_load ph \<longrightarrow> loadable file ph)"
  by (induction phs arbitrary: m)
    (auto simp: loadable_def is_load_def Let_def file_bytes_full not_less unat_eq_0)

lemma load_segments_cut:
  "\<forall>ph\<in>set phs. is_load ph \<longrightarrow> loadable file ph \<Longrightarrow> fst (load_segments file True phs m) = EL_EIO"
  by (induction phs arbitrary: m)
    (auto simp: loadable_def is_load_def Let_def file_bytes_full not_less unat_eq_0)

lemma load_segments_frame:
  assumes "\<And>ph. ph \<in> set phs \<Longrightarrow> is_load ph \<Longrightarrow> apart (ph_vaddr ph) (unat (ph_memsz ph)) b k"
  shows "read_bytes (snd (load_segments file short phs m)) b k = read_bytes m b k"
  using assms
proof (induction phs arbitrary: m)
  case (Cons ph phs)
  let ?bs = "file_bytes file (unat (ph_off ph)) (unat (ph_memsz ph))"
  have "read_bytes (write_bytes m (ph_vaddr ph) ?bs) b k = read_bytes m b k" if "is_load ph"
    using apart_sub [OF Cons.prems [of ph], of 0 "length ?bs" 0 k] that
    by (intro read_write_bytes_apart) (simp add: length_file_bytes)
  with Cons show ?case by (simp add: Let_def is_load_def)
qed simp

lemma load_segments_image:
  assumes "fst (load_segments file short phs m) = EL_OK" and "segments_apart phs" and "ph \<in> set phs" and "is_load ph"
  shows "read_bytes (snd (load_segments file short phs m)) (ph_vaddr ph) (unat (ph_memsz ph)) =
    file_bytes file (unat (ph_off ph)) (unat (ph_memsz ph))"
  using assms
proof (induction phs arbitrary: m)
  case (Cons q qs)
  show ?case
  proof (cases "is_load q")
    case True
    let ?bs = "file_bytes file (unat (ph_off q)) (unat (ph_memsz q))"
    let ?m = "write_bytes m (ph_vaddr q) ?bs"
    have ok: "load_segments file short (q # qs) m = load_segments file short qs ?m"
      and full: "length ?bs = unat (ph_memsz q)" and rest: "fst (load_segments file short qs ?m) = EL_OK"
      using Cons.prems(1) True by (simp_all add: is_load_def Let_def split: if_splits)
    have "read_bytes ?m (ph_vaddr q) (unat (ph_memsz q)) = ?bs"
      using read_write_bytes_same [of ?bs ?m "ph_vaddr q"] read_write_bytes_same [of ?bs m "ph_vaddr q"]
        full unat_bound64 [of "ph_memsz q"] by simp
    moreover have "apart (ph_vaddr r) (unat (ph_memsz r)) (ph_vaddr q) (unat (ph_memsz q))"
      if "r \<in> set qs" "is_load r" for r
      using Cons.prems(2) True that by (simp add: segments_apart_def) (metis apart_sym)
    ultimately have "read_bytes (snd (load_segments file short qs ?m)) (ph_vaddr q) (unat (ph_memsz q)) = ?bs"
      using load_segments_frame [of qs "ph_vaddr q" "unat (ph_memsz q)" "file" short ?m] by simp
    then show ?thesis
      using Cons.IH [OF rest] Cons.prems(2-4) True unfolding ok by (auto simp: segments_apart_def)
  next
    case False
    with Cons show ?thesis by (auto simp: is_load_def segments_apart_def)
  qed
qed simp

lemma headers_cut_from: "headers_cut file phoff n \<longleftrightarrow> cut_from file phoff 0 n"
  by (auto simp: headers_cut_def cut_from_def)

lemma elf_load_eq:
  assumes "loading E info file s"
    and "phoff = eh_phoff (read_elf_header (mem s) (elfloader_ehdr E))"
    and "n = unat (phnum_at E (mem s))"
    and "load_layout E (prog_headers file phoff n)"
  shows "\<exists>t. elf_load E info s = Ret (fst (load_segments file (headers_cut file phoff n) (prog_headers file phoff n) (mem s))) t
    \<and> only_changes (ph_addr E) 56
        (snd (load_segments file (headers_cut file phoff n) (prog_headers file phoff n) (mem s))) (mem t)
    \<and> mem_only s t"
  using elf_load_from_eq [of E info "file" s "mem s" n 0 phoff] assms
  by (simp add: elf_load_def prog_headers_def headers_cut_from)

subsection \<open>Symbol tables\<close>

text \<open>A panic with a plain message.\<close>

definition panics :: "(kstate, 'a) outcome \<Rightarrow> string \<Rightarrow> kstate \<Rightarrow> bool" where
  "panics r msg s \<longleftrightarrow> (\<exists>t. r = Halt (Exit (- 1)) t
     \<and> console t = console s @ clip (msg @ ''\<newline>'') @ clip (shutdown_message (- 1)))"

lemma panic_panics:
  assumes "fs_lock s = 0" and "CHR ''%'' \<notin> set msg" and "console s = console u"
  shows "panics (panic E msg args s) msg u"
  using assms by (simp add: panics_def panic_def do_panic_literal console_halted)

definition sect_off :: "elf_header \<Rightarrow> int32 \<Rightarrow> nat" where
  "sect_off eh idx = unat (eh_shoff eh + scast (idx * ucast (eh_shentsize eh)))"

definition has_section :: "uint8 list \<Rightarrow> elf_header \<Rightarrow> int32 \<Rightarrow> bool" where
  "has_section file eh idx \<longleftrightarrow> sect_off eh idx + 64 \<le> length file"

definition sh_of_bytes :: "uint8 list \<Rightarrow> elf_section_header" where
  "sh_of_bytes bs = read_section_header (write_bytes (\<lambda>_. 0) 0 bs) 0"

definition section_header :: "uint8 list \<Rightarrow> elf_header \<Rightarrow> int32 \<Rightarrow> elf_section_header" where
  "section_header file eh idx = sh_of_bytes (file_bytes file (sect_off eh idx) 64)"

lemma read_section_header_bytes:
  assumes "length bs = 64"
  shows "read_section_header (write_bytes m a bs) a = sh_of_bytes bs"
proof -
  have sub: "read_bytes (write_bytes m a bs) (a + of_nat j) k = read_bytes (write_bytes (\<lambda>_. 0) 0 bs) (of_nat j) k"
    if "j + k \<le> 64" for j k
    using read_write_bytes_sub [of j k bs m a] read_write_bytes_sub [of j k bs "\<lambda>_. 0" 0] assms that
    by simp
  show ?thesis
    using sub [of 0 4] sub [of 4 4] sub [of 8 8] sub [of 16 8] sub [of 24 8] sub [of 32 8] sub [of 40 4]
      sub [of 44 4] sub [of 48 8] sub [of 56 8]
    by (simp add: sh_of_bytes_def read_section_header_def read32_def read64_def)
qed

text \<open>What the tables of a file are: none, tables the loader rejects with a message, an entry size
  by which it cannot divide, or the headers of the symbol and of the string table.\<close>

datatype tables = NoTables | Rejected string | ZeroEntry | Tables elf_section_header elf_section_header

definition fits :: "uint8 list \<Rightarrow> elf_section_header \<Rightarrow> bool" where
  "fits file sh \<longleftrightarrow> sh_size sh = 0 \<or> unat (sh_off sh) + unat (sh_size sh) \<le> length file"

definition tables_of :: "uint8 list \<Rightarrow> elf_header \<Rightarrow> elf_section_header \<Rightarrow> tables" where
  "tables_of file eh sy =
     (let str = section_header file eh (sh_link sy) in
      if \<not> has_section file eh (sh_link sy) then Rejected ''Error reading string table header''
      else if sh_size str > 8192 then Rejected ''String table buffer overflow''
      else if \<not> fits file str then Rejected ''Failed to load string table''
      else if sh_entsize sy = 0 then ZeroEntry
      else if sh_size sy div sh_entsize sy > 512 then Rejected ''Too many symbols''
      else if sh_entsize sy \<noteq> 24 then Rejected ''Symbol entry size mismatch''
      else if \<not> fits file sy then Rejected ''Failed to load symbol table''
      else Tables sy str)"

fun symbol_tables :: "uint8 list \<Rightarrow> elf_header \<Rightarrow> nat list \<Rightarrow> tables" where
  "symbol_tables file eh [] = NoTables"
| "symbol_tables file eh (k # ks) =
     (if \<not> has_section file eh (of_nat k) then Rejected ''Error reading section header''
      else if sh_type (section_header file eh (of_nat k)) = SHT_SYMTAB
        then tables_of file eh (section_header file eh (of_nat k))
      else symbol_tables file eh ks)"

text \<open>The loader's variables and the process do not overlap.\<close>

definition symbols_layout :: "env \<Rightarrow> uint64 \<Rightarrow> bool" where
  "symbols_layout E p \<longleftrightarrow> apart (sect E) 64 (elfloader_ehdr E) 64 \<and> apart (str_hdr E) 64 (elfloader_ehdr E) 64
     \<and> apart p 20512 (str_hdr E) 64 \<and> apart (sect E) 64 p 20512"

abbreviation ehdr_at :: "env \<Rightarrow> memory \<Rightarrow> elf_header" where
  "ehdr_at E m \<equiv> read_elf_header m (elfloader_ehdr E)"

lemma read_elf_header_cong:
  assumes "\<And>j k. j + k \<le> 64 \<Longrightarrow> read_bytes m' (b + of_nat j) k = read_bytes m (a + of_nat j) k"
  shows "read_elf_header m' b = read_elf_header m a"
  using assms [of 0 4] assms [of 4 12] assms [of 16 2] assms [of 18 2] assms [of 20 4] assms [of 24 8] assms [of 32 8]
    assms [of 40 8] assms [of 48 4] assms [of 52 2] assms [of 54 2] assms [of 56 2] assms [of 58 2] assms [of 60 2]
    assms [of 62 2]
  by (simp add: read_elf_header_def read16_def read32_def read64_def)

lemma ehdr_at_write:
  assumes "apart a (length bs) (elfloader_ehdr E) 64"
  shows "ehdr_at E (write_bytes m a bs) = ehdr_at E m"
  using apart_sub [OF assms, of 0 "length bs"] by (intro read_elf_header_cong) (simp add: read_write_bytes_apart)

lemma get_elf_section_header_eq:
  assumes "loading E info file s" and "apart out 64 (elfloader_ehdr E) 64"
    and "t = pread_state info out 64 (of_nat (sect_off (ehdr_at E (mem s)) idx)) file s"
  shows "get_elf_section_header E info idx out s = Ret (has_section file (ehdr_at E (mem s)) idx) t"
    and "loading E info file t" and "mem_only s t" and "fs_lock t = 0" and "console t = console s"
    and "ehdr_at E (mem t) = ehdr_at E (mem s)"
    and "has_section file (ehdr_at E (mem s)) idx \<Longrightarrow>
      read_section_header (mem t) out = section_header file (ehdr_at E (mem s)) idx"
    and "\<And>b k. apart out 64 b k \<Longrightarrow> read_bytes (mem t) b k = read_bytes (mem s) b k"
    and "only_changes out 64 (mem s) (mem t)"
proof -
  let ?bs = "file_bytes file (sect_off (ehdr_at E (mem s)) idx) 64"
  have off: "unat (of_nat (sect_off (ehdr_at E (mem s)) idx) :: uint64) = sect_off (ehdr_at E (mem s)) idx"
    by (simp add: sect_off_def)
  have mt: "mem t = write_bytes (mem s) out ?bs"
    unfolding assms(3) pread_state_mem [OF assms(1)] off by simp
  have len: "length ?bs \<le> 64"
    by (simp add: length_file_bytes)
  show "get_elf_section_header E info idx out s = Ret (has_section file (ehdr_at E (mem s)) idx) t"
    using pread_full_iff [of "file" "sect_off (ehdr_at E (mem s)) idx" 64]
    by (simp add: get_elf_section_header_def Let_def elf_fpread_eq [OF assms(1)] ret_def assms(3)
        sizeof_elf_section_header_def sect_off_def has_section_def file_bytes_full)
  show "loading E info file t" and "mem_only s t" and "console t = console s"
    using assms by simp_all
  show "fs_lock t = 0"
    using assms by (simp add: loading_def)
  show "ehdr_at E (mem t) = ehdr_at E (mem s)"
    unfolding mt using apart_sub [OF assms(2), of 0 "length ?bs" 0 64] len by (intro ehdr_at_write) simp
  show "read_section_header (mem t) out = section_header file (ehdr_at E (mem s)) idx"
    if "has_section file (ehdr_at E (mem s)) idx"
    unfolding mt section_header_def using that
    by (intro read_section_header_bytes) (simp add: has_section_def length_file_bytes)
  show "read_bytes (mem t) b k = read_bytes (mem s) b k" if "apart out 64 b k" for b k
    unfolding mt using apart_sub [OF that, of 0 "length ?bs" 0 k] len by (intro read_write_bytes_apart) simp
  show "only_changes out 64 (mem s) (mem t)"
    unfolding mt using only_changes_mono [of out 0 "length ?bs" "mem s" _ 64] only_changes_write_bytes len by simp
qed

text \<open>What the loader leaves behind for each kind of table.  The buffer for symbols holds 512 entries, 12288 bytes;
  the check counts whole entries, so a table of up to 23 bytes more is read by the host past its end: over the count,
  which is stored afterwards, and from byte 12296 on over the string table, which was read before.\<close>

definition overlay :: "'a list \<Rightarrow> 'a list \<Rightarrow> 'a list" where
  "overlay xs ys = take (length ys) xs @ drop (length xs) ys"

lemma overlay_Nil [simp]: "overlay [] ys = ys"
  by (simp add: overlay_def)

lemma read_bytes_overlay:
  assumes "length xs \<le> 2 ^ 64" and "n \<le> 2 ^ 64" and "read_bytes m a n = ys"
  shows "read_bytes (write_bytes m a xs) a n = overlay xs ys"
proof (rule nth_equalityI)
  show "length (read_bytes (write_bytes m a xs) a n) = length (overlay xs ys)"
    using assms(3) by (auto simp: overlay_def)
  fix i assume "i < length (read_bytes (write_bytes m a xs) a n)"
  then have i: "i < n" by simp
  then have "unat (of_nat i :: uint64) = i" and "ys ! i = m (a + of_nat i)" "length ys = n"
    using assms(2,3) by (auto intro: unat_of_nat_small)
  with i show "read_bytes (write_bytes m a xs) a n ! i = overlay xs ys ! i"
    by (simp add: write_bytes_def overlay_def nth_append)
qed

definition tables_loaded :: "uint8 list \<Rightarrow> uint64 \<Rightarrow> elf_section_header \<Rightarrow> elf_section_header \<Rightarrow> memory \<Rightarrow> bool" where
  "tables_loaded file p sy str m \<longleftrightarrow>
     read64 m (p + p_sym_count) = sh_size sy div 24 \<and> read64 m (p + p_strtab_sz) = sh_size str
     \<and> read_bytes m (p + p_symtab) (24 * unat (sh_size sy div 24)) =
         file_bytes file (unat (sh_off sy)) (24 * unat (sh_size sy div 24))
     \<and> read_bytes m (p + p_strtab) (unat (sh_size str)) =
         overlay (drop 12296 (file_bytes file (unat (sh_off sy)) (unat (sh_size sy))))
           (file_bytes file (unat (sh_off str)) (unat (sh_size str)))"

lemma tables_loaded_strings:
  assumes "tables_loaded file p sy str m" and "sh_size sy \<le> 12288"
  shows "read_bytes m (p + p_strtab) (unat (sh_size str)) = file_bytes file (unat (sh_off str)) (unat (sh_size str))"
proof -
  have "unat (sh_size sy) \<le> 12288" using assms(2) by (simp add: word_le_nat_alt)
  then have "drop 12296 (file_bytes file (unat (sh_off sy)) (unat (sh_size sy))) = []"
    by (simp add: length_file_bytes)
  then show ?thesis using assms(1) by (simp add: tables_loaded_def)
qed

text \<open>What loading symbols may write: the two headers on the loader's stack, and the tables of the process.\<close>

definition table_regions :: "env \<Rightarrow> uint64 \<Rightarrow> (uint64 \<times> nat) list" where
  "table_regions E p = [(sect E, 64), (str_hdr E, 64), (p + p_symtab, 20496)]"

fun tables_outcome :: "env \<Rightarrow> uint8 list \<Rightarrow> uint64 \<Rightarrow> kstate \<Rightarrow> tables \<Rightarrow> (kstate, unit) outcome \<Rightarrow> bool" where
  "tables_outcome E file p s NoTables r \<longleftrightarrow>
     (\<exists>t. r = Ret () t \<and> mem_only s t \<and> changes_in (table_regions E p) (mem s) (mem t)
        \<and> read_bytes (mem t) p 20512 = read_bytes (mem s) p 20512)"
| "tables_outcome E file p s (Rejected msg) r \<longleftrightarrow> panics r msg s"
| "tables_outcome E file p s ZeroEntry r \<longleftrightarrow> r = Undef DivByZero"
| "tables_outcome E file p s (Tables sy str) r \<longleftrightarrow>
     (\<exists>t. r = Ret () t \<and> mem_only s t \<and> changes_in (table_regions E p) (mem s) (mem t)
        \<and> tables_loaded file p sy str (mem t))"

lemma file_bytes_take: "k \<le> n \<Longrightarrow> take k (file_bytes file off n) = file_bytes file off k"
  by (simp add: file_bytes_def min_def)

lemma fits_length: "length (file_bytes file (unat (sh_off sh)) (unat (sh_size sh))) = unat (sh_size sh) \<longleftrightarrow> fits file sh"
  by (simp add: file_bytes_full fits_def unat_eq_0)

text \<open>The memory after both tables were read.\<close>

definition tables_mem :: "uint8 list \<Rightarrow> uint64 \<Rightarrow> elf_section_header \<Rightarrow> elf_section_header \<Rightarrow> memory \<Rightarrow> memory" where
  "tables_mem file p sy str m =
     write64 (write_bytes (write64 (write_bytes m
         (p + p_strtab) (file_bytes file (unat (sh_off str)) (unat (sh_size str))))
         (p + p_strtab_sz) (sh_size str))
         (p + p_symtab) (file_bytes file (unat (sh_off sy)) (unat (sh_size sy))))
         (p + p_sym_count) (sh_size sy div 24)"

lemma count_bound:
  assumes "sh_size sy div 24 \<le> 512"
  shows "unat (sh_size sy) < 12312" and "24 * unat (sh_size sy div 24) \<le> 12288"
    and "24 * unat (sh_size sy div 24) \<le> unat (sh_size sy)"
proof -
  have "unat (sh_size sy div 24) \<le> 512" and d: "unat (sh_size sy div 24) = unat (sh_size sy) div 24"
    using assms by (simp_all add: word_le_nat_alt unat_div)
  then show "unat (sh_size sy) < 12312" and "24 * unat (sh_size sy div 24) \<le> 12288"
    and "24 * unat (sh_size sy div 24) \<le> unat (sh_size sy)"
    by simp_all
qed

text \<open>The symbols are written after the strings: what they have more than the buffer and the count after it take is
  written over the strings.\<close>

lemma tables_mem_strings:
  assumes "length xs < 12312" and "n \<le> 8192" and "length ys = n"
  shows "read_bytes (write64 (write_bytes (write64 (write_bytes m (p + p_strtab) ys) (p + p_strtab_sz) w) (p + p_symtab) xs)
      (p + p_sym_count) v) (p + p_strtab) n = overlay (drop 12296 xs) ys"
proof -
  let ?m = "write64 (write_bytes m (p + p_strtab) ys) (p + p_strtab_sz) w" and ?lo = "take 12296 xs" and ?hi = "drop 12296 xs"
  have split: "write_bytes ?m (p + p_symtab) xs = write_bytes (write_bytes ?m (p + p_symtab) ?lo) (p + p_strtab) ?hi"
  proof (cases "?hi = []")
    case False
    then have "length ?lo = 12296" by simp
    then show ?thesis
      using write_bytes_append [of ?lo ?hi ?m "p + p_symtab"] assms(1) by (simp add: const_defs add.assoc)
  qed simp
  have "apart p_sym_count 8 p_strtab n" "apart p_symtab (length ?lo) p_strtab n" "apart p_strtab n p_strtab_sz 8"
    by (rule apart_const; use assms(2) in \<open>simp add: const_defs\<close>)+
  then have eq: "read_bytes (write64 (write_bytes ?m (p + p_symtab) ?lo) (p + p_strtab_sz) w) (p + p_strtab) n = ys"
    using assms(2,3) read_write_bytes_same [of ys m "p + p_strtab"]
    by (simp add: read_bytes_write64_apart read_write_bytes_apart apart_sym [of p_strtab_sz])
  then have same: "read_bytes (write_bytes ?m (p + p_symtab) ?lo) (p + p_strtab) n = ys"
    using \<open>apart p_strtab n p_strtab_sz 8\<close> by (simp add: read_bytes_write64_apart apart_sym [of p_strtab_sz])
  have "read_bytes (write_bytes M (p + p_strtab) ?hi) (p + p_strtab) n = overlay ?hi ys"
    if "read_bytes M (p + p_strtab) n = ys" for M
    using read_bytes_overlay [OF _ _ that, of ?hi] assms(1,2) by simp
  from this [OF same] show ?thesis
    using \<open>apart p_sym_count 8 p_strtab n\<close> unfolding split by (simp add: read_bytes_write64_apart)
qed

lemma tables_mem_loaded:
  assumes "sh_size sy div 24 \<le> 512" and "sh_size str \<le> 8192" and "fits file sy" and "fits file str"
  shows "tables_loaded file p sy str (tables_mem file p sy str m)"
proof -
  let ?sy = "file_bytes file (unat (sh_off sy)) (unat (sh_size sy))"
  let ?st = "file_bytes file (unat (sh_off str)) (unat (sh_size str))"
  let ?n = "24 * unat (sh_size sy div 24)"
  note b = count_bound [OF assms(1)]
  have ls: "length ?sy = unat (sh_size sy)" and lt: "length ?st = unat (sh_size str)" "unat (sh_size str) \<le> 8192"
    using assms(2-4) by (simp_all add: fits_length word_le_nat_alt)
  have symtab: "read_bytes (write64 (write_bytes m' (p + p_symtab) ?sy) (p + p_sym_count) v) (p + p_symtab) ?n =
      file_bytes file (unat (sh_off sy)) ?n" for m' v
  proof -
    have a: "apart p_sym_count 8 p_symtab ?n"
      unfolding apart_sym [of p_sym_count] by (rule apart_const) (use b(2) in \<open>simp_all add: const_defs\<close>)
    have "length ?sy \<le> 2 ^ 64" "0 + ?n \<le> length ?sy"
      using b(1,3) unfolding ls by simp_all
    then have "read_bytes (write_bytes m' (p + p_symtab) ?sy) (p + p_symtab) ?n = take ?n ?sy"
      using read_write_bytes_sub [of 0 ?n ?sy m' "p + p_symtab"] by simp
    then show ?thesis
      using a b(3) by (simp add: read_bytes_write64_apart file_bytes_take)
  qed
  have size: "read64 (write64 (write_bytes m' (p + p_symtab) ?sy) (p + p_sym_count) v) (p + p_strtab_sz) =
      read64 m' (p + p_strtab_sz)" for m' v
  proof -
    have "apart p_sym_count 8 p_strtab_sz 8" "apart p_symtab (length ?sy) p_strtab_sz 8"
      by (rule apart_const; use b(1) ls in \<open>simp add: const_defs\<close>)+
    then show ?thesis by (simp add: read64_write64_apart read64_write_bytes_apart)
  qed
  have strtab: "read_bytes (write64 (write_bytes (write64 (write_bytes m (p + p_strtab) ?st) (p + p_strtab_sz) w) (p + p_symtab) ?sy)
      (p + p_sym_count) v) (p + p_strtab) (unat (sh_size str)) = overlay (drop 12296 ?sy) ?st" for v w
    using tables_mem_strings [OF _ lt(2) lt(1), of ?sy m p w v] b(1) ls by simp
  show ?thesis
    unfolding tables_loaded_def tables_mem_def symtab size strtab by simp
qed

lemma tables_mem_frame:
  assumes "sh_size sy div 24 \<le> 512" and "sh_size str \<le> 8192"
  shows "only_changes (p + p_symtab) 20496 m (tables_mem file p sy str m)"
proof -
  let ?sy = "file_bytes file (unat (sh_off sy)) (unat (sh_size sy))"
  let ?st = "file_bytes file (unat (sh_off str)) (unat (sh_size str))"
  have len: "length ?sy \<le> 12312" "length ?st \<le> 8192"
    using count_bound(1) [OF assms(1)] assms(2) by (simp_all add: length_file_bytes word_le_nat_alt)
  have at: "p + p_strtab = p + p_symtab + of_nat 12296" "p + p_strtab_sz = p + p_symtab + of_nat 20488"
    "p + p_sym_count = p + p_symtab + of_nat 12288"
    by (simp_all add: const_defs)
  have part: "only_changes (p + p_symtab) 20496 m' m''"
    if "only_changes (p + p_symtab + of_nat i) n m' m''" "i + n \<le> 20496" for i n m' m''
    using that by (rule only_changes_mono)
  have w: "only_changes (p + p_symtab) 20496 m' (write_bytes m' (p + p_strtab) ?st)"
    "only_changes (p + p_symtab) 20496 m' (write64 m' (p + p_strtab_sz) v)"
    "only_changes (p + p_symtab) 20496 m' (write64 m' (p + p_sym_count) v)" for m' v
    unfolding at
    by (rule part, rule only_changes_write_bytes, use len in simp,
      (rule part, rule only_changes_write64, simp)+)
  have sy: "only_changes (p + p_symtab) 20496 m' (write_bytes m' (p + p_symtab) ?sy)" for m'
    using part [of 0 "length ?sy" m' "write_bytes m' (p + p_symtab) ?sy"] only_changes_write_bytes len by simp
  show ?thesis
    unfolding tables_mem_def by (rule only_changes_trans [OF only_changes_trans [OF only_changes_trans [OF w(1) w(2)] sy] w(3)])
qed

lemma mem_only_mem: "mem_only s t \<Longrightarrow> mem_only s (t\<lparr>mem := m\<rparr>)"
  by (erule mem_only_trans) (use mem_onlyI [where s = t and m = m and tr = "trace t"] in \<open>simp add: console_def\<close>)

lemma section_header_read_apart:
  assumes "\<And>j k. j + k \<le> 64 \<Longrightarrow> read_bytes m' (a + of_nat j) k = read_bytes m (a + of_nat j) k"
  shows "read_section_header m' a = read_section_header m a"
  using assms [of 0 4] assms [of 4 4] assms [of 8 8] assms [of 16 8] assms [of 24 8] assms [of 32 8] assms [of 40 4]
    assms [of 44 4] assms [of 48 8] assms [of 56 8]
  by (simp add: read_section_header_def read32_def read64_def)

lemma load_tables_outcome:
  assumes "loading E info file s" and "symbols_layout E (info_p info)" and "fs_lock s = 0"
  shows "tables_outcome E file (info_p info) s (tables_of file (ehdr_at E (mem s)) sy) (load_tables E info sy s)"
proof -
  let ?eh = "ehdr_at E (mem s)" and ?p = "info_p info"
  let ?str = "section_header file ?eh (sh_link sy)"
  define s1 where "s1 = pread_state info (str_hdr E) 64 (of_nat (sect_off ?eh (sh_link sy))) file s"
  have apart1: "apart (str_hdr E) 64 (elfloader_ehdr E) 64"
    using assms(2) by (simp add: symbols_layout_def)
  note g = get_elf_section_header_eq [OF assms(1) apart1 s1_def]
  define s2 where "s2 = pread_state info (?p + p_strtab) (sh_size ?str) (sh_off ?str) file s1"
  define s3 where "s3 = s2\<lparr>mem := write64 (mem s2) (?p + p_strtab_sz) (sh_size ?str)\<rparr>"
  define s4 where "s4 = pread_state info (?p + p_symtab) (sh_size sy) (sh_off sy) file s3"
  have L2: "loading E info file s2" "fs_lock s2 = 0" "console s2 = console s" "mem_only s s2"
    using g(2-5) mem_only_trans [OF g(3)] by (simp_all add: s2_def)
  have L3: "loading E info file s3" "fs_lock s3 = 0" "console s3 = console s" "mem_only s s3"
    using L2 mem_only_mem [OF L2(4)] by (simp_all add: s3_def loading_def)
  have L4: "fs_lock s4 = 0" "console s4 = console s" "mem_only s s4"
    using L3 mem_only_trans [OF L3(4)] by (simp_all add: s4_def)
  have str2: "read_section_header (mem s2) (str_hdr E) = read_section_header (mem s1) (str_hdr E)"
    if "sh_size ?str \<le> 8192"
  proof (rule section_header_read_apart)
    fix j k :: nat
    let ?bs = "file_bytes file (unat (sh_off ?str)) (unat (sh_size ?str))"
    assume "j + k \<le> 64"
    then have "apart (?p + of_nat 12312) (length ?bs) (str_hdr E + of_nat j) k"
      using assms(2) that
      by (intro apart_sub [of ?p 20512 "str_hdr E" 64]) (simp_all add: symbols_layout_def word_le_nat_alt length_file_bytes)
    then show "read_bytes (mem s2) (str_hdr E + of_nat j) k = read_bytes (mem s1) (str_hdr E + of_nat j) k"
      unfolding s2_def pread_state_mem [OF g(2)] by (intro read_write_bytes_apart) (simp add: p_strtab_def)
  qed
  have r1: "elf_fpread E info (?p + p_strtab) (sh_size ?str) (sh_off ?str) s1 =
      Ret (of_nat (length (file_bytes file (unat (sh_off ?str)) (unat (sh_size ?str))))) s2"
    unfolding s2_def by (rule elf_fpread_eq [OF g(2)])
  have r2: "elf_fpread E info (?p + p_symtab) (sh_size sy) (sh_off sy) s3 =
      Ret (of_nat (length (file_bytes file (unat (sh_off sy)) (unat (sh_size sy))))) s4"
    unfolding s4_def by (rule elf_fpread_eq [OF L3(1)])
  have final: "write64 (mem s4) (?p + p_sym_count) (sh_size sy div 24) = tables_mem file ?p sy ?str (mem s1)"
  proof -
    have "mem s2 = write_bytes (mem s1) (?p + p_strtab) (file_bytes file (unat (sh_off ?str)) (unat (sh_size ?str)))"
      unfolding s2_def by (rule pread_state_mem [OF g(2)])
    moreover have "mem s4 = write_bytes (mem s3) (?p + p_symtab) (file_bytes file (unat (sh_off sy)) (unat (sh_size sy)))"
      unfolding s4_def by (rule pread_state_mem [OF L3(1)])
    ultimately show ?thesis by (simp add: s3_def tables_mem_def)
  qed
  note P = panic_panics [where u = s, of s1, OF g(4) _ g(5)] panic_panics [where u = s, of s2, OF L2(2) _ L2(3)]
    panic_panics [where u = s, of s3, OF L3(2) _ L3(3)] panic_panics [where u = s, of s4, OF L4(1) _ L4(2)]
  let ?r1 = "of_nat (length (file_bytes file (unat (sh_off ?str)) (unat (sh_size ?str)))) :: uint64"
  let ?r2 = "of_nat (length (file_bytes file (unat (sh_off sy)) (unat (sh_size sy)))) :: uint64"
  have run: "load_tables E info sy s =
      (if \<not> has_section file ?eh (sh_link sy) then panic E ''Error reading string table header'' [] s1
       else if sh_size ?str > 8192 then panic E ''String table buffer overflow'' [] s1
       else if \<not> fits file ?str then panic E ''Failed to load string table'' [] s2
       else if sh_entsize sy = 0 then Undef DivByZero
       else if sh_size sy div sh_entsize sy > 512 then panic E ''Too many symbols'' [] s3
       else if sh_entsize sy \<noteq> 24 then panic E ''Symbol entry size mismatch'' [] s3
       else if \<not> fits file sy then panic E ''Failed to load symbol table'' [] s4
       else Ret () (s4\<lparr>mem := tables_mem file ?p sy ?str (mem s1)\<rparr>))"
  proof (cases "has_section file ?eh (sh_link sy) \<and> sh_size ?str \<le> 8192")
    case True
    note h = g(7) [OF conjunct1 [OF True]]
    have ng: "\<not> 8192 < sh_size ?str" using True by (simp add: not_less)
    have "load_tables E info sy s =
      (if ?r1 \<noteq> sh_size ?str then panic E ''Failed to load string table'' [] s2
       else if sh_entsize sy = 0 then Undef DivByZero
       else if sh_size sy div sh_entsize sy > 512 then panic E ''Too many symbols'' [] s3
       else if sh_entsize sy \<noteq> 24 then panic E ''Symbol entry size mismatch'' [] s3
       else if ?r2 \<noteq> sh_size sy then panic E ''Failed to load symbol table'' [] s4
       else Ret () (s4\<lparr>mem := write64 (mem s4) (?p + p_sym_count) (sh_size sy div 24)\<rparr>))"
      using True str2 ng
      by (simp add: load_tables_def g(1) Let_def h r1 s3_def [symmetric] r2
          MAX_USER_STRTAB_def MAX_USER_SYMS_def sizeof_elf_symbol_def)
    then show ?thesis
      using True ng unfolding final pread_full_iff fits_length by simp
  next
    case False
    then show ?thesis
      by (auto simp: load_tables_def g(1) Let_def g(7) const_defs not_less)
  qed
  have frame: "changes_in (table_regions E ?p) (mem s) (tables_mem file ?p sy ?str (mem s1))"
    if "sh_size sy div 24 \<le> 512" "sh_size ?str \<le> 8192"
    using changes_in_trans [OF only_changes_in [OF g(9), of "table_regions E ?p"]
        only_changes_in [OF tables_mem_frame [OF that]]] by (simp add: table_regions_def)
  have "tables_outcome E file ?p s (Tables sy ?str) (Ret () (s4\<lparr>mem := tables_mem file ?p sy ?str (mem s1)\<rparr>))"
    if "\<not> 512 < sh_size sy div 24" "\<not> 8192 < sh_size ?str" "fits file sy" "fits file ?str"
    using tables_mem_loaded [OF that [unfolded not_less]] mem_only_mem [OF L4(3)] frame that(1,2)
    by (simp add: not_less)
  then show ?thesis
    unfolding run tables_of_def Let_def by (simp add: P)
qed

lemma panics_and_then: "panics (f s) msg u \<Longrightarrow> panics (and_then f g s) msg u"
  by (auto simp: panics_def)

lemma tables_outcome_from:
  assumes "tables_outcome E file p s T r" and "mem_only u s" and "changes_in (table_regions E p) (mem u) (mem s)"
    and "read_bytes (mem s) p 20512 = read_bytes (mem u) p 20512"
  shows "tables_outcome E file p u T r"
  using assms mem_only_trans [OF assms(2)] changes_in_trans [OF assms(3)] mem_only_fields(8) [OF assms(2)]
  by (cases T) (auto simp: panics_def)

lemma find_symtab_outcome:
  assumes "loading E info file s" and "symbols_layout E (info_p info)"
    and "ehdr_at E (mem s) = eh" and "unat (eh_shnum eh) = n" and "k \<le> n" and "mem_only u s"
    and "changes_in (table_regions E (info_p info)) (mem u) (mem s)"
    and "read_bytes (mem s) (info_p info) 20512 = read_bytes (mem u) (info_p info) 20512"
  shows "tables_outcome E file (info_p info) u (symbol_tables file eh [k..<n])
    (and_then (find_symtab_from E info k) (\<lambda>sym_idx s1.
       case sym_idx of
         None \<Rightarrow> Ret () s1
       | Some k \<Rightarrow> load_tables E info (read_section_header (mem s1) (sect E)) s1) s)"
  using assms
proof (induction "n - k" arbitrary: k s)
  case 0
  then have "find_symtab_from E info k s = Ret None s"
    by (subst find_symtab_from.simps) simp
  with 0 show ?case by (auto intro!: exI [of _ s])
next
  case (Suc d)
  then have lt: "k < n" by simp
  define s1 where "s1 = pread_state info (sect E) 64 (of_nat (sect_off (ehdr_at E (mem s)) (of_nat k))) file s"
  have a1: "apart (sect E) 64 (elfloader_ehdr E) 64" and a2: "apart (sect E) 64 (info_p info) 20512"
    using Suc.prems(2) by (simp_all add: symbols_layout_def)
  note g = get_elf_section_header_eq [OF Suc.prems(1) a1 s1_def, unfolded Suc.prems(3)]
  have "(sect E, 64) \<in> set (table_regions E (info_p info))" by (simp add: table_regions_def)
  then have u1: "mem_only u s1" "changes_in (table_regions E (info_p info)) (mem u) (mem s1)"
    "read_bytes (mem s1) (info_p info) 20512 = read_bytes (mem u) (info_p info) 20512"
    using mem_only_trans [OF Suc.prems(6) g(3)] changes_in_trans [OF Suc.prems(7)] only_changes_in [OF g(9)]
      g(8) [OF a2] Suc.prems(8) by simp_all
  have con: "console s1 = console u" by (rule mem_only_fields(8) [OF u1(1)])
  have run: "find_symtab_from E info k s =
     (if \<not> has_section file eh (of_nat k) then panic E ''Error reading section header'' [] s1
      else if sh_type (section_header file eh (of_nat k)) = SHT_SYMTAB then Ret (Some k) s1
      else find_symtab_from E info (Suc k) s1)"
    using lt Suc.prems(3,4) g(1,7)
    by (subst find_symtab_from.simps) (auto simp: Let_def)
  have upt: "[k..<n] = k # [Suc k..<n]"
    using lt by (rule upt_conv_Cons)
  consider "\<not> has_section file eh (of_nat k)"
    | "has_section file eh (of_nat k)" "sh_type (section_header file eh (of_nat k)) = SHT_SYMTAB"
    | "has_section file eh (of_nat k)" "sh_type (section_header file eh (of_nat k)) \<noteq> SHT_SYMTAB" by blast
  then show ?case
  proof cases
    case 1
    then show ?thesis
      using panic_panics [of s1 "''Error reading section header''" u E "[]"] g(4) con
      by (simp only: upt symbol_tables.simps tables_outcome.simps if_True simp_thms)
        (rule panics_and_then, simp add: run panic_panics)
  next
    case 2
    have "tables_outcome E file (info_p info) u (tables_of file eh (section_header file eh (of_nat k)))
        (load_tables E info (section_header file eh (of_nat k)) s1)"
      by (rule tables_outcome_from [OF load_tables_outcome [OF g(2) Suc.prems(2) g(4), unfolded g(6)] u1])
    then show ?thesis
      using 2 g(7) by (simp add: upt run)
  next
    case 3
    have "d = n - Suc k" using Suc.hyps(2) by simp
    from Suc.hyps(1) [OF this g(2) Suc.prems(2) g(6) Suc.prems(4) _ u1] lt 3 show ?thesis
      by (simp add: upt run)
  qed
qed

subsection \<open>The loader's operations\<close>

text \<open>\<^verbatim>\<open>elf_init\<close> on the bytes of the file.\<close>

lemma elf_init_eq:
  assumes "loading E info file s"
  shows "\<exists>t. elf_init E info s =
      Ret (if length file < 64 then EL_EIO else if take 4 file \<noteq> [0x7F, 0x45, 0x4C, 0x46] then EL_NOTELF else EL_OK) t
    \<and> mem t = write_bytes (mem s) (elfloader_ehdr E) (take 64 file) \<and> mem_only s t"
proof -
  define t where "t = pread_state info (elfloader_ehdr E) 64 0 file s"
  have mt: "mem t = write_bytes (mem s) (elfloader_ehdr E) (take 64 file)"
    by (simp add: t_def pread_state_mem [OF assms] file_bytes_def)
  have read: "elf_fpread E info (elfloader_ehdr E) 64 0 s = Ret (of_nat (length (file_bytes file 0 64))) t"
    using elf_fpread_eq [OF assms, of "elfloader_ehdr E" 64 0] by (simp add: t_def)
  have full: "of_nat (length (file_bytes file 0 64)) = (64 :: uint64) \<longleftrightarrow> \<not> length file < 64"
    using pread_full_iff [of "file" 0 64] by (simp add: file_bytes_full not_less)
  have magic: "eh_magic (read_elf_header (mem t) (elfloader_ehdr E)) = ELF_MAGIC \<longleftrightarrow> take 4 file = [0x7F, 0x45, 0x4C, 0x46]"
    if "\<not> length file < 64"
  proof -
    let ?bs = "take 4 file"
    have len: "length ?bs = 4" using that by simp
    have "read_bytes (mem t) (elfloader_ehdr E) 4 = take 4 (take 64 file)"
      using read_write_bytes_sub [of 0 4 "take 64 file" "mem s" "elfloader_ehdr E"] that mt by simp
    then have "eh_magic (read_elf_header (mem t) (elfloader_ehdr E)) = le_word ?bs"
      by (simp add: read_elf_header_def read32_def min_def)
    moreover have "ELF_MAGIC = le_word [0x7F, 0x45, 0x4C, 0x46]"
      by (simp add: ELF_MAGIC_def)
    moreover have "le_bytes 4 (le_word bs :: uint32) = bs" if "length bs = 4" for bs
      using le_bytes_le_word [of bs, where 'a = 32] that by simp
    then have "le_word ?bs = (le_word bs :: uint32) \<longleftrightarrow> ?bs = bs" if "length bs = 4" for bs
      using len that by metis
    then have "le_word ?bs = (le_word [0x7F, 0x45, 0x4C, 0x46] :: uint32) \<longleftrightarrow> ?bs = [0x7F, 0x45, 0x4C, 0x46]"
      by (simp only: list.size)
    ultimately show ?thesis by (simp only:)
  qed
  have "elf_init E info s =
      Ret (if length file < 64 then EL_EIO else if take 4 file \<noteq> [0x7F, 0x45, 0x4C, 0x46] then EL_NOTELF else EL_OK) t"
    using magic by (simp add: elf_init_def sizeof_elf_header_def read full)
  then show ?thesis
    using mt by (intro exI [of _ t]) (simp add: t_def)
qed

text \<open>
  C18.  \<^verbatim>\<open>elf_load\<close> implements the abstract loader, for any file whose loaded segments do not overlap the
  loader's own ELF header: its status is that of the abstract loader on the program headers of the file, and so is
  memory, but for the loader's own scratch header.  It succeeds exactly when every program header is in the file, at
  the place the code looks for it, an offset kept in 32 bits and widened with its sign, and every \<^verbatim>\<open>PT_LOAD\<close> segment
  has a file size of at most its memory size, does not wrap around the address space and is in the file with its
  memory size; a header that is cut off, where every segment before it can be loaded, is the error \<open>EL_EIO\<close>.  After
  success each segment, where it overlaps no other and not the scratch header, is in memory byte by byte.
\<close>

theorem elf_load_correct:
  assumes "loading E info file s"
    and "phoff = eh_phoff (ehdr_at E (mem s))" and "n = unat (phnum_at E (mem s))"
    and "phs = prog_headers file phoff n" and "load_layout E phs"
  shows "\<exists>st m t. elf_load E info s = Ret st t \<and> mem_only s t
    \<and> (st, m) = load_segments file (headers_cut file phoff n) phs (mem s) \<and> only_changes (ph_addr E) 56 m (mem t)
    \<and> (st = EL_OK \<longleftrightarrow> (\<forall>j<n. has_header file phoff j) \<and> (\<forall>ph\<in>set phs. is_load ph \<longrightarrow> loadable file ph))
    \<and> ((\<exists>j<n. \<not> has_header file phoff j) \<and> (\<forall>ph\<in>set phs. is_load ph \<longrightarrow> loadable file ph) \<longrightarrow> st = EL_EIO)
    \<and> (st = EL_OK \<and> segments_apart phs \<longrightarrow>
        (\<forall>ph\<in>set phs. is_load ph \<and> apart (ph_addr E) 56 (ph_vaddr ph) (unat (ph_memsz ph)) \<longrightarrow>
          read_bytes (mem t) (ph_vaddr ph) (unat (ph_memsz ph)) = file_bytes file (unat (ph_off ph)) (unat (ph_memsz ph))))"
proof -
  let ?cut = "headers_cut file phoff n"
  obtain st m where seg: "load_segments file ?cut phs (mem s) = (st, m)" by fastforce
  with elf_load_eq [OF assms(1-3)] assms(4,5)
  obtain t where t: "elf_load E info s = Ret st t" "mem_only s t" and ch: "only_changes (ph_addr E) 56 m (mem t)"
    by auto
  have "read_bytes (mem t) (ph_vaddr ph) (unat (ph_memsz ph)) = file_bytes file (unat (ph_off ph)) (unat (ph_memsz ph))"
    if "st = EL_OK" "segments_apart phs" "ph \<in> set phs" "is_load ph"
      "apart (ph_addr E) 56 (ph_vaddr ph) (unat (ph_memsz ph))" for ph
    using only_changes_read_bytes [OF ch that(5)] that(1) load_segments_image [OF _ that(2-4), of "file" ?cut "mem s"] seg
    by simp
  moreover have "st = EL_OK \<longleftrightarrow> (\<forall>j<n. has_header file phoff j) \<and> (\<forall>ph\<in>set phs. is_load ph \<longrightarrow> loadable file ph)"
    using load_segments_ok_iff [of "file" ?cut phs "mem s"] seg by (simp add: headers_cut_def)
  moreover have "st = EL_EIO" if "\<exists>j<n. \<not> has_header file phoff j" "\<forall>ph\<in>set phs. is_load ph \<longrightarrow> loadable file ph"
    using load_segments_cut [of phs "file" "mem s"] that seg by (simp add: headers_cut_def)
  ultimately show ?thesis
    using t ch seg by (intro exI [of _ st] exI [of _ m] exI [of _ t]) simp
qed

lemma tables_of_bound:
  "tables_of file eh sy = Tables a b \<Longrightarrow> sh_size a div 24 \<le> 512"
  by (auto simp: tables_of_def Let_def not_less split: if_splits)

lemma symbol_tables_bound: "symbol_tables file eh ks = Tables a b \<Longrightarrow> sh_size a div 24 \<le> 512"
  by (induction ks) (auto split: if_splits dest: tables_of_bound)

lemma tables_outcome_symtab_ok:
  assumes "tables_outcome E file p s T (Ret () t)" and "symtab_ok (mem s) p"
    and "\<And>sy str. T = Tables sy str \<Longrightarrow> sh_size sy div 24 \<le> 512"
  shows "symtab_ok (mem t) p"
proof (cases T)
  case NoTables
  then have eq: "read_bytes (mem t) p 20512 = read_bytes (mem s) p 20512"
    using assms(1) by auto
  have "read_bytes m (p + 12304) 8 = take 8 (drop 12304 (read_bytes m p 20512))" for m
    by (simp add: drop_read_bytes take_read_bytes)
  then have "read64 (mem t) (p + p_sym_count) = read64 (mem s) (p + p_sym_count)"
    unfolding read64_def p_sym_count_def by (simp only: eq)
  then show ?thesis using assms(2) by (simp add: symtab_ok_def)
qed (use assms in \<open>auto simp: panics_def tables_loaded_def symtab_ok_def\<close>)

lemma load_user_symbols_outcome:
  assumes "loading E info file s" and "symbols_layout E (info_p info)" and "eh = ehdr_at E (mem s)"
  shows "tables_outcome E file (info_p info) s (symbol_tables file eh [0..<unat (eh_shnum eh)])
    (load_user_symbols E info s)"
proof (cases "eh_shnum eh = 0")
  case True
  then show ?thesis
    using assms(3) by (simp add: load_user_symbols_def)
next
  case False
  then show ?thesis
    using find_symtab_outcome [of E info "file" s eh "unat (eh_shnum eh)" 0 s] assms
    by (simp add: load_user_symbols_def)
qed

text \<open>
  C19.  \<^verbatim>\<open>load_user_symbols\<close> does what the section headers of the file ask for: without a symbol table
  the process keeps its tables; with one that is too large, malformed or not in the file the
  machine stops with the message of the check that fails first, but for an entry size of zero, by which the code
  divides, undefined behaviour, before it checks it; otherwise the whole entries of the symbol table, their number and
  the size of the string table are in the process, and so is the string table, byte by byte, except for the overrun: a
  symbol table of 12289 to 12311 bytes, not a whole number of entries, passes the check of their number, and what it
  has past the end of its buffer and of the count behind it, bytes 12296 on, is found over the first bytes of the strings.
\<close>

theorem load_user_symbols_correct:
  assumes "loading E info file s" and "symbols_layout E (info_p info)" and "eh = ehdr_at E (mem s)"
  shows "tables_outcome E file (info_p info) s (symbol_tables file eh [0..<unat (eh_shnum eh)])
    (load_user_symbols E info s)"
  using assms by (rule load_user_symbols_outcome)

text \<open>
  C20.  Loading symbols keeps the bound of the symbol table that the search for a name relies on:
  whatever the file says, a load that returns leaves at most 512 symbols in the process.
\<close>

theorem load_user_symbols_bound:
  assumes "loading E info file s" and "symbols_layout E (info_p info)" and "symtab_ok (mem s) (info_p info)"
    and "load_user_symbols E info s = Ret () t"
  shows "symtab_ok (mem t) (info_p info)"
  using load_user_symbols_outcome [OF assms(1,2) refl] assms(3,4)
  by (auto intro: tables_outcome_symtab_ok symbol_tables_bound)

subsection \<open>The command line\<close>

abbreviation word_at :: "memory \<Rightarrow> uint64 \<Rightarrow> nat \<Rightarrow> uint64" where
  "word_at m buf j \<equiv> read64 m (buf + of_nat (8 * j))"

lemma word_at_write:
  assumes "i < 64" and "j < 64"
  shows "word_at (write64 m (buf + of_nat (8 * i)) v) buf j = (if i = j then v else word_at m buf j)"
proof (cases "i = j")
  case False
  have u: "unat (of_nat (8 * k) :: uint64) = 8 * k" if "k < 64" for k
    using that by (intro unat_of_nat_small) simp
  have "apart (of_nat (8 * i)) 8 (of_nat (8 * j) :: uint64) 8"
  proof (cases "i < j")
    case True
    then show ?thesis
      using assms by (intro apart_const) (simp_all only: u, simp_all)
  next
    case ge: False
    then have "apart (of_nat (8 * j)) 8 (of_nat (8 * i) :: uint64) 8"
      using assms False by (intro apart_const) (simp_all only: u, simp_all)
    then show ?thesis by (simp add: apart_sym)
  qed
  then show ?thesis
    using False by (simp only: apart_add read64_write64_apart if_False)
qed simp

lemma parse_args_loop_eq:
  assumes "argc \<le> 63"
  shows "\<exists>m'. parse_args_loop buf argc i m = Inr m'
    \<and> (\<forall>j<64. word_at m' buf j = (if i \<le> j \<and> 1 + j < argc then word_at m buf (2 + j) else word_at m buf j))"
  using assms
proof (induction buf argc i m rule: parse_args_loop.induct)
  case (1 buf argc i m)
  show ?case
  proof (cases "1 + i < argc")
    case True
    let ?m = "write64 m (buf + of_nat (8 * i)) (word_at m buf (2 + i))"
    have small: "\<not> MAX_CMDLINE_ARGS \<le> 2 + i" "i < 64"
      using True 1(2) by (simp_all add: MAX_CMDLINE_ARGS_def)
    obtain m' where m': "parse_args_loop buf argc (Suc i) ?m = Inr m'"
      and w: "\<forall>j<64. word_at m' buf j = (if Suc i \<le> j \<and> 1 + j < argc then word_at ?m buf (2 + j) else word_at ?m buf j)"
      using 1(1) [OF True small(1) 1(2)] by auto
    have "word_at m' buf j = (if i \<le> j \<and> 1 + j < argc then word_at m buf (2 + j) else word_at m buf j)" if "j < 64" for j
      using w that word_at_write [OF small(2), of "2 + j" m buf] word_at_write [OF small(2) that, of m buf] True 1(2)
      by (auto simp del: of_nat_mult of_nat_add)
    then show ?thesis
      using m' True small(1) by (intro exI [of _ m']) (subst parse_args_loop.simps, simp)
  next
    case False
    then show ?thesis
      by (intro exI [of _ m]) (subst parse_args_loop.simps, auto)
  qed
qed

lemma parse_args_loop_overflow:
  assumes "63 < argc" and "i \<le> 62"
  shows "parse_args_loop buf argc i m = Inl BufOverflow"
  using assms
proof (induction buf argc i m rule: parse_args_loop.induct)
  case (1 buf argc i m)
  then show ?case
    by (subst parse_args_loop.simps) (simp add: MAX_CMDLINE_ARGS_def)
qed

text \<open>
  C21.  \<^verbatim>\<open>parse_args\<close> drops the kernel's own name: with 1 to 63 strings on the command line it
  returns one fewer, and the strings after the first are at the front of the buffer.  With more
  it runs past the end of its 64 words, and with none it returns \<open>2 ^ 64 - 1\<close>.
\<close>

theorem parse_args_correct:
  assumes "fs_lock s = 0" and "fesvr E [HTIFSYS_getmainvars, arg_bug_msg E, 512, 0, 0, 0, 0, 0] (mem s) = (0, m)"
    and "argc = unat (read64 m (arg_bug_msg E))"
  shows "(argc \<le> 63 \<longrightarrow> (\<exists>t. parse_args E s = Ret (of_nat argc - 1) t
        \<and> (\<forall>j<64. word_at (mem t) (arg_bug_msg E) j =
             (if 1 + j < argc then word_at m (arg_bug_msg E) (2 + j) else word_at m (arg_bug_msg E) j))
        \<and> mem_only s t))
    \<and> (63 < argc \<longrightarrow> parse_args E s = Undef BufOverflow)"
proof -
  define s1 where "s1 = s\<lparr>mem := m, trace := trace s @ [HostCall [HTIFSYS_getmainvars, arg_bug_msg E, 512, 0, 0, 0, 0, 0]]\<rparr>"
  have run: "parse_args E s = (case parse_args_loop (arg_bug_msg E) argc 0 m of
      Inl u \<Rightarrow> Undef u | Inr m' \<Rightarrow> Ret (of_nat argc - 1) (s1\<lparr>mem := m'\<rparr>))"
    using assms by (simp add: parse_args_def frontend_syscall_free kassert_def outcome_defs Let_def s1_def split: sum.split)
  have mo: "mem_only s (s1\<lparr>mem := m'\<rparr>)" for m'
    unfolding s1_def by (intro mem_only_mem mem_onlyI) (simp add: console_def)
  show ?thesis
    using parse_args_loop_eq [of argc "arg_bug_msg E" 0 m] parse_args_loop_overflow [of argc 0 "arg_bug_msg E" m] mo
    unfolding run by (auto simp del: of_nat_mult of_nat_add)
qed

subsection \<open>Instances\<close>

text \<open>A host that serves one file.\<close>

definition file_env :: "uint8 list \<Rightarrow> env" where
  "file_env file = sample_env\<lparr>fesvr := (\<lambda>req m.
     if hd req = HTIFSYS_pread then
       (of_nat (length (file_bytes file (unat (req ! 4)) (unat (req ! 3)))),
        write_bytes m (req ! 2) (file_bytes file (unat (req ! 4)) (unat (req ! 3))))
     else (0, m))\<rparr>"

lemma file_env_serves: "serves (file_env file) fd file"
  by (simp add: serves_def file_env_def)

lemma file_env_fields [simp]:
  "elfloader_ehdr (file_env file) = 0x81211000" "ph_addr (file_env file) = 0x81212000"
  "sect (file_env file) = 0x81213000" "str_hdr (file_env file) = 0x81214000"
  "arg_bug_msg (file_env file) = 0x81210000"
  by (simp_all add: file_env_def sample_env_def)

definition sample_info :: elf_info where
  "sample_info = \<lparr>info_f = File 0, info_p = 0x80020000\<rparr>"

lemma sample_loading: "fs_lock s = 0 \<Longrightarrow> loading (file_env file) sample_info file s"
  by (simp add: loading_def sample_info_def file_env_serves)

text \<open>A file with one program header, for the four bytes after it.\<close>

definition sample_segment :: "uint8 list" where
  "sample_segment = le_bytes 4 (1 :: uint32) @ le_bytes 4 (5 :: uint32) @ le_bytes 8 (56 :: uint64)
     @ le_bytes 8 (0x81300000 :: uint64) @ le_bytes 8 (0x81300000 :: uint64) @ le_bytes 8 (4 :: uint64)
     @ le_bytes 8 (4 :: uint64) @ le_bytes 8 (4096 :: uint64) @ [0xDE, 0xAD, 0xBE, 0xEF]"

lemma ph_of_bytes_eq:
  assumes "length bs = 56"
  shows "ph_of_bytes bs =
    \<lparr>ph_type = le_word (take 4 bs), ph_flags = le_word (take 4 (drop 4 bs)), ph_off = le_word (take 8 (drop 8 bs)),
     ph_vaddr = le_word (take 8 (drop 16 bs)), ph_paddr = le_word (take 8 (drop 24 bs)),
     ph_filesz = le_word (take 8 (drop 32 bs)), ph_memsz = le_word (take 8 (drop 40 bs)),
     ph_align = le_word (take 8 (drop 48 bs))\<rparr>"
proof -
  have sub: "read_bytes (write_bytes (\<lambda>_. 0) 0 bs) (of_nat j) k = take k (drop j bs)" if "j + k \<le> 56" for j k
    using read_write_bytes_sub [of j k bs "\<lambda>_. 0" 0] assms that by simp
  show ?thesis
    using sub [of 0 4] sub [of 4 4] sub [of 8 8] sub [of 16 8] sub [of 24 8] sub [of 32 8] sub [of 40 8] sub [of 48 8]
    by (simp add: ph_of_bytes_def read_prog_header_def read32_def read64_def)
qed

lemma sample_header:
  "prog_headers sample_segment 0 1 =
    [\<lparr>ph_type = 1, ph_flags = 5, ph_off = 56, ph_vaddr = 0x81300000, ph_paddr = 0x81300000, ph_filesz = 4,
      ph_memsz = 4, ph_align = 4096\<rparr>]"
  by (simp add: prog_headers_def headers_from_def has_header_def header_off_def prog_header_def ph_of_bytes_eq
      length_file_bytes sample_segment_def)
    (simp add: file_bytes_def sample_segment_def le_word_le_bytes)

definition sample_loader :: kstate where
  "sample_loader = sample_state\<lparr>mem := write_bytes (\<lambda>_. 0) 0x81211038 [1, 0]\<rparr>"

lemma sample_loader_header:
  "eh_phoff (ehdr_at (file_env file) (mem sample_loader)) = 0"
  "unat (phnum_at (file_env file) (mem sample_loader)) = 1"
proof -
  have "apart 0x81211038 (length [1, 0 :: uint8]) 0x81211020 8"
    by (simp add: apart_def)
  then show "eh_phoff (ehdr_at (file_env file) (mem sample_loader)) = 0"
    by (simp add: sample_loader_def read_elf_header_def read64_write_bytes_apart)
  have "read_bytes (write_bytes (\<lambda>_. 0) 0x81211038 [1, 0 :: uint8]) 0x81211038 (length [1, 0 :: uint8]) = [1, 0]"
    by (rule read_write_bytes_same) simp
  then show "unat (phnum_at (file_env file) (mem sample_loader)) = 1"
    by (simp add: sample_loader_def read_elf_header_def read16_def numeral_2_eq_2)
qed

theorem elf_load_correct_witness:
  "\<exists>t. elf_load (file_env sample_segment) sample_info sample_loader = Ret EL_OK t
    \<and> read_bytes (mem t) 0x81300000 4 = [0xDE, 0xAD, 0xBE, 0xEF]"
proof -
  let ?E = "file_env sample_segment"
  let ?phs = "prog_headers sample_segment 0 1"
  have len: "length sample_segment = 60"
    by (simp add: sample_segment_def)
  have lay: "load_layout ?E ?phs" "segments_apart ?phs"
    and ok: "\<forall>ph\<in>set ?phs. is_load ph \<longrightarrow> loadable sample_segment ph"
    unfolding load_layout_def segments_apart_def sample_header by (simp_all add: apart_def loadable_def len)
  have "has_header sample_segment 0 0"
    by (simp add: has_header_def header_off_def len)
  moreover have load: "loading ?E sample_info sample_segment sample_loader"
    by (rule sample_loading) (simp add: sample_loader_def)
  ultimately obtain t where "elf_load ?E sample_info sample_loader = Ret EL_OK t"
    "\<forall>ph\<in>set ?phs. is_load ph \<and> apart (ph_addr ?E) 56 (ph_vaddr ph) (unat (ph_memsz ph)) \<longrightarrow>
       read_bytes (mem t) (ph_vaddr ph) (unat (ph_memsz ph)) =
         file_bytes sample_segment (unat (ph_off ph)) (unat (ph_memsz ph))"
    using elf_load_correct [OF load sample_loader_header(1) [symmetric] sample_loader_header(2) [symmetric] refl lay(1)] lay(2) ok
    by auto
  then show ?thesis
    unfolding sample_header
    by (auto simp: is_load_def ELF_PROG_LOAD_def apart_def file_bytes_def sample_segment_def)
qed

text \<open>A file with a symbol table of one entry and its string table.\<close>

definition sample_symfile :: "uint8 list" where
  "sample_symfile =
     replicate 4 0 @ le_bytes 4 (2 :: uint32) @ replicate 16 0 @ le_bytes 8 (128 :: uint64) @ le_bytes 8 (24 :: uint64)
       @ le_bytes 4 (1 :: uint32) @ replicate 12 0 @ le_bytes 8 (24 :: uint64)
     @ replicate 4 0 @ le_bytes 4 (3 :: uint32) @ replicate 16 0 @ le_bytes 8 (152 :: uint64) @ le_bytes 8 (4 :: uint64)
       @ replicate 24 0
     @ replicate 24 0 @ [0, 0x66, 0x38, 0]"

lemma sh_of_bytes_eq:
  assumes "length bs = 64"
  shows "sh_of_bytes bs =
    \<lparr>sh_name = le_word (take 4 bs), sh_type = le_word (take 4 (drop 4 bs)), sh_flags = le_word (take 8 (drop 8 bs)),
     sh_addr = le_word (take 8 (drop 16 bs)), sh_off = le_word (take 8 (drop 24 bs)),
     sh_size = le_word (take 8 (drop 32 bs)), sh_link = le_word (take 4 (drop 40 bs)),
     sh_info = le_word (take 4 (drop 44 bs)), sh_addralign = le_word (take 8 (drop 48 bs)),
     sh_entsize = le_word (take 8 (drop 56 bs))\<rparr>"
proof -
  have sub: "read_bytes (write_bytes (\<lambda>_. 0) 0 bs) (of_nat j) k = take k (drop j bs)" if "j + k \<le> 64" for j k
    using read_write_bytes_sub [of j k bs "\<lambda>_. 0" 0] assms that by simp
  show ?thesis
    using sub [of 0 4] sub [of 4 4] sub [of 8 8] sub [of 16 8] sub [of 24 8] sub [of 32 8] sub [of 40 4] sub [of 44 4]
      sub [of 48 8] sub [of 56 8]
    by (simp add: sh_of_bytes_def read_section_header_def read32_def read64_def)
qed

definition sample_symloader :: kstate where
  "sample_symloader = sample_state\<lparr>mem := write_bytes (\<lambda>_. 0) 0x8121103A [64, 0, 2, 0]\<rparr>"

lemma sample_symloader_header:
  "eh_shoff (ehdr_at (file_env file) (mem sample_symloader)) = 0"
  "eh_shentsize (ehdr_at (file_env file) (mem sample_symloader)) = 64"
  "eh_shnum (ehdr_at (file_env file) (mem sample_symloader)) = 2"
proof -
  have "apart 0x8121103A (length [64, 0, 2, 0 :: uint8]) 0x81211028 8"
    by (simp add: apart_def)
  then show "eh_shoff (ehdr_at (file_env file) (mem sample_symloader)) = 0"
    by (simp add: sample_symloader_def read_elf_header_def read64_write_bytes_apart)
  show "eh_shentsize (ehdr_at (file_env file) (mem sample_symloader)) = 64"
    "eh_shnum (ehdr_at (file_env file) (mem sample_symloader)) = 2"
    using read_write_bytes_sub [of 0 2 "[64, 0, 2, 0]" "\<lambda>_. 0" "0x8121103A"]
      read_write_bytes_sub [of 2 2 "[64, 0, 2, 0]" "\<lambda>_. 0" "0x8121103A"]
    by (simp_all add: sample_symloader_def read_elf_header_def read16_def)
qed

lemma sample_sections:
  assumes "eh = ehdr_at (file_env sample_symfile) (mem sample_symloader)"
  shows "has_section sample_symfile eh 0" "has_section sample_symfile eh 1"
    "section_header sample_symfile eh 0 = \<lparr>sh_name = 0, sh_type = 2, sh_flags = 0, sh_addr = 0, sh_off = 128,
       sh_size = 24, sh_link = 1, sh_info = 0, sh_addralign = 0, sh_entsize = 24\<rparr>"
    "section_header sample_symfile eh 1 = \<lparr>sh_name = 0, sh_type = 3, sh_flags = 0, sh_addr = 0, sh_off = 152,
       sh_size = 4, sh_link = 0, sh_info = 0, sh_addralign = 0, sh_entsize = 0\<rparr>"
proof -
  have o: "sect_off eh 0 = 0" "sect_off eh 1 = 64"
    using sample_symloader_header [of sample_symfile] unfolding assms
    by (simp_all add: sect_off_def)
  have len: "length sample_symfile = 156"
    by (simp add: sample_symfile_def)
  show "has_section sample_symfile eh 0" "has_section sample_symfile eh 1"
    by (simp_all add: has_section_def o len)
  show "section_header sample_symfile eh 0 = \<lparr>sh_name = 0, sh_type = 2, sh_flags = 0, sh_addr = 0, sh_off = 128,
       sh_size = 24, sh_link = 1, sh_info = 0, sh_addralign = 0, sh_entsize = 24\<rparr>"
    "section_header sample_symfile eh 1 = \<lparr>sh_name = 0, sh_type = 3, sh_flags = 0, sh_addr = 0, sh_off = 152,
       sh_size = 4, sh_link = 0, sh_info = 0, sh_addralign = 0, sh_entsize = 0\<rparr>"
    unfolding section_header_def o
    by (subst sh_of_bytes_eq, simp add: length_file_bytes len,
        simp add: file_bytes_def sample_symfile_def le_word_le_bytes le_word_zeros)+
qed

lemma sample_tables_of:
  assumes "eh = ehdr_at (file_env sample_symfile) (mem sample_symloader)"
  shows "symbol_tables sample_symfile eh [0..<unat (eh_shnum eh)] =
    Tables (section_header sample_symfile eh 0) (section_header sample_symfile eh 1)"
proof -
  have n: "[0..<unat (eh_shnum eh)] = [0, 1]"
    unfolding assms sample_symloader_header by (simp add: upt_rec)
  have len: "length sample_symfile = 156"
    by (simp add: sample_symfile_def)
  show ?thesis
    unfolding n using sample_sections [OF assms]
    by (simp add: tables_of_def SHT_SYMTAB_def fits_def len)
qed

lemma sample_symbols_layout: "symbols_layout (file_env file) (info_p sample_info)"
  by (simp add: symbols_layout_def sample_info_def apart_def)

lemma sample_symbols_loading: "loading (file_env file) sample_info file sample_symloader"
  by (rule sample_loading) (simp add: sample_symloader_def)

theorem load_user_symbols_correct_witness:
  "\<exists>t. load_user_symbols (file_env sample_symfile) sample_info sample_symloader = Ret () t
    \<and> read64 (mem t) (0x80020000 + p_sym_count) = 1 \<and> read_bytes (mem t) (0x80020000 + p_strtab) 4 = [0, 0x66, 0x38, 0]"
proof -
  let ?eh = "ehdr_at (file_env sample_symfile) (mem sample_symloader)"
  have "file_bytes sample_symfile 152 4 = [0, 0x66, 0x38, 0]"
    by (simp add: file_bytes_def sample_symfile_def)
  moreover have "drop 12296 (file_bytes sample_symfile 128 24) = []"
    by (simp add: length_file_bytes)
  ultimately show ?thesis
    using load_user_symbols_correct [OF sample_symbols_loading sample_symbols_layout refl, of sample_symfile]
    unfolding sample_tables_of [OF refl] sample_sections [OF refl]
    by (auto simp: tables_loaded_def sample_info_def)
qed

theorem load_user_symbols_bound_witness:
  "\<exists>t. load_user_symbols (file_env sample_symfile) sample_info sample_symloader = Ret () t
    \<and> symtab_ok (mem t) 0x80020000"
proof -
  have "apart 0x8121103A (length [64, 0, 2, 0 :: uint8]) 0x80023010 8"
    by (simp add: apart_def)
  then have "symtab_ok (mem sample_symloader) (info_p sample_info)"
    by (simp add: symtab_ok_def sample_symloader_def sample_info_def p_sym_count_def read64_write_bytes_apart)
  moreover obtain t where "load_user_symbols (file_env sample_symfile) sample_info sample_symloader = Ret () t"
    using load_user_symbols_outcome [OF sample_symbols_loading sample_symbols_layout refl, of sample_symfile]
    unfolding sample_tables_of [OF refl] by auto
  ultimately show ?thesis
    using load_user_symbols_bound [OF sample_symbols_loading sample_symbols_layout] by (auto simp: sample_info_def)
qed

theorem parse_args_correct_witness:
  "\<exists>t. parse_args sample_env (sample_state\<lparr>mem := write64 (write64 (\<lambda>_. 0) 0x81210000 2) 0x81210010 0x81400000\<rparr>) = Ret 1 t
    \<and> read64 (mem t) 0x81210000 = 0x81400000"
proof -
  let ?m = "write64 (write64 (\<lambda>_. 0) 0x81210000 2) 0x81210010 0x81400000 :: memory"
  have a: "arg_bug_msg sample_env = 0x81210000" by (simp add: sample_env_def)
  have "apart 0x81210010 8 0x81210000 8" by (simp add: apart_def)
  then have r: "read64 ?m 0x81210000 = 2" by (simp add: read64_write64_apart)
  obtain t where t: "parse_args sample_env (sample_state\<lparr>mem := ?m\<rparr>) = Ret (of_nat 2 - 1) t"
    and w: "\<forall>j<64. word_at (mem t) 0x81210000 j =
      (if 1 + j < 2 then word_at ?m 0x81210000 (2 + j) else word_at ?m 0x81210000 j)"
    using parse_args_correct [of "sample_state\<lparr>mem := ?m\<rparr>" sample_env ?m 2] r unfolding a by auto
  show ?thesis
    using t spec [OF w, of 0] by simp
qed

end
