(* ===== verification/Kernel.thy ===== *)
theory Kernel
  imports Elf Strap
begin

text \<open>
  Supervisor start-up (\<^verbatim>\<open>kernel/kernel.c\<close>): the process structure is set up, the application is loaded
  into it, and the kernel leaves for user mode.
\<close>

subsection \<open>The process (load\_user\_program)\<close>

text \<open>The assignments and the \<^verbatim>\<open>memset\<close> before the application is loaded.\<close>

definition prepare_process :: "uint64 \<Rightarrow> unit op" where
  "prepare_process proc s =
     (let m1 = write64 (mem s) (proc + p_trapframe) USER_TRAP_FRAME in
      case memset m1 (read64 m1 (proc + p_trapframe)) 0 sizeof_trapframe of
        None \<Rightarrow> Diverge
      | Some (_, m2) \<Rightarrow>
          let m3 = write64 m2 (proc + p_kstack) USER_KSTACK;
              m4 = write64 m3 (read64 m3 (proc + p_trapframe) + reg_off Sp) USER_STACK
          in Ret () (s\<lparr>mem := m4\<rparr>))"

definition load_user_program :: "env \<Rightarrow> uint64 \<Rightarrow> unit op" where
  "load_user_program E proc = seq (prepare_process proc) (load_bincode_from_host_elf E proc)"

definition s_start :: "env \<Rightarrow> int32 op" where
  "s_start E =
     seq (sprint E ''Enter supervisor mode...\<newline>'' [])
       (seq (modify (\<lambda>s. s\<lparr>csr := (csr s)\<lparr>satp := 0\<rparr>\<rparr>))
         (seq (load_user_program E (user_app E))
           (seq (sprint E ''Switch to user mode...\<newline>'' [])
             (seq (switch_to E (user_app E) :: unit op) (ret 0)))))"

subsection \<open>The prepared process\<close>

definition zero_frame :: "memory \<Rightarrow> memory" where
  "zero_frame m = write_bytes m USER_TRAP_FRAME (replicate 272 0)"

definition prepared :: "uint64 \<Rightarrow> memory \<Rightarrow> memory" where
  "prepared p m = write64 (write64 (zero_frame (write64 m (p + p_trapframe) USER_TRAP_FRAME))
     (p + p_kstack) USER_KSTACK) (USER_TRAP_FRAME + reg_off Sp) USER_STACK"

lemma user_frame_apart:
  assumes "apart USER_TRAP_FRAME 272 p 20512" and "unat b + k \<le> 20512" and "i + n \<le> 272"
  shows "apart (USER_TRAP_FRAME + of_nat i) n (p + b) k" "apart (p + b) k (USER_TRAP_FRAME + of_nat i) n"
  using apart_sub [OF assms(1), of i n "unat b" k] assms(2,3) by (simp_all add: apart_sym [of "p + b"])

lemma prepare_process_eq:
  assumes "apart USER_TRAP_FRAME 272 p 20512"
  shows "prepare_process p s = Ret () (s\<lparr>mem := prepared p (mem s)\<rparr>)"
proof -
  let ?m1 = "write64 (mem s) (p + p_trapframe) USER_TRAP_FRAME"
  have fill: "memset ?m1 USER_TRAP_FRAME 0 sizeof_trapframe = Some (USER_TRAP_FRAME, zero_frame ?m1)"
    using memset_fill [of USER_TRAP_FRAME sizeof_trapframe ?m1 0]
    by (simp add: zero_frame_def USER_TRAP_FRAME_def sizeof_trapframe_def)
  have "read64 (zero_frame ?m1) (p + p_trapframe) = USER_TRAP_FRAME"
    using user_frame_apart(1) [OF assms, of p_trapframe 8 0 272]
    by (simp add: zero_frame_def read64_write_bytes_apart)
  moreover have "apart p_kstack 8 p_trapframe 8"
    by (simp add: apart_def const_defs)
  ultimately have "read64 (write64 (zero_frame ?m1) (p + p_kstack) USER_KSTACK) (p + p_trapframe) = USER_TRAP_FRAME"
    by (simp add: read64_write64_apart)
  then show ?thesis
    by (simp add: prepare_process_def Let_def fill prepared_def)
qed

lemma prepared_reads:
  assumes "apart USER_TRAP_FRAME 272 p 20512"
  shows "tf_of (prepared p m) p = USER_TRAP_FRAME" and "read64 (prepared p m) (p + p_kstack) = USER_KSTACK"
    and "tf_reg (prepared p m) USER_TRAP_FRAME = (\<lambda>_. 0)(Sp := USER_STACK)"
    and "read64 (prepared p m) (USER_TRAP_FRAME + tf_epc) = 0"
    and "read_bytes (prepared p m) (p + p_symtab) 20496 = read_bytes m (p + p_symtab) 20496"
proof -
  note far = user_frame_apart [OF assms, of _ _ "8 * reg_index Sp" 8, folded reg_off_index]
  have small: "apart p_kstack 8 p_trapframe 8" "apart p_kstack 8 p_symtab 20496" "apart p_trapframe 8 p_symtab 20496"
    by (simp_all add: apart_def const_defs)
  show "tf_of (prepared p m) p = USER_TRAP_FRAME"
    using far(1) [of p_trapframe 8] small user_frame_apart(1) [OF assms, of p_trapframe 8 0 272]
    by (simp add: tf_of_def prepared_def zero_frame_def read64_write64_apart read64_write_bytes_apart del: reg_off.simps)
  show "read64 (prepared p m) (p + p_kstack) = USER_KSTACK"
    using far(1) [of p_kstack 8] by (simp add: prepared_def read64_write64_apart del: reg_off.simps)
  have zero: "read64 (write64 (zero_frame m') (p + p_kstack) v) (USER_TRAP_FRAME + of_nat i) = 0" if "i + 8 \<le> 272" for m' v i
  proof -
    have "read_bytes (zero_frame m') (USER_TRAP_FRAME + of_nat i) 8 = replicate 8 0"
      unfolding zero_frame_def using that by (subst read_write_bytes_sub) (simp_all add: min_def)
    then show ?thesis
      using user_frame_apart(2) [OF assms, of p_kstack 8 i 8] that
      by (simp add: read64_write64_apart) (simp add: read64_def le_word_zeros)
  qed
  show "tf_reg (prepared p m) USER_TRAP_FRAME = (\<lambda>_. 0)(Sp := USER_STACK)"
  proof
    fix r
    show "tf_reg (prepared p m) USER_TRAP_FRAME r = ((\<lambda>_. 0)(Sp := USER_STACK)) r"
      using zero [of "8 * reg_index r", folded reg_off_index] reg_index_less [of r] apart_reg_off [of Sp r]
      by (cases "r = Sp") (simp_all add: tf_reg_def prepared_def read64_write64_apart del: reg_off.simps)
  qed
  show "read64 (prepared p m) (USER_TRAP_FRAME + tf_epc) = 0"
    using zero [of 264] by (simp add: prepared_def read64_write64_apart frame_apart tf_epc_def [symmetric] del: reg_off.simps)
  show "read_bytes (prepared p m) (p + p_symtab) 20496 = read_bytes m (p + p_symtab) 20496"
    using far(1) [of p_symtab 20496] small user_frame_apart(1) [OF assms, of p_symtab 20496 0 272]
    by (simp add: prepared_def zero_frame_def read_bytes_write64_apart read_write_bytes_apart del: reg_off.simps)
qed

text \<open>The state in which the application is loaded.\<close>

definition load_state :: "env \<Rightarrow> kstate \<Rightarrow> kstate" where
  "load_state E s = (emit ''Enter supervisor mode...\<newline>'' s)
     \<lparr>csr := (csr s)\<lparr>satp := 0\<rparr>, mem := prepared (user_app E) (mem s)\<rparr>"

lemma load_state_fields [simp]:
  "mem (load_state E s) = prepared (user_app E) (mem s)" "fs_lock (load_state E s) = fs_lock s"
  "console (load_state E s) = console s @ ''Enter supervisor mode...\<newline>''" "satp (csr (load_state E s)) = 0"
  by (simp_all add: load_state_def emit_def console_def)

lemma s_start_loads:
  assumes "fs_lock s = 0" and "apart USER_TRAP_FRAME 272 (user_app E) 20512"
  shows "s_start E s = seq (load_bincode_from_host_elf E (user_app E))
    (seq (sprint E ''Switch to user mode...\<newline>'' []) (seq (switch_to E (user_app E) :: unit op) (ret 0))) (load_state E s)"
proof -
  have "sprint E ''Enter supervisor mode...\<newline>'' [] s = Ret () (emit ''Enter supervisor mode...\<newline>'' s)"
    using assms(1) by (intro con.print_literal) simp_all
  then show ?thesis
    by (simp add: s_start_def load_user_program_def seq_def modify_def prepare_process_eq [OF assms(2)] load_state_def emit_def)
qed

lemma load_bincode_no_program:
  assumes "fs_lock s = 0" and "fesvr E [HTIFSYS_getmainvars, arg_bug_msg E, 512, 0, 0, 0, 0, 0] (mem s) = (0, m)"
    and "read64 m (arg_bug_msg E) = 1"
  shows "\<exists>t. load_bincode_from_host_elf E p s = Halt (Exit (- 1)) t \<and> console t = console s
    @ ''You need to specify the application program!\<newline>\<newline>'' @ clip (shutdown_message (- 1))"
proof -
  let ?s = "s\<lparr>mem := m, trace := trace s @ [HostCall [HTIFSYS_getmainvars, arg_bug_msg E, 512, 0, 0, 0, 0, 0]]\<rparr>"
  have "parse_args_loop (arg_bug_msg E) 1 0 m = Inr m"
    by (subst parse_args_loop.simps) simp
  then have "parse_args E s = Ret 0 ?s"
    using assms by (simp add: parse_args_def frontend_syscall_free kassert_def outcome_defs Let_def)
  then show ?thesis
    using assms(1) by (simp add: load_bincode_from_host_elf_def panic_def do_panic_literal console_halted)
      (simp add: console_def)
qed

end
