(* ===== verification/Dts.thy ===== *)
theory Dts
  imports Syscall
begin

text \<open>
  The flattened device tree: the scanner of \<^verbatim>\<open>spike_interface/dts_parse.c\<close> and its two clients, the
  search for the memory that holds the kernel (\<^verbatim>\<open>spike_interface/spike_memory.c\<close>) and for the
  host interface (first part of \<^verbatim>\<open>spike_interface/spike_htif.c\<close>).

  A node of the scan is a local variable of the call that scans its parent and is reached through
  a chain of \<^verbatim>\<open>parent\<close> pointers; here that chain is a list, the node first and its ancestors after
  it, empty for the null pointer at the top.  The scan changes a node's cell counts, so a call
  returns the chain as it leaves it.  The blob may be malformed, and then the scan may never end:
  \<open>None\<close>.
\<close>

subsection \<open>Continuations\<close>

text \<open>What follows a call that may stop the machine, in a computation that may not end.\<close>

fun after :: "('s, 'a) outcome \<Rightarrow> ('a \<Rightarrow> 's \<Rightarrow> ('s, 'b) outcome option) \<Rightarrow> ('s, 'b) outcome option" where
  "after (Ret x s) k = k x s"
| "after (Halt h s) k = Some (Halt h s)"
| "after (Resume s) k = Some (Resume s)"
| "after Diverge k = Some Diverge"
| "after (Undef u) k = Some (Undef u)"

lemma after_mono [partial_function_mono]:
  assumes "\<And>x s. mono_option (\<lambda>f. k f x s)"
  shows "mono_option (\<lambda>f. after r (k f))"
  using assms by (cases r) (simp_all add: option.const_mono)

lemma after_and_then: "after (and_then f g s) k = after (f s) (\<lambda>x t. after (g x t) k)"
  by (cases "f s") simp_all

lemma after_cong [fundef_cong]: "r = r' \<Longrightarrow> (\<And>x t. r' = Ret x t \<Longrightarrow> k x t = k' x t) \<Longrightarrow> after r k = after r' k'"
  by (cases r') simp_all

definition diverging :: "('s, 'a) outcome option \<Rightarrow> ('s, 'a) outcome" where
  "diverging r = (case r of None \<Rightarrow> Diverge | Some x \<Rightarrow> x)"

lemma diverging_Some [simp]: "diverging (Some r) = r"
  by (simp add: diverging_def)

subsection \<open>Tokens and cells (spike\_interface/dts\_parse.c)\<close>

definition FDT_MAGIC :: uint32 where [const_defs]: "FDT_MAGIC = 0xd00dfeed"
definition FDT_VERSION :: uint32 where [const_defs]: "FDT_VERSION = 17"
definition FDT_BEGIN_NODE :: uint32 where [const_defs]: "FDT_BEGIN_NODE = 1"
definition FDT_END_NODE :: uint32 where [const_defs]: "FDT_END_NODE = 2"
definition FDT_PROP :: uint32 where [const_defs]: "FDT_PROP = 3"
definition FDT_NOP :: uint32 where [const_defs]: "FDT_NOP = 4"
definition FDT_END :: uint32 where [const_defs]: "FDT_END = 9"

record fdt_header =
  hdr_magic :: uint32
  hdr_totalsize :: uint32
  hdr_off_dt_struct :: uint32
  hdr_off_dt_strings :: uint32
  hdr_off_mem_rsvmap :: uint32
  hdr_version :: uint32
  hdr_last_comp_version :: uint32
  hdr_boot_cpuid_phys :: uint32
  hdr_size_dt_strings :: uint32
  hdr_size_dt_struct :: uint32

definition read_fdt_header :: "memory \<Rightarrow> uint64 \<Rightarrow> fdt_header" where
  "read_fdt_header m a =
     \<lparr>hdr_magic = read32 m a, hdr_totalsize = read32 m (a + 4), hdr_off_dt_struct = read32 m (a + 8),
      hdr_off_dt_strings = read32 m (a + 12), hdr_off_mem_rsvmap = read32 m (a + 16),
      hdr_version = read32 m (a + 20), hdr_last_comp_version = read32 m (a + 24),
      hdr_boot_cpuid_phys = read32 m (a + 28), hdr_size_dt_strings = read32 m (a + 32),
      hdr_size_dt_struct = read32 m (a + 36)\<rparr>"

definition bswap :: "uint32 \<Rightarrow> uint32" where
  "bswap x =
     (let y = push_bit 8 (x AND 0x00FF00FF) OR drop_bit 8 (x AND 0xFF00FF00);
          z = push_bit 16 (y AND 0x0000FFFF) OR drop_bit 16 (y AND 0xFFFF0000)
      in z)"

record fdt_scan_node =
  node_name :: uint64
  address_cells :: int32
  size_cells :: int32

type_synonym node_chain = "fdt_scan_node list"

record fdt_scan_prop =
  prop_node :: node_chain
  prop_name :: uint64
  prop_value :: uint64
  prop_len :: int32

record 'x fdt_cb =
  cb_open :: "(node_chain \<Rightarrow> 'x \<Rightarrow> 'x op) option"
  cb_prop :: "fdt_scan_prop \<Rightarrow> 'x \<Rightarrow> 'x op"
  cb_done :: "(node_chain \<Rightarrow> 'x \<Rightarrow> 'x op) option"
  cb_close :: "(node_chain \<Rightarrow> 'x \<Rightarrow> (int32 \<times> 'x) op) option"

text \<open>A callback that may be null.\<close>

definition call_cb :: "(node_chain \<Rightarrow> 'x \<Rightarrow> 'x op) option \<Rightarrow> node_chain \<Rightarrow> 'x \<Rightarrow> 'x op" where
  "call_cb f node x = (case f of None \<Rightarrow> ret x | Some g \<Rightarrow> g node x)"

text \<open>Division of an \<^verbatim>\<open>int\<close> by 4 rounds towards zero.\<close>

definition int_div4 :: "int32 \<Rightarrow> int32" where
  "int_div4 w = of_int (if 0 \<le> sint w then sint w div 4 else - (- sint w div 4))"

definition token :: "memory \<Rightarrow> uint64 \<Rightarrow> uint32" where
  "token m lx = bswap (read32 m lx)"

text \<open>The cell counts a property sets.\<close>

definition set_cells :: "memory \<Rightarrow> uint64 \<Rightarrow> int32 \<Rightarrow> node_chain \<Rightarrow> node_chain" where
  "set_cells m name v node =
     (case node of
        [] \<Rightarrow> []
      | n # ns \<Rightarrow>
          let n1 = (if strcmp_lit m name (bytes_of ''#address-cells'') = 0 then n\<lparr>address_cells := v\<rparr> else n);
              n2 = (if strcmp_lit m name (bytes_of ''#size-cells'') = 0 then n1\<lparr>size_cells := v\<rparr> else n1)
          in n2 # ns)"

definition new_child :: fdt_scan_node where
  "new_child = \<lparr>node_name = 0, address_cells = 2, size_cells = 1\<rparr>"

text \<open>\<^verbatim>\<open>while (lex != lex_next) *lex++ = bswap(FDT_NOP)\<close>\<close>

partial_function (option) nop_out :: "memory \<Rightarrow> uint64 \<Rightarrow> uint64 \<Rightarrow> memory option" where
  "nop_out m lx lx_next =
     (if lx = lx_next then Some m else nop_out (write32 m lx (bswap FDT_NOP)) (lx + 4) lx_next)"

definition prop_at :: "memory \<Rightarrow> uint64 \<Rightarrow> uint64 \<Rightarrow> node_chain \<Rightarrow> fdt_scan_prop" where
  "prop_at m strings lx node =
     \<lparr>prop_node = node, prop_name = strings + ucast (bswap (read32 m (lx + 8))), prop_value = lx + 12,
      prop_len = bswap (read32 m (lx + 4))\<rparr>"

definition after_prop :: "uint64 \<Rightarrow> fdt_scan_prop \<Rightarrow> uint64" where
  "after_prop lx p = lx + 4 * (3 + scast (int_div4 (prop_len p + 3)))"

definition dts_parse_c :: string where "dts_parse_c = ''spike_interface/dts_parse.c''"

partial_function (option) fdt_scan_helper ::
    "env \<Rightarrow> uint64 \<Rightarrow> 'x fdt_cb \<Rightarrow> uint64 \<Rightarrow> node_chain \<Rightarrow> fdt_scan_node \<Rightarrow> bool \<Rightarrow> 'x \<Rightarrow> kstate
      \<Rightarrow> (kstate, uint64 \<times> node_chain \<times> 'x) outcome option" where
  "fdt_scan_helper E strings cb lx node child lst x s =
     (let tok = token (mem s) lx in
      if tok = FDT_NOP then fdt_scan_helper E strings cb (lx + 4) node child lst x s
      else if tok = FDT_PROP then
        after (assert E (\<not> lst) dts_parse_c 36 ''!last'' s) (\<lambda>_ s1.
          let p = prop_at (mem s1) strings lx node;
              node1 = set_cells (mem s1) (prop_name p) (bswap (read32 (mem s1) (lx + 12))) node
          in after (cb_prop cb (p\<lparr>prop_node := node1\<rparr>) x s1) (\<lambda>x1 s2.
               fdt_scan_helper E strings cb (after_prop lx p) node1 child lst x1 s2))
      else if tok = FDT_BEGIN_NODE then
        after (if \<not> lst \<and> node \<noteq> [] then call_cb (cb_done cb) node x s else Ret x s) (\<lambda>x1 s1.
          let child1 = child\<lparr>node_name := lx + 4\<rparr> in
          after (call_cb (cb_open cb) (child1 # node) x1 s1) (\<lambda>x2 s2.
            Option.bind (strlen (mem s2) (lx + 4)) (\<lambda>n.
              Option.bind
                (fdt_scan_helper E strings cb (lx + 8 + 4 * (n div 4)) (child1 # node) new_child False x2 s2)
                (\<lambda>r. after r (\<lambda>(lx_next, chain, x3) s3.
                  case cb_close cb of
                    None \<Rightarrow> fdt_scan_helper E strings cb lx_next node (hd chain) True x3 s3
                  | Some close \<Rightarrow>
                      after (close chain x3 s3) (\<lambda>(c, x4) s4.
                        if c = - 1 then
                          Option.bind (nop_out (mem s4) lx lx_next) (\<lambda>m.
                            fdt_scan_helper E strings cb lx_next node (hd chain) True x4 (s4\<lparr>mem := m\<rparr>))
                        else fdt_scan_helper E strings cb lx_next node (hd chain) True x4 s4))))))
      else
        after (if \<not> lst \<and> node \<noteq> [] then call_cb (cb_done cb) node x s else Ret x s) (\<lambda>x1 s1.
          Some (Ret (if tok = FDT_END_NODE then lx + 4 else lx, node, x1) s1)))"

fun get_cells :: "memory \<Rightarrow> nat \<Rightarrow> uint64 \<Rightarrow> uint64 \<Rightarrow> uint64 \<times> uint64" where
  "get_cells m 0 v r = (v, r)"
| "get_cells m (Suc n) v r = get_cells m n (v + 4) (push_bit 32 r + ucast (bswap (read32 m v)))"

definition fdt_get_address :: "memory \<Rightarrow> fdt_scan_node \<Rightarrow> uint64 \<Rightarrow> uint64 \<times> uint64" where
  "fdt_get_address m node v = get_cells m (nat (sint (address_cells node))) v 0"

definition fdt_get_size :: "memory \<Rightarrow> fdt_scan_node \<Rightarrow> uint64 \<Rightarrow> uint64 \<times> uint64" where
  "fdt_get_size m node v = get_cells m (nat (sint (size_cells node))) v 0"

definition fdt_scan :: "env \<Rightarrow> uint64 \<Rightarrow> 'x fdt_cb \<Rightarrow> 'x \<Rightarrow> 'x op" where
  "fdt_scan E fdt cb x s =
     (let header = read_fdt_header (mem s) fdt in
      if bswap (hdr_magic header) \<noteq> FDT_MAGIC \<or> bswap (hdr_last_comp_version header) > FDT_VERSION then Ret x s
      else
        let strings = fdt + ucast (bswap (hdr_off_dt_strings header));
            lx = fdt + ucast (bswap (hdr_off_dt_struct header))
        in and_then (\<lambda>s. diverging (fdt_scan_helper E strings cb lx [] new_child False x s)) (\<lambda>(_, _, x). ret x) s)"

subsection \<open>Looking for memory (spike\_interface/spike\_memory.c)\<close>

record mem_scan =
  scan_memory :: int32
  reg_value :: uint64
  reg_len :: int32

definition mem_open :: "node_chain \<Rightarrow> mem_scan \<Rightarrow> mem_scan op" where
  "mem_open node scan = ret \<lparr>scan_memory = 0, reg_value = 0, reg_len = 0\<rparr>"

definition mem_prop :: "fdt_scan_prop \<Rightarrow> mem_scan \<Rightarrow> mem_scan op" where
  "mem_prop p scan s =
     (if strcmp_lit (mem s) (prop_name p) (bytes_of ''device_type'') = 0
         \<and> strcmp_lit (mem s) (prop_value p) (bytes_of ''memory'') = 0 then Ret (scan\<lparr>scan_memory := 1\<rparr>) s
      else if strcmp_lit (mem s) (prop_name p) (bytes_of ''reg'') = 0 then
        Ret (scan\<lparr>reg_value := prop_value p, reg_len := prop_len p\<rparr>) s
      else Ret scan s)"

text \<open>The loop of \<^verbatim>\<open>mem_done\<close>: it returns the place up to which it has read.  With no cells to read it
  never ends; a node without a parent has no cell counts to read.\<close>

partial_function (option) mem_done_loop ::
    "env \<Rightarrow> node_chain \<Rightarrow> uint64 \<Rightarrow> uint64 \<Rightarrow> kstate \<Rightarrow> (kstate, uint64) outcome option" where
  "mem_done_loop E node v end s =
     (if 0 < sint (end - v) then
        (case tl node of
           [] \<Rightarrow> Some (Undef NullDeref)
         | parent # _ \<Rightarrow>
             let (v1, base) = fdt_get_address (mem s) parent v;
                 (v2, size) = fdt_get_size (mem s) parent v1
             in mem_done_loop E node v2 end
                  (if base \<le> mem_done_addr E \<and> mem_done_addr E \<le> base + size then s\<lparr>g_mem_size := size\<rparr> else s))
      else Some (Ret v s))"

definition spike_memory_c :: string where "spike_memory_c = ''spike_interface/spike_memory.c''"

definition mem_done :: "env \<Rightarrow> node_chain \<Rightarrow> mem_scan \<Rightarrow> mem_scan op" where
  "mem_done E node scan =
     (let value = reg_value scan;
          end = value + 4 * scast (int_div4 (reg_len scan))
      in if scan_memory scan = 0 then ret scan
         else
           seq (assert E (reg_value scan \<noteq> 0 \<and> sint (reg_len scan) mod 4 = 0) spike_memory_c 41
                 ''scan->reg_value && scan->reg_len % 4 == 0'')
             (and_then (\<lambda>s. diverging (mem_done_loop E node value end s)) (\<lambda>value.
               seq (assert E (end = value) spike_memory_c 51 ''end == value'') (ret scan))))"

definition mem_cb :: "env \<Rightarrow> mem_scan fdt_cb" where
  "mem_cb E = \<lparr>cb_open = Some mem_open, cb_prop = mem_prop, cb_done = Some (mem_done E), cb_close = None\<rparr>"

text \<open>\<^verbatim>\<open>scan\<close> is not initialised; its value is a parameter.\<close>

definition query_mem :: "env \<Rightarrow> mem_scan \<Rightarrow> uint64 \<Rightarrow> unit op" where
  "query_mem E scan fdt =
     seq (modify (\<lambda>s. s\<lparr>g_mem_size := 0\<rparr>))
       (seq (fdt_scan E fdt (mem_cb E) scan)
         (\<lambda>s. assert E (g_mem_size s > 0) spike_memory_c 67 ''g_mem_size > 0'' s))"

subsection \<open>Looking for the host interface (spike\_interface/spike\_htif.c)\<close>

record htif_scan =
  compat :: int32

definition htif_open :: "node_chain \<Rightarrow> htif_scan \<Rightarrow> htif_scan op" where
  "htif_open node scan = ret \<lparr>compat = 0\<rparr>"

definition htif_prop :: "fdt_scan_prop \<Rightarrow> htif_scan \<Rightarrow> htif_scan op" where
  "htif_prop p scan s =
     (if strcmp_lit (mem s) (prop_name p) (bytes_of ''compatible'') = 0
         \<and> strcmp_lit (mem s) (prop_value p) (bytes_of ''ucb,htif0'') = 0
      then Ret (scan\<lparr>compat := 1\<rparr>) s else Ret scan s)"

definition htif_done :: "node_chain \<Rightarrow> htif_scan \<Rightarrow> htif_scan op" where
  "htif_done node scan s = (if compat scan = 0 then Ret scan s else Ret scan (s\<lparr>htif := 1\<rparr>))"

definition htif_cb :: "htif_scan fdt_cb" where
  "htif_cb = \<lparr>cb_open = Some htif_open, cb_prop = htif_prop, cb_done = Some htif_done, cb_close = None\<rparr>"

definition query_htif :: "htif_scan \<Rightarrow> env \<Rightarrow> uint64 \<Rightarrow> unit op" where
  "query_htif scan E fdt = seq (fdt_scan E fdt htif_cb scan) (ret ())"

subsection \<open>Byte order\<close>

lemma byte_masks:
  "bit (0x00FF00FF :: uint32) n \<longleftrightarrow> n < 8 \<or> 16 \<le> n \<and> n < 24"
  "bit (0xFF00FF00 :: uint32) n \<longleftrightarrow> 8 \<le> n \<and> n < 16 \<or> 24 \<le> n \<and> n < 32"
  "bit (0x0000FFFF :: uint32) n \<longleftrightarrow> n < 16"
  "bit (0xFFFF0000 :: uint32) n \<longleftrightarrow> 16 \<le> n \<and> n < 32"
proof -
  have "(0x00FF00FF :: uint32) = mask 8 OR push_bit 16 (mask 8)"
    "(0xFF00FF00 :: uint32) = push_bit 8 (mask 8) OR push_bit 24 (mask 8)"
    "(0x0000FFFF :: uint32) = mask 16" "(0xFFFF0000 :: uint32) = push_bit 16 (mask 16)"
    by (simp_all add: mask_eq_exp_minus_1)
  note eqs = this
  show "bit (0x00FF00FF :: uint32) n \<longleftrightarrow> n < 8 \<or> 16 \<le> n \<and> n < 24"
    unfolding eqs(1) bit_or_iff bit_push_bit_iff bit_mask_iff by auto
  show "bit (0xFF00FF00 :: uint32) n \<longleftrightarrow> 8 \<le> n \<and> n < 16 \<or> 24 \<le> n \<and> n < 32"
    unfolding eqs(2) bit_or_iff bit_push_bit_iff bit_mask_iff by auto
  show "bit (0x0000FFFF :: uint32) n \<longleftrightarrow> n < 16"
    unfolding eqs(3) bit_mask_iff by auto
  show "bit (0xFFFF0000 :: uint32) n \<longleftrightarrow> 16 \<le> n \<and> n < 32"
    unfolding eqs(4) bit_push_bit_iff bit_mask_iff by auto
qed

lemma bit_bswap:
  assumes "n < 32"
  shows "bit (bswap x) n \<longleftrightarrow>
    bit x (if n < 8 then n + 24 else if n < 16 then n + 8 else if n < 24 then n - 8 else n - 24)"
proof -
  define y where "y = push_bit 8 (x AND 0x00FF00FF) OR drop_bit 8 (x AND 0xFF00FF00)"
  have y: "bit y k \<longleftrightarrow> bit x (if k < 8 \<or> 16 \<le> k \<and> k < 24 then k + 8 else k - 8)" if "k < 32" for k
    unfolding y_def bit_or_iff bit_push_bit_iff bit_drop_bit_eq comp_apply bit_and_iff byte_masks
    using that by (auto simp: add.commute)
  have z: "bit (bswap x) n \<longleftrightarrow> bit y (if n < 16 then n + 16 else n - 16)"
    unfolding bswap_def Let_def y_def [symmetric] bit_or_iff bit_push_bit_iff bit_drop_bit_eq comp_apply
      bit_and_iff byte_masks
    using assms by (auto simp: add.commute)
  have *: "(if n < 16 then n + 16 else n - 16) < 32" using assms by auto
  show ?thesis
    unfolding z y [OF *] using assms by (intro arg_cong [of _ _ "bit x"]) auto
qed

lemma bswap_bswap [simp]: "bswap (bswap x) = x"
proof (rule bit_word_eqI)
  fix n :: nat
  assume "n < LENGTH(32)"
  then show "bit (bswap (bswap x)) n \<longleftrightarrow> bit x n"
    by (auto simp: bit_bswap)
qed

lemma bswap_le_word: "bswap (le_word [a, b, c, d]) = le_word [d, c, b, a]"
proof (rule bit_word_eqI)
  fix n :: nat
  assume "n < LENGTH(32)"
  then have n: "n < 32" by simp
  consider "n < 8" | "8 \<le> n" "n < 16" | "16 \<le> n" "n < 24" | "24 \<le> n" "n < 32" using n by linarith
  then show "bit (bswap (le_word [a, b, c, d])) n \<longleftrightarrow> bit (le_word [d, c, b, a] :: uint32) n"
  proof cases
    case 1
    then have "(n + 24) div 8 = 3" "(n + 24) mod 8 = n"
      using div_mult_self1 [of 8 n 3] mod_mult_self1 [of n 3 8] by simp_all
    with 1 show ?thesis by (simp add: bit_bswap bit_le_word del: le_word.simps)
  next
    case 2
    then have "n div 8 = 1" "(n + 8) div 8 = 2" by simp_all
    with 2 show ?thesis by (simp add: bit_bswap bit_le_word del: le_word.simps)
  next
    case 3
    then have "n div 8 = 2" "(n - 8) div 8 = 1" "(n - 8) mod 8 = n mod 8" by (simp_all add: le_div_geq le_mod_geq)
    moreover have "n - 8 < 32" using 3 by linarith
    ultimately show ?thesis using 3 by (simp add: bit_bswap bit_le_word del: le_word.simps)
  next
    case 4
    then obtain k where "n = k + 24" "k < 8" using le_Suc_ex [of 24 n] by (auto simp: add.commute)
    moreover from this have "(k + 24) div 8 = 3" "(k + 24) mod 8 = k"
      using div_mult_self1 [of 8 k 3] mod_mult_self1 [of k 3 8] by simp_all
    ultimately show ?thesis by (simp add: bit_bswap bit_le_word del: le_word.simps)
  qed
qed

lemma bswap_read32: "bswap (read32 m a) = le_word (rev (read_bytes m a 4))"
proof -
  have "read_bytes m a 4 = [m a, m (a + 1), m (a + 2), m (a + 3)]"
    by (simp add: read_bytes_def upt_rec)
  then show ?thesis by (simp only: read32_def bswap_le_word rev.simps append.simps)
qed

lemma ucast_le_word:
  "length bs \<le> 4 \<Longrightarrow> ucast (le_word bs :: uint32) = (le_word bs :: uint64)"
  by (rule bit_word_eqI) (auto simp: bit_ucast_iff bit_le_word)

lemma get_cells_eq:
  "get_cells m n v (le_word (rev bs)) = (v + of_nat (4 * n), le_word (rev (bs @ read_bytes m v (4 * n))))"
proof (induction n arbitrary: v bs)
  case (Suc n)
  let ?w = "read_bytes m v 4"
  let ?r = "le_word (rev bs) :: uint64"
  have "push_bit 32 ?r + ucast (bswap (read32 m v)) = push_bit 32 ?r OR le_word (rev ?w)"
  proof -
    have "push_bit 32 ?r AND le_word (rev ?w) = 0"
      by (rule bit_word_eqI) (auto simp: bit_and_iff bit_push_bit_iff bit_le_word)
    then show ?thesis
      by (simp add: bswap_read32 ucast_le_word disjunctive_add_eq_or)
  qed
  also have "\<dots> = le_word (rev (bs @ ?w))"
    by (simp add: le_word_append or.commute)
  finally have step: "push_bit 32 ?r + ucast (bswap (read32 m v)) = le_word (rev (bs @ ?w))" .
  have "read_bytes m v (4 + 4 * n) = ?w @ read_bytes m (v + 4) (4 * n)"
    by (simp only: read_bytes_add of_nat_numeral)
  then show ?case
    unfolding get_cells.simps step Suc by simp
qed simp

subsection \<open>Trees\<close>

text \<open>
  The reference for the scan: a tree of nodes with their properties, by the addresses at which their
  names and values are, and a traversal that calls the callbacks in order.  \<open>flat_nodes\<close> says that
  memory holds a sequence of nodes in flattened form from one address up to another.
\<close>

datatype dt_node = DtNode uint64 "uint64 list" "dt_node list"

inductive flat_props :: "memory \<Rightarrow> uint64 \<Rightarrow> uint64 \<Rightarrow> uint64 list \<Rightarrow> uint64 \<Rightarrow> bool" for m strings where
  flat_props_Nil: "flat_props m strings lx [] lx"
| flat_props_nop: "token m lx = FDT_NOP \<Longrightarrow> flat_props m strings (lx + 4) ps lx' \<Longrightarrow> flat_props m strings lx ps lx'"
| flat_props_Cons: "token m lx = FDT_PROP \<Longrightarrow> flat_props m strings (after_prop lx (prop_at m strings lx [])) ps lx' \<Longrightarrow>
    flat_props m strings lx (lx # ps) lx'"

inductive flat_nodes :: "memory \<Rightarrow> uint64 \<Rightarrow> uint64 \<Rightarrow> dt_node list \<Rightarrow> uint64 \<Rightarrow> bool" for m strings where
  flat_nodes_Nil: "flat_nodes m strings lx [] lx"
| flat_nodes_nop: "token m lx = FDT_NOP \<Longrightarrow> flat_nodes m strings (lx + 4) ns lx' \<Longrightarrow> flat_nodes m strings lx ns lx'"
| flat_nodes_Cons: "token m lx = FDT_BEGIN_NODE \<Longrightarrow> strlen m (lx + 4) = Some n \<Longrightarrow>
    flat_props m strings (lx + 8 + 4 * (n div 4)) ps l1 \<Longrightarrow> flat_nodes m strings l1 cs l2 \<Longrightarrow>
    token m l2 = FDT_END_NODE \<Longrightarrow> flat_nodes m strings (l2 + 4) ns lx' \<Longrightarrow>
    flat_nodes m strings lx (DtNode (lx + 4) ps cs # ns) lx'"

fun scan_props :: "uint64 \<Rightarrow> 'x fdt_cb \<Rightarrow> uint64 list \<Rightarrow> node_chain \<Rightarrow> 'x \<Rightarrow> (node_chain \<times> 'x) op" where
  "scan_props strings cb [] node x s = Ret (node, x) s"
| "scan_props strings cb (lx # ps) node x s =
     (let p = prop_at (mem s) strings lx node;
          node1 = set_cells (mem s) (prop_name p) (bswap (read32 (mem s) (lx + 12))) node
      in and_then (cb_prop cb (p\<lparr>prop_node := node1\<rparr>) x) (scan_props strings cb ps node1) s)"

definition done_once :: "'x fdt_cb \<Rightarrow> bool \<Rightarrow> node_chain \<Rightarrow> 'x \<Rightarrow> 'x op" where
  "done_once cb lst node x = (if \<not> lst \<and> node \<noteq> [] then call_cb (cb_done cb) node x else ret x)"

text \<open>The siblings of a node are scanned with one variable, so that a node starts with the cell counts
  its elder sibling was left with.\<close>

fun scan_nodes ::
    "uint64 \<Rightarrow> 'x fdt_cb \<Rightarrow> node_chain \<Rightarrow> dt_node list \<Rightarrow> fdt_scan_node \<Rightarrow> bool \<Rightarrow> 'x \<Rightarrow> (fdt_scan_node \<times> bool \<times> 'x) op" where
  "scan_nodes strings cb node [] child lst x s = Ret (child, lst, x) s"
| "scan_nodes strings cb node (DtNode nm ps cs # ns) child lst x s =
     and_then (done_once cb lst node x) (\<lambda>x1.
       let child1 = child\<lparr>node_name := nm\<rparr> in
       and_then (call_cb (cb_open cb) (child1 # node) x1) (\<lambda>x2.
         and_then (scan_props strings cb ps (child1 # node) x2) (\<lambda>(chain, x3).
           and_then (scan_nodes strings cb chain cs new_child False x3) (\<lambda>(_, lst', x4).
             and_then (done_once cb lst' chain x4) (\<lambda>x5.
               scan_nodes strings cb node ns (hd chain) True x5))))) s"

lemma dt_nodes_induct [case_names Nil Cons]:
  assumes "P []" and "\<And>nm ps cs ns. P cs \<Longrightarrow> P ns \<Longrightarrow> P (DtNode nm ps cs # ns)"
  shows "P ns"
proof (induction ns rule: measure_induct_rule [of "size_list size"])
  case (less ns)
  show ?case
  proof (cases ns)
    case (Cons n ns')
    moreover obtain nm ps cs where "n = DtNode nm ps cs" by (cases n)
    ultimately show ?thesis using less assms(2) by simp
  qed (simp add: assms(1))
qed

text \<open>Callbacks that leave memory alone, and so the scan.\<close>

definition keeps_mem :: "'a op \<Rightarrow> bool" where
  "keeps_mem f \<longleftrightarrow> (\<forall>s y t. f s = Ret y t \<longrightarrow> mem t = mem s)"

definition quiet :: "'x fdt_cb \<Rightarrow> bool" where
  "quiet cb \<longleftrightarrow> cb_close cb = None \<and> (\<forall>p x. keeps_mem (cb_prop cb p x))
     \<and> (\<forall>node x. keeps_mem (call_cb (cb_open cb) node x) \<and> keeps_mem (call_cb (cb_done cb) node x))"

lemma keeps_memD: "keeps_mem f \<Longrightarrow> f s = Ret y t \<Longrightarrow> mem t = mem s"
  by (auto simp: keeps_mem_def)

lemma keeps_mem_ret [simp]: "keeps_mem (ret x)" "keeps_mem (Ret x)"
  by (simp_all add: keeps_mem_def ret_def)

lemma keeps_mem_and_then:
  "keeps_mem f \<Longrightarrow> (\<And>x. keeps_mem (g x)) \<Longrightarrow> keeps_mem (and_then f g)"
  unfolding keeps_mem_def by (metis and_then_RetE)

lemma keeps_mem_done_once: "quiet cb \<Longrightarrow> keeps_mem (done_once cb lst node x)"
  by (simp add: quiet_def done_once_def)

lemma quiet_mem:
  assumes "quiet cb"
  shows "cb_prop cb p x s = Ret y t \<Longrightarrow> mem t = mem s"
    and "call_cb (cb_open cb) node x s = Ret y t \<Longrightarrow> mem t = mem s"
    and "done_once cb lst node x s = Ret y t \<Longrightarrow> mem t = mem s"
  using assms keeps_mem_done_once [OF assms, of lst node x] by (auto simp: quiet_def keeps_mem_def)

lemma scan_props_keeps: "quiet cb \<Longrightarrow> keeps_mem (scan_props strings cb ps node x)"
proof (induction ps arbitrary: node x)
  case (Cons p ps)
  show ?case
    unfolding keeps_mem_def
  proof (intro allI impI)
    fix s y t
    assume "scan_props strings cb (p # ps) node x s = Ret y t"
    then obtain q x1 s1 node1 where "cb_prop cb q x s = Ret x1 s1" "scan_props strings cb ps node1 x1 s1 = Ret y t"
      by (auto simp: Let_def split: outcome.splits)
    then show "mem t = mem s"
      using Cons by (metis keeps_memD quiet_def)
  qed
qed (simp add: keeps_mem_def)

lemma scan_nodes_keeps: "quiet cb \<Longrightarrow> keeps_mem (scan_nodes strings cb node ns child lst x)"
proof (induction ns arbitrary: node child lst x rule: dt_nodes_induct)
  case Nil
  then show ?case by (simp add: keeps_mem_def)
next
  case (Cons nm ps cs ns)
  have "scan_nodes strings cb node (DtNode nm ps cs # ns) child lst x =
     and_then (done_once cb lst node x) (\<lambda>x1.
       and_then (call_cb (cb_open cb) (child\<lparr>node_name := nm\<rparr> # node) x1) (\<lambda>x2.
         and_then (scan_props strings cb ps (child\<lparr>node_name := nm\<rparr> # node) x2) (\<lambda>(chain, x3).
           and_then (scan_nodes strings cb chain cs new_child False x3) (\<lambda>(_, lst', x4).
             and_then (done_once cb lst' chain x4) (\<lambda>x5.
               scan_nodes strings cb node ns (hd chain) True x5)))))"
    by (simp add: fun_eq_iff Let_def)
  then show ?case
    using Cons keeps_mem_done_once [OF Cons.prems] scan_props_keeps [OF Cons.prems]
    by (auto simp del: and_then.simps simp: quiet_def intro!: keeps_mem_and_then split: prod.split)
qed

lemma bind_after:
  "Option.bind (after r k) (\<lambda>q. after q K) = after r (\<lambda>x s. Option.bind (k x s) (\<lambda>q. after q K))"
  by (cases r) simp_all

text \<open>One round of the scan.\<close>

lemma helper_nop:
  "token (mem s) lx = FDT_NOP \<Longrightarrow>
    fdt_scan_helper E strings cb lx node child lst x s = fdt_scan_helper E strings cb (lx + 4) node child lst x s"
  by (subst fdt_scan_helper.simps) (simp add: Let_def)

lemma helper_prop:
  "token (mem s) lx = FDT_PROP \<Longrightarrow>
    fdt_scan_helper E strings cb lx node child False x s =
      (let p = prop_at (mem s) strings lx node;
           node1 = set_cells (mem s) (prop_name p) (bswap (read32 (mem s) (lx + 12))) node
       in after (cb_prop cb (p\<lparr>prop_node := node1\<rparr>) x s) (\<lambda>x1 s2.
            fdt_scan_helper E strings cb (after_prop lx p) node1 child False x1 s2))"
  by (subst fdt_scan_helper.simps) (simp add: Let_def const_defs assert_def ret_def)

lemma helper_end:
  "token (mem s) lx = FDT_END_NODE \<Longrightarrow>
    fdt_scan_helper E strings cb lx node child lst x s =
      after (done_once cb lst node x s) (\<lambda>x1 s1. Some (Ret (lx + 4, node, x1) s1))"
  by (subst fdt_scan_helper.simps) (simp add: Let_def const_defs done_once_def ret_def)

lemma helper_begin:
  assumes "cb_close cb = None" and "token (mem s) lx = FDT_BEGIN_NODE"
  shows "fdt_scan_helper E strings cb lx node child lst x s =
    after (done_once cb lst node x s) (\<lambda>x1 s1.
      after (call_cb (cb_open cb) (child\<lparr>node_name := lx + 4\<rparr> # node) x1 s1) (\<lambda>x2 s2.
        Option.bind (strlen (mem s2) (lx + 4)) (\<lambda>n.
          Option.bind (fdt_scan_helper E strings cb (lx + 8 + 4 * (n div 4)) (child\<lparr>node_name := lx + 4\<rparr> # node)
              new_child False x2 s2)
            (\<lambda>r. after r (\<lambda>(lx_next, chain, x3) s3.
              fdt_scan_helper E strings cb lx_next node (hd chain) True x3 s3)))))"
  using assms by (subst fdt_scan_helper.simps) (simp add: Let_def const_defs done_once_def ret_def cong: if_cong)

lemma scan_props_eq:
  assumes "flat_props m strings lx ps lx'" and "quiet cb" and "mem s = m"
  shows "fdt_scan_helper E strings cb lx node child False x s =
    after (scan_props strings cb ps node x s)
      (\<lambda>(node1, x1) t. fdt_scan_helper E strings cb lx' node1 child False x1 t)"
  using assms
proof (induction arbitrary: node x s rule: flat_props.induct)
  case (flat_props_nop lx ps lx')
  then show ?case by (subst helper_nop) simp_all
next
  case (flat_props_Cons lx ps lx')
  let ?p = "prop_at m strings lx node"
  let ?n = "set_cells m (prop_name ?p) (bswap (read32 m (lx + 12))) node"
  have len: "after_prop lx ?p = after_prop lx (prop_at m strings lx [])"
    by (simp add: after_prop_def prop_at_def)
  have "fdt_scan_helper E strings cb lx node child False x s =
      after (cb_prop cb (?p\<lparr>prop_node := ?n\<rparr>) x s) (\<lambda>x1 t.
        fdt_scan_helper E strings cb (after_prop lx ?p) ?n child False x1 t)"
    using flat_props_Cons by (subst helper_prop) (simp_all add: Let_def)
  also have "\<dots> = after (cb_prop cb (?p\<lparr>prop_node := ?n\<rparr>) x s) (\<lambda>x1 t.
        after (scan_props strings cb ps ?n x1 t)
          (\<lambda>(node1, x1) t. fdt_scan_helper E strings cb lx' node1 child False x1 t))"
    unfolding len using flat_props_Cons.prems quiet_mem(1) [OF flat_props_Cons.prems(1)]
    by (intro after_cong refl flat_props_Cons.IH) auto
  also have "\<dots> = after (scan_props strings cb (lx # ps) node x s)
      (\<lambda>(node1, x1) t. fdt_scan_helper E strings cb lx' node1 child False x1 t)"
    using flat_props_Cons.prems(2) by (simp add: Let_def after_and_then del: and_then.simps)
  finally show ?case .
qed simp

lemma scan_nodes_eq:
  assumes "flat_nodes m strings lx ns lx'" and "quiet cb" and "mem s = m"
  shows "fdt_scan_helper E strings cb lx node child lst x s =
    after (scan_nodes strings cb node ns child lst x s)
      (\<lambda>(child1, lst1, x1) t. fdt_scan_helper E strings cb lx' node child1 lst1 x1 t)"
  using assms
proof (induction arbitrary: node child lst x s rule: flat_nodes.induct)
  case (flat_nodes_nop lx ns lx')
  then show ?case by (subst helper_nop) simp_all
next
  case (flat_nodes_Cons lx n ps l1 cs l2 ns lx')
  note q = flat_nodes_Cons.prems(1)
  let ?c = "child\<lparr>node_name := lx + 4\<rparr>"
  let ?rest = "\<lambda>(child1, lst1, x1) t. fdt_scan_helper E strings cb lx' node child1 lst1 x1 t"
  have inner: "fdt_scan_helper E strings cb (lx + 8 + 4 * (n div 4)) (?c # node) new_child False x2 s2 =
      after (scan_props strings cb ps (?c # node) x2 s2) (\<lambda>(chain, x3) s3.
        after (scan_nodes strings cb chain cs new_child False x3 s3) (\<lambda>(_, lst', x4) s4.
          after (done_once cb lst' chain x4 s4) (\<lambda>x5 s5. Some (Ret (l2 + 4, chain, x5) s5))))"
    if "mem s2 = m" for x2 s2
    unfolding scan_props_eq [OF flat_nodes_Cons.hyps(3) q that]
  proof (intro after_cong refl, clarify)
    fix chain x3 s3
    assume "scan_props strings cb ps (?c # node) x2 s2 = Ret (chain, x3) s3"
    then have 3: "mem s3 = m"
      using scan_props_keeps [OF q] that by (metis keeps_memD)
    show "fdt_scan_helper E strings cb l1 chain new_child False x3 s3 =
      after (scan_nodes strings cb chain cs new_child False x3 s3) (\<lambda>(_, lst', x4) s4.
          after (done_once cb lst' chain x4 s4) (\<lambda>x5 s5. Some (Ret (l2 + 4, chain, x5) s5)))"
      unfolding flat_nodes_Cons.IH(1) [OF q 3]
      using scan_nodes_keeps [OF q] 3 flat_nodes_Cons.hyps(5)
      by (intro after_cong refl) (auto simp: helper_end keeps_mem_def)
  qed
  have tail: "fdt_scan_helper E strings cb (l2 + 4) node c True x5 s5 = after (scan_nodes strings cb node ns c True x5 s5) ?rest"
    if "mem s5 = m" for c x5 s5
    by (rule flat_nodes_Cons.IH(2) [OF q that])
  have node: "Option.bind (fdt_scan_helper E strings cb (lx + 8 + 4 * (n div 4)) (?c # node) new_child False x2 s2)
      (\<lambda>r. after r (\<lambda>(lx_next, chain, x3) s3. fdt_scan_helper E strings cb lx_next node (hd chain) True x3 s3)) =
      after (scan_props strings cb ps (?c # node) x2 s2) (\<lambda>(chain, x3) s3.
        after (scan_nodes strings cb chain cs new_child False x3 s3) (\<lambda>(_, lst', x4) s4.
          after (done_once cb lst' chain x4 s4) (\<lambda>x5 s5.
            after (scan_nodes strings cb node ns (hd chain) True x5 s5) ?rest)))"
    if "mem s2 = m" for x2 s2
    unfolding inner [OF that] bind_after
  proof (intro after_cong refl, clarify)
    fix chain x3 s3
    assume "scan_props strings cb ps (?c # node) x2 s2 = Ret (chain, x3) s3"
    then have 3: "mem s3 = m"
      using scan_props_keeps [OF q] that by (metis keeps_memD)
    have 4: "mem s4 = m" if "scan_nodes strings cb chain cs new_child False x3 s3 = Ret r s4" for r s4
      using scan_nodes_keeps [OF q] 3 that by (metis keeps_memD)
    show "Option.bind (after (scan_nodes strings cb chain cs new_child False x3 s3) (\<lambda>(_, lst', x4) s4.
          after (done_once cb lst' chain x4 s4) (\<lambda>x5 s5. Some (Ret (l2 + 4, chain, x5) s5))))
        (\<lambda>r. after r (\<lambda>(lx_next, chain, x3) s3. fdt_scan_helper E strings cb lx_next node (hd chain) True x3 s3)) =
      after (scan_nodes strings cb chain cs new_child False x3 s3) (\<lambda>(_, lst', x4) s4.
          after (done_once cb lst' chain x4 s4) (\<lambda>x5 s5.
            after (scan_nodes strings cb node ns (hd chain) True x5 s5) ?rest))"
      unfolding bind_after
      by (intro after_cong refl, clarify, unfold bind_after, intro after_cong refl)
        (auto simp: tail dest!: 4 quiet_mem(3) [OF q])
  qed
  have "fdt_scan_helper E strings cb lx node child lst x s =
    after (done_once cb lst node x s) (\<lambda>x1 s1.
      after (call_cb (cb_open cb) (?c # node) x1 s1) (\<lambda>x2 s2.
        after (scan_props strings cb ps (?c # node) x2 s2) (\<lambda>(chain, x3) s3.
        after (scan_nodes strings cb chain cs new_child False x3 s3) (\<lambda>(_, lst', x4) s4.
          after (done_once cb lst' chain x4 s4) (\<lambda>x5 s5.
            after (scan_nodes strings cb node ns (hd chain) True x5 s5) ?rest)))))"
    using q flat_nodes_Cons.prems(2) flat_nodes_Cons.hyps(1,2)
    by (subst helper_begin, simp add: quiet_def, simp, intro after_cong refl)
      (auto simp: node dest!: quiet_mem(2,3) [OF q])
  also have "\<dots> = after (scan_nodes strings cb node (DtNode (lx + 4) ps cs # ns) child lst x s) ?rest"
    by (simp add: Let_def after_and_then del: and_then.simps cong: after_cong) (simp add: case_prod_unfold after_and_then del: and_then.simps)
  finally show ?case .
qed simp

text \<open>A blob the scanner understands, with the tree it holds.\<close>

definition blob_strings :: "memory \<Rightarrow> uint64 \<Rightarrow> uint64" where
  "blob_strings m fdt = fdt + ucast (bswap (hdr_off_dt_strings (read_fdt_header m fdt)))"

definition blob_struct :: "memory \<Rightarrow> uint64 \<Rightarrow> uint64" where
  "blob_struct m fdt = fdt + ucast (bswap (hdr_off_dt_struct (read_fdt_header m fdt)))"

definition fdt_header_ok :: "memory \<Rightarrow> uint64 \<Rightarrow> bool" where
  "fdt_header_ok m fdt \<longleftrightarrow> bswap (hdr_magic (read_fdt_header m fdt)) = FDT_MAGIC
     \<and> bswap (hdr_last_comp_version (read_fdt_header m fdt)) \<le> FDT_VERSION"

definition holds_tree :: "memory \<Rightarrow> uint64 \<Rightarrow> dt_node list \<Rightarrow> bool" where
  "holds_tree m fdt ns \<longleftrightarrow> fdt_header_ok m fdt
     \<and> (\<exists>lx. flat_nodes m (blob_strings m fdt) (blob_struct m fdt) ns lx \<and> token m lx = FDT_END)"

lemma helper_FDT_END:
  "token (mem s) lx = FDT_END \<Longrightarrow> fdt_scan_helper E strings cb lx [] child lst x s = Some (Ret (lx, [], x) s)"
  by (subst fdt_scan_helper.simps) (simp add: Let_def const_defs)

lemma diverging_after:
  "diverging (after r (\<lambda>x s. Some (k x s))) = (case r of Ret x s \<Rightarrow> k x s | _ \<Rightarrow> no_return r)"
  by (cases r) (simp_all)

lemma fdt_scan_eq:
  assumes "quiet cb" and "holds_tree (mem s) fdt ns"
  shows "fdt_scan E fdt cb x s =
    and_then (scan_nodes (blob_strings (mem s) fdt) cb [] ns new_child False x) (\<lambda>(_, _, y). ret y) s"
proof -
  let ?m = "mem s" and ?str = "blob_strings (mem s) fdt"
  let ?r = "scan_nodes ?str cb [] ns new_child False x s"
  obtain lx where flat: "flat_nodes ?m ?str (blob_struct ?m fdt) ns lx" and fin: "token ?m lx = FDT_END"
    and ok: "fdt_header_ok ?m fdt"
    using assms(2) by (auto simp: holds_tree_def)
  have "fdt_scan_helper E ?str cb (blob_struct ?m fdt) [] new_child False x s =
      after ?r (\<lambda>(c, l, y) t. fdt_scan_helper E ?str cb lx [] c l y t)"
    by (rule scan_nodes_eq [OF flat assms(1) refl])
  also have "\<dots> = after ?r (\<lambda>(c, l, y) t. Some (Ret (lx, [], y) t))"
    using scan_nodes_keeps [OF assms(1)] fin
    by (intro after_cong refl) (auto simp: helper_FDT_END keeps_mem_def)
  finally have "diverging (fdt_scan_helper E ?str cb (blob_struct ?m fdt) [] new_child False x s) =
      (case ?r of Ret (c, l, y) t \<Rightarrow> Ret (lx, [], y) t | r \<Rightarrow> no_return r)"
    by (cases ?r) auto
  moreover have "fdt_scan E fdt cb x s =
      and_then (\<lambda>s. diverging (fdt_scan_helper E ?str cb (blob_struct ?m fdt) [] new_child False x s)) (\<lambda>(_, _, y). ret y) s"
    using ok by (auto simp add: fdt_scan_def Let_def fdt_header_ok_def blob_strings_def blob_struct_def simp del: and_then.simps dest: leD)
  ultimately show ?thesis
    by (cases ?r) (auto simp: ret_def)
qed

subsection \<open>The clients\<close>

lemma quiet_htif: "quiet htif_cb"
  by (auto simp: quiet_def htif_cb_def keeps_mem_def call_cb_def htif_open_def htif_prop_def htif_done_def ret_def
      split: if_splits)

text \<open>A property with a given name whose value is a given string, anywhere in a tree.\<close>

definition prop_is :: "memory \<Rightarrow> uint64 \<Rightarrow> string \<Rightarrow> string \<Rightarrow> uint64 \<Rightarrow> bool" where
  "prop_is m strings nm val lx \<longleftrightarrow>
     cstr_at m (prop_name (prop_at m strings lx [])) (bytes_of nm) \<and> cstr_at m (lx + 12) (bytes_of val)"

fun has_prop :: "memory \<Rightarrow> uint64 \<Rightarrow> string \<Rightarrow> string \<Rightarrow> dt_node \<Rightarrow> bool" where
  "has_prop m strings nm val (DtNode _ ps cs) \<longleftrightarrow>
     (\<exists>lx\<in>set ps. prop_is m strings nm val lx) \<or> (\<exists>c\<in>set cs. has_prop m strings nm val c)"

lemma htif_prop_eq:
  "htif_prop (prop_at (mem s) strings lx node\<lparr>prop_node := node1\<rparr>) x s =
    Ret (if prop_is (mem s) strings ''compatible'' ''ucb,htif0'' lx then x\<lparr>compat := 1\<rparr> else x) s"
proof -
  have "0 \<notin> set (bytes_of ''compatible'')" "0 \<notin> set (bytes_of ''ucb,htif0'')"
    by (simp_all add: bytes_of_def byte_of_def)
  then show ?thesis
    by (simp add: htif_prop_def prop_is_def prop_at_def strcmp_lit_eq_0_iff)
qed

lemma set_cells_Nil: "set_cells m nm v node = [] \<longleftrightarrow> node = []"
  by (cases node) (simp_all add: set_cells_def Let_def)

lemma scan_props_htif:
  "\<exists>node1. scan_props strings htif_cb ps node x s =
      Ret (node1, if \<exists>lx\<in>set ps. prop_is (mem s) strings ''compatible'' ''ucb,htif0'' lx then x\<lparr>compat := 1\<rparr> else x) s
    \<and> (node1 = [] \<longleftrightarrow> node = [])"
proof (induction ps arbitrary: node x)
  case (Cons lx ps)
  let ?is = "prop_is (mem s) strings ''compatible'' ''ucb,htif0''"
  let ?n = "set_cells (mem s) (prop_name (prop_at (mem s) strings lx node)) (bswap (read32 (mem s) (lx + 12))) node"
  have "scan_props strings htif_cb (lx # ps) node x s =
      scan_props strings htif_cb ps ?n (if ?is lx then x\<lparr>compat := 1\<rparr> else x) s"
    by (simp add: Let_def htif_cb_def htif_prop_eq)
  with Cons [of ?n "if ?is lx then x\<lparr>compat := 1\<rparr> else x"] show ?case
    by (auto simp: set_cells_Nil split: if_splits)
qed simp

text \<open>Scanning nodes for the host interface: the parent's \<^verbatim>\<open>done\<close> comes with its first child.\<close>

lemma scan_nodes_htif:
  fixes s :: kstate and strings :: uint64
  defines "is \<equiv> has_prop (mem s) strings ''compatible'' ''ucb,htif0''"
  shows "mem t = mem s \<Longrightarrow> \<exists>c y. scan_nodes strings htif_cb node ns child lst x t =
      Ret (c, lst \<or> ns \<noteq> [], y)
        (t\<lparr>htif := if ns \<noteq> [] \<and> \<not> lst \<and> node \<noteq> [] \<and> compat x \<noteq> 0 \<or> (\<exists>n\<in>set ns. is n) then 1 else htif t\<rparr>)
    \<and> (ns = [] \<longrightarrow> y = x)"
proof (induction ns arbitrary: node child lst x t rule: dt_nodes_induct)
  case (Cons nm ps cs ns)
  let ?c = "child\<lparr>node_name := nm\<rparr>"
  let ?is = "prop_is (mem s) strings ''compatible'' ''ucb,htif0''"
  define b0 where "b0 \<longleftrightarrow> \<not> lst \<and> node \<noteq> [] \<and> compat x \<noteq> 0"
  define t1 where "t1 = t\<lparr>htif := if b0 then 1 else htif t\<rparr>"
  have d: "done_once htif_cb l nd z u = Ret z (u\<lparr>htif := if \<not> l \<and> nd \<noteq> [] \<and> compat z \<noteq> 0 then 1 else htif u\<rparr>)" for l nd z u
    by (simp add: done_once_def htif_cb_def call_cb_def htif_done_def ret_def)
  define b1 where "b1 \<longleftrightarrow> (\<exists>lx\<in>set ps. ?is lx)"
  obtain chain where chain: "chain \<noteq> []" and p: "scan_props strings htif_cb ps (?c # node) \<lparr>compat = 0\<rparr> t1 =
      Ret (chain, \<lparr>compat = if b1 then 1 else 0\<rparr>) t1"
    using scan_props_htif [of strings ps "?c # node" "\<lparr>compat = 0\<rparr>" t1] Cons.prems
    by (auto simp: t1_def b1_def split: if_splits)
  let ?x = "\<lparr>compat = if b1 then 1 else 0\<rparr> :: htif_scan"
  have m1: "mem t1 = mem s" using Cons.prems by (simp add: t1_def)
  obtain c y where k: "scan_nodes strings htif_cb chain cs new_child False ?x t1 =
      Ret (c, cs \<noteq> [], y) (t1\<lparr>htif := if cs \<noteq> [] \<and> b1 \<or> (\<exists>n\<in>set cs. is n) then 1 else htif t1\<rparr>)"
    and y: "cs = [] \<Longrightarrow> y = ?x"
    using Cons.IH(1) [OF m1, of chain new_child False ?x] chain by auto
  define t2 where "t2 = t1\<lparr>htif := if b1 \<or> (\<exists>n\<in>set cs. is n) then 1 else htif t1\<rparr>"
  have e: "done_once htif_cb (cs \<noteq> []) chain y (t1\<lparr>htif := if cs \<noteq> [] \<and> b1 \<or> (\<exists>n\<in>set cs. is n) then 1 else htif t1\<rparr>) = Ret y t2"
    using y chain by (cases "cs = []") (auto simp: d t2_def)
  have "scan_nodes strings htif_cb node (DtNode nm ps cs # ns) child lst x t =
      scan_nodes strings htif_cb node ns (hd chain) True y t2"
    using d [of lst node x t] p k e
    by (simp add: Let_def t1_def [unfolded b0_def, symmetric]) (simp add: htif_cb_def call_cb_def htif_open_def ret_def)
  moreover obtain c' y' where "scan_nodes strings htif_cb node ns (hd chain) True y t2 =
      Ret (c', True, y') (t2\<lparr>htif := if \<exists>n\<in>set ns. is n then 1 else htif t2\<rparr>)"
    using Cons.IH(2) [of t2 node "hd chain" True y] m1 by (auto simp: t2_def)
  moreover have "is (DtNode nm ps cs) \<longleftrightarrow> b1 \<or> (\<exists>n\<in>set cs. is n)"
    by (simp add: is_def b1_def)
  then have "t2\<lparr>htif := if \<exists>n\<in>set ns. is n then 1 else htif t2\<rparr> =
      t\<lparr>htif := if b0 \<or> (\<exists>n\<in>set (DtNode nm ps cs # ns). is n) then 1 else htif t\<rparr>"
    by (simp add: t2_def t1_def)
  ultimately show ?case
    unfolding b0_def by simp
qed simp

text \<open>The address ranges of a \<^verbatim>\<open>reg\<close> property with \<open>a\<close> address cells and \<open>z\<close> size cells, as big-endian
  numbers, and the size of the last one that holds an address.\<close>

definition be_number :: "memory \<Rightarrow> uint64 \<Rightarrow> nat \<Rightarrow> uint64" where
  "be_number m v n = le_word (rev (read_bytes m v (4 * n)))"

primrec reg_ranges :: "memory \<Rightarrow> nat \<Rightarrow> nat \<Rightarrow> uint64 \<Rightarrow> nat \<Rightarrow> (uint64 \<times> uint64) list" where
  "reg_ranges m a z v 0 = []"
| "reg_ranges m a z v (Suc k) =
     (be_number m v a, be_number m (v + of_nat (4 * a)) z) # reg_ranges m a z (v + of_nat (4 * (a + z))) k"

fun pick_size :: "uint64 \<Rightarrow> uint64 \<Rightarrow> (uint64 \<times> uint64) list \<Rightarrow> uint64" where
  "pick_size self g [] = g"
| "pick_size self g ((base, sz) # rs) =
     pick_size self (if base \<le> self \<and> self \<le> base + sz then sz else g) rs"

lemma get_address_eq: "fdt_get_address m node v =
    (v + of_nat (4 * nat (sint (address_cells node))), be_number m v (nat (sint (address_cells node))))"
  and get_size_eq: "fdt_get_size m node v =
    (v + of_nat (4 * nat (sint (size_cells node))), be_number m v (nat (sint (size_cells node))))"
  using get_cells_eq [of m _ v "[]"]
  by (simp_all add: fdt_get_address_def fdt_get_size_def be_number_def)

lemma mem_done_loop_eq:
  assumes "a = nat (sint (address_cells parent))" and "z = nat (sint (size_cells parent))" and "0 < a + z"
    and "4 * (a + z) * k < 2 ^ 31"
  shows "mem_done_loop E (n # parent # ns) v (v + of_nat (4 * (a + z) * k)) s =
    Some (Ret (v + of_nat (4 * (a + z) * k))
      (s\<lparr>g_mem_size := pick_size (mem_done_addr E) (g_mem_size s) (reg_ranges (mem s) a z v k)\<rparr>))"
  using assms(4)
proof (induction k arbitrary: v s)
  case 0
  then show ?case by (subst mem_done_loop.simps) simp
next
  case (Suc k)
  let ?c = "4 * (a + z)"
  have u: "unat (of_nat (?c * Suc k) :: uint64) = ?c * Suc k"
    using Suc.prems by (intro unat_of_nat_small) simp
  have "sint (of_nat (?c * Suc k) :: uint64) = int (?c * Suc k)"
    using sint_small [of "of_nat (?c * Suc k) :: uint64"] Suc.prems unfolding u by simp
  moreover have "0 < ?c * Suc k" using assms(3) by simp
  ultimately have pos: "0 < sint (v + of_nat (?c * Suc k) - v)"
    by (simp only: add_diff_cancel_left' of_nat_0_less_iff)
  have split: "v + of_nat (?c * Suc k) = (v + of_nat ?c) + of_nat (?c * k)"
    by (simp add: algebra_simps)
  have v2: "v + of_nat (4 * a) + of_nat (4 * z) = v + of_nat ?c"
    by simp
  let ?b = "be_number (mem s) v a" and ?z = "be_number (mem s) (v + of_nat (4 * a)) z"
  let ?s = "if ?b \<le> mem_done_addr E \<and> mem_done_addr E \<le> ?b + ?z then s\<lparr>g_mem_size := ?z\<rparr> else s"
  have "mem_done_loop E (n # parent # ns) v (v + of_nat (?c * Suc k)) s =
      mem_done_loop E (n # parent # ns) (v + of_nat ?c) (v + of_nat (?c * Suc k)) ?s"
    using pos
    by (subst mem_done_loop.simps)
      (simp only: if_True list.sel list.case Let_def get_address_eq get_size_eq case_prod_conv
        assms(1,2) [symmetric] v2)
  also have "\<dots> = Some (Ret (v + of_nat (?c * Suc k))
      (?s\<lparr>g_mem_size := pick_size (mem_done_addr E) (g_mem_size ?s) (reg_ranges (mem ?s) a z (v + of_nat ?c) k)\<rparr>))"
    unfolding split using Suc.prems by (intro Suc.IH) simp
  finally show ?case by simp
qed

lemma int_div4_of_nat: "4 * q < 2 ^ 31 \<Longrightarrow> int_div4 (of_nat (4 * q)) = of_nat q"
proof -
  assume q: "4 * q < 2 ^ 31"
  have u: "unat (of_nat (4 * q) :: int32) = 4 * q"
    using q by (intro unat_of_nat_small) simp
  have "sint (of_nat (4 * q) :: int32) = int (4 * q)"
    using sint_small [of "of_nat (4 * q) :: int32"] q unfolding u by simp
  then show ?thesis by (simp add: int_div4_def)
qed

lemma mem_done_eq:
  assumes "a = nat (sint (address_cells parent))" and "z = nat (sint (size_cells parent))" and "0 < a + z"
    and "4 * (a + z) * k < 2 ^ 31" and "scan_memory scan \<noteq> 0" and "reg_value scan \<noteq> 0"
    and "reg_len scan = of_nat (4 * (a + z) * k)"
  shows "mem_done E (n # parent # ns) scan s = Ret scan
    (s\<lparr>g_mem_size := pick_size (mem_done_addr E) (g_mem_size s) (reg_ranges (mem s) a z (reg_value scan) k)\<rparr>)"
proof -
  let ?q = "(a + z) * k"
  have q: "4 * ?q < 2 ^ 31" "reg_len scan = of_nat (4 * ?q)"
    using assms(4,7) by (simp_all only: mult.assoc)
  have u: "unat (of_nat (4 * ?q) :: int32) = 4 * ?q"
    using q(1) by (intro unat_of_nat_small) simp
  have "sint (of_nat (4 * ?q) :: int32) = int (4 * ?q)"
    using sint_small [of "of_nat (4 * ?q) :: int32"] q(1) unfolding u by simp
  then have m4: "sint (reg_len scan) mod 4 = 0"
    unfolding q(2) by simp
  have sc: "(scast (of_nat ?q :: int32) :: uint64) = of_nat ?q"
    by (rule scast_small_int32) (use q(1) in linarith)
  have fin: "reg_value scan + 4 * scast (int_div4 (reg_len scan)) = reg_value scan + of_nat (4 * (a + z) * k)"
    unfolding q(2) int_div4_of_nat [OF q(1)] sc by (simp add: algebra_simps)
  note loop = mem_done_loop_eq [OF assms(1-4), of E n ns "reg_value scan" s]
  show ?thesis
    unfolding mem_done_def Let_def fin
    by (simp only: assms(5,6) m4 if_False assert_def outcome_defs simp_thms and_then.simps outcome.case loop
        diverging_Some fun_app_def if_True not_True_eq_False)
qed

subsection \<open>Properties\<close>

text \<open>
  C27.  Scanning a flattened tree ends and calls the callbacks as the traversal of the tree does: \<^verbatim>\<open>open\<close> for
  a node, its properties in order, \<^verbatim>\<open>done\<close> once before the first child or at the end, then the children.
  A blob with another magic number or a newer version is left alone.
\<close>

theorem fdt_scan_correct:
  assumes "quiet cb"
  shows "(holds_tree (mem s) fdt ns \<longrightarrow> fdt_scan E fdt cb x s =
      and_then (scan_nodes (blob_strings (mem s) fdt) cb [] ns new_child False x) (\<lambda>(_, _, y). ret y) s)
    \<and> (\<not> fdt_header_ok (mem s) fdt \<longrightarrow> fdt_scan E fdt cb x s = Ret x s)"
proof (intro conjI impI)
  show "fdt_scan E fdt cb x s =
      and_then (scan_nodes (blob_strings (mem s) fdt) cb [] ns new_child False x) (\<lambda>(_, _, y). ret y) s"
    if "holds_tree (mem s) fdt ns"
    using assms that by (rule fdt_scan_eq)
  show "fdt_scan E fdt cb x s = Ret x s" if "\<not> fdt_header_ok (mem s) fdt"
    using that by (auto simp: fdt_scan_def fdt_header_ok_def Let_def not_le)
qed

lemma query_htif_eq:
  assumes "holds_tree (mem s) fdt ns"
  shows "query_htif scan E fdt s = Ret ()
    (s\<lparr>htif := if \<exists>n\<in>set ns. has_prop (mem s) (blob_strings (mem s) fdt) ''compatible'' ''ucb,htif0'' n
      then 1 else htif s\<rparr>)"
  using scan_nodes_htif [OF refl, where s = s and strings = "blob_strings (mem s) fdt" and node = "[]" and ns = ns
      and child = new_child and lst = False and x = scan]
  by (auto simp: query_htif_def seq_def ret_def fdt_scan_eq [OF quiet_htif assms])

subsection \<open>Instances\<close>

text \<open>A blob whose root node is the host interface.\<close>

definition sample_blob :: "uint8 list" where
  "sample_blob =
     [0xd0, 0x0d, 0xfe, 0xed, 0, 0, 0, 91, 0, 0, 0, 40, 0, 0, 0, 80, 0, 0, 0, 0, 0, 0, 0, 17, 0, 0, 0, 16, 0, 0, 0, 0,
      0, 0, 0, 11, 0, 0, 0, 40]
     @ [0, 0, 0, 1, 0, 0, 0, 0] @ [0, 0, 0, 3, 0, 0, 0, 10, 0, 0, 0, 0] @ bytes_of ''ucb,htif0'' @ [0, 0, 0]
     @ [0, 0, 0, 2, 0, 0, 0, 9] @ bytes_of ''compatible'' @ [0]"

definition sample_dtb :: memory where
  "sample_dtb = write_bytes (\<lambda>_. 0) 0x1000 sample_blob"

lemma length_sample_blob: "length sample_blob = 91"
  by (simp add: sample_blob_def bytes_of_def)

lemma sample_word:
  "j + 4 \<le> 91 \<Longrightarrow> bswap (read32 sample_dtb (0x1000 + of_nat j)) = le_word (rev (take 4 (drop j sample_blob)))"
  using read_write_bytes_sub [of j 4 sample_blob "\<lambda>_. 0" "0x1000"]
  by (simp add: bswap_read32 sample_dtb_def length_sample_blob)

lemma sample_words:
  "bswap (read32 sample_dtb 0x1000) = 0xd00dfeed" "bswap (read32 sample_dtb 0x1008) = 40"
  "bswap (read32 sample_dtb 0x100C) = 80" "bswap (read32 sample_dtb 0x1018) = 16"
  "bswap (read32 sample_dtb 0x1028) = 1" "bswap (read32 sample_dtb 0x1030) = 3"
  "bswap (read32 sample_dtb 0x1034) = 10" "bswap (read32 sample_dtb 0x1038) = 0"
  "bswap (read32 sample_dtb 0x1048) = 2" "bswap (read32 sample_dtb 0x104C) = 9"
  using sample_word [of 0] sample_word [of 8] sample_word [of 12] sample_word [of 24] sample_word [of 40]
    sample_word [of 48] sample_word [of 52] sample_word [of 56] sample_word [of 72] sample_word [of 76]
  by (simp_all add: sample_blob_def bytes_of_def)

lemma sample_strings: "blob_strings sample_dtb 0x1000 = 0x1050" "blob_struct sample_dtb 0x1000 = 0x1028"
  by (simp_all add: blob_strings_def blob_struct_def read_fdt_header_def sample_words)

lemma sample_strlen: "strlen sample_dtb 0x102C = Some 0"
proof -
  have "read_bytes sample_dtb 0x102C 1 = [0]"
    using read_write_bytes_sub [of 44 1 sample_blob "\<lambda>_. 0" "0x1000"]
    by (simp add: sample_dtb_def length_sample_blob) (simp add: sample_blob_def)
  then have "cstr_at sample_dtb 0x102C []"
    by (simp add: read_bytes_def)
  then show ?thesis using strlen_cstr by fastforce
qed

lemma sample_tree: "holds_tree sample_dtb 0x1000 [DtNode 0x102C [0x1030] []]"
proof -
  have props: "flat_props sample_dtb 0x1050 0x1030 [0x1030] 0x1048"
  proof (rule flat_props_Cons)
    have "after_prop 0x1030 (prop_at sample_dtb 0x1050 0x1030 []) = 0x1048"
      by (simp add: after_prop_def prop_at_def sample_words int_div4_def)
    then show "flat_props sample_dtb 0x1050 (after_prop 0x1030 (prop_at sample_dtb 0x1050 0x1030 [])) [] 0x1048"
      by (simp add: flat_props_Nil)
  qed (simp add: token_def sample_words FDT_PROP_def)
  have "flat_nodes sample_dtb 0x1050 0x1028 [DtNode (0x1028 + 4) [0x1030] []] 0x104C"
    by (rule flat_nodes_Cons [where n = 0 and ?l1.0 = "0x1048" and ?l2.0 = "0x1048"])
      (use props sample_strlen in \<open>simp_all add: token_def sample_words const_defs flat_nodes_Nil\<close>)
  then show ?thesis
    by (auto simp: holds_tree_def fdt_header_ok_def read_fdt_header_def sample_words sample_strings token_def const_defs
        intro!: exI [of _ "0x104C"])
qed

theorem fdt_scan_correct_witness:
  "fdt_scan sample_env 0x1000 htif_cb \<lparr>compat = 0\<rparr> (sample_state\<lparr>mem := sample_dtb\<rparr>) =
    and_then (scan_nodes 0x1050 htif_cb [] [DtNode 0x102C [0x1030] []] new_child False \<lparr>compat = 0\<rparr>) (\<lambda>(_, _, y). ret y)
      (sample_state\<lparr>mem := sample_dtb\<rparr>)"
  using fdt_scan_correct [OF quiet_htif, of "sample_state\<lparr>mem := sample_dtb\<rparr>" "0x1000" "[DtNode 0x102C [0x1030] []]"
      sample_env "\<lparr>compat = 0\<rparr>"] sample_tree
  by (simp add: sample_strings del: and_then.simps)

end
