(* ===== verification/Machine.thy ===== *)
theory Machine
  imports Process SpikeFile Dts
begin

text \<open>
  Machine mode: start-up (\<^verbatim>\<open>kernel/machine/minit.c\<close>), the trap entry (\<^verbatim>\<open>kernel/machine/mtrap_vector.S\<close>) and the
  trap handlers (\<^verbatim>\<open>kernel/machine/mtrap.c\<close>).  The timer of the one hart is in the state, in place of the
  CLINT's memory-mapped registers.  The address of \<^verbatim>\<open>stack0\<close> and the hart's number are arguments.
\<close>

subsection \<open>Traps into machine mode and mret\<close>

definition MSTATUS_MPIE :: uint64 where [const_defs]: "MSTATUS_MPIE = push_bit 7 1"

fun priv_bits :: "privilege \<Rightarrow> uint64" where
  "priv_bits U_mode = 0"
| "priv_bits S_mode = MSTATUS_MPP_S"
| "priv_bits M_mode = MSTATUS_MPP_MASK"

definition priv_of :: "uint64 \<Rightarrow> privilege" where
  "priv_of x =
     (if x AND MSTATUS_MPP_MASK = MSTATUS_MPP_MASK then M_mode
      else if x AND MSTATUS_MPP_MASK = MSTATUS_MPP_S then S_mode else U_mode)"

text \<open>What the hart does before the first instruction of \<^verbatim>\<open>mtrapvec\<close>.\<close>

definition trap_to_m :: "uint64 \<Rightarrow> uint64 \<Rightarrow> kstate \<Rightarrow> kstate" where
  "trap_to_m cause tval s =
     (let c = csr s; x = mstatus c;
          x1 = (if x AND MSTATUS_MIE \<noteq> 0 then x OR MSTATUS_MPIE else x AND NOT MSTATUS_MPIE);
          x2 = x1 AND NOT MSTATUS_MIE;
          x3 = (x2 AND NOT MSTATUS_MPP_MASK) OR priv_bits (priv s)
      in s\<lparr>csr := c\<lparr>mstatus := x3, mepc := pc s, mcause := cause, mtval := tval\<rparr>, priv := M_mode, pc := mtvec c\<rparr>)"

definition mret :: "kstate \<Rightarrow> kstate" where
  "mret s =
     (let c = csr s; x = mstatus c;
          x1 = (if x AND MSTATUS_MPIE \<noteq> 0 then x OR MSTATUS_MIE else x AND NOT MSTATUS_MIE);
          x2 = (x1 OR MSTATUS_MPIE) AND NOT MSTATUS_MPP_MASK
      in s\<lparr>csr := c\<lparr>mstatus := x2\<rparr>, priv := priv_of x, pc := mepc c\<rparr>)"

subsection \<open>Handlers (kernel/machine/mtrap.c)\<close>

definition handle_instruction_access_fault :: "env \<Rightarrow> unit op" where
  "handle_instruction_access_fault E = panic E ''Instruction access fault!'' []"

definition handle_load_access_fault :: "env \<Rightarrow> unit op" where
  "handle_load_access_fault E = panic E ''Load access fault!'' []"

definition handle_store_access_fault :: "env \<Rightarrow> unit op" where
  "handle_store_access_fault E = panic E ''Store/AMO access fault!'' []"

definition handle_illegal_instruction :: "env \<Rightarrow> unit op" where
  "handle_illegal_instruction E = panic E ''Illegal instruction!'' []"

definition handle_misaligned_load :: "env \<Rightarrow> unit op" where
  "handle_misaligned_load E = panic E ''Misaligned Load!'' []"

definition handle_misaligned_store :: "env \<Rightarrow> unit op" where
  "handle_misaligned_store E = panic E ''Misaligned AMO!'' []"

definition handle_timer :: "unit op" where
  "handle_timer =
     seq (modify (\<lambda>s. s\<lparr>mtimecmp := mtimecmp s + TIMER_INTERVAL\<rparr>))
       (modify (\<lambda>s. s\<lparr>csr := write_sip SIP_SSIP (csr s)\<rparr>))"

text \<open>The case of a load access fault has no \<^verbatim>\<open>break\<close>.\<close>

definition handle_mtrap :: "env \<Rightarrow> unit op" where
  "handle_mtrap E s =
     (let cause = mcause (csr s) in
      if cause = CAUSE_MTIMER then handle_timer s
      else if cause = CAUSE_FETCH_ACCESS then handle_instruction_access_fault E s
      else if cause = CAUSE_LOAD_ACCESS then seq (handle_load_access_fault E) (handle_store_access_fault E) s
      else if cause = CAUSE_STORE_ACCESS then handle_store_access_fault E s
      else if cause = CAUSE_ILLEGAL_INSTRUCTION then handle_illegal_instruction E s
      else if cause = CAUSE_MISALIGNED_LOAD then handle_misaligned_load E s
      else if cause = CAUSE_MISALIGNED_STORE then handle_misaligned_store E s
      else
        seq (sprint E ''machine trap(): unexpected mscause %p\<newline>'' [VaWord cause])
          (\<lambda>s. seq (sprint E ''            mepc=%p mtval=%p\<newline>'' [VaWord (mepc (csr s)), VaWord (mtval (csr s))])
            (panic E ''unexpected exception happened in M-mode.\<newline>'' []) s) s)"

subsection \<open>mtrapvec (kernel/machine/mtrap\_vector.S)\<close>

text \<open>Up to the call: exchange \<^verbatim>\<open>a0\<close> and \<^verbatim>\<open>mscratch\<close>, save all registers through \<^verbatim>\<open>t6\<close>, save the \<^verbatim>\<open>a0\<close> of the
  interrupted code, take the machine-mode stack, put \<^verbatim>\<open>mscratch\<close> back.\<close>

definition mtrapvec_entry :: "uint64 \<Rightarrow> uint64 \<Rightarrow> kstate \<Rightarrow> kstate" where
  "mtrapvec_entry stack0 mhartid s =
     (let g = gpr s; c = csr s;
          c1 = c\<lparr>mscratch := g A0\<rparr>;
          g1 = g(A0 := mscratch c);
          g2 = g1(T6 := g1 A0 + 0);
          m1 = store_all_registers g2 (mem s);
          g3 = g2(T0 := mscratch c1);
          m2 = write64 m1 (g3 A0 + 72) (g3 T0);
          g4 = g3(Sp := stack0, A3 := 4096, A4 := mhartid);
          g5 = g4(A4 := g4 A4 + 1);
          g6 = g5(A3 := g5 A3 * g5 A4);
          g7 = g6(Sp := g6 Sp + g6 A3);
          c2 = c1\<lparr>mscratch := g7 A0\<rparr>
      in s\<lparr>csr := c2, gpr := g7, mem := m2\<rparr>)"

text \<open>After the call: the frame's address from \<^verbatim>\<open>mscratch\<close>, all registers, \<^verbatim>\<open>mret\<close>.\<close>

definition mtrapvec_exit :: "kstate \<Rightarrow> kstate" where
  "mtrapvec_exit s =
     (let g1 = (gpr s)(T6 := mscratch (csr s))
      in mret (s\<lparr>gpr := restore_all_registers (mem s) g1\<rparr>))"

definition mtrapvec_code :: "env \<Rightarrow> uint64 \<Rightarrow> uint64 \<Rightarrow> 'a op" where
  "mtrapvec_code E stack0 mhartid s =
     seq (handle_mtrap E) (\<lambda>t. Resume (mtrapvec_exit t)) (mtrapvec_entry stack0 mhartid s)"

subsection \<open>Start-up (kernel/machine/minit.c)\<close>

definition minit_c :: string where "minit_c = ''kernel/machine/minit.c''"

definition init_dtb :: "env \<Rightarrow> htif_scan \<Rightarrow> mem_scan \<Rightarrow> uint64 \<Rightarrow> unit op" where
  "init_dtb E hs ms dtb =
     seq (query_htif hs E dtb)
       (seq (\<lambda>s. if htif s \<noteq> 0 then sprint E (''HTIF is available!'' @ [CHR 0x0D, CHR 0x0A]) [] s else Ret () s)
         (seq (query_mem E ms dtb)
           (\<lambda>s. sprint E ''(Emulated) memory size: %ld MB\<newline>'' [VaWord (drop_bit 20 (g_mem_size s))] s)))"

definition deleg_interrupts :: uint64 where
  "deleg_interrupts = MIP_SSIP OR MIP_STIP OR MIP_SEIP"

definition deleg_exceptions :: uint64 where
  "deleg_exceptions =
     push_bit (unat CAUSE_MISALIGNED_FETCH) 1 OR push_bit (unat CAUSE_FETCH_PAGE_FAULT) 1
     OR push_bit (unat CAUSE_BREAKPOINT) 1 OR push_bit (unat CAUSE_LOAD_PAGE_FAULT) 1
     OR push_bit (unat CAUSE_STORE_PAGE_FAULT) 1 OR push_bit (unat CAUSE_USER_ECALL) 1"

text \<open>The delegation registers keep the bits the hart implements, so the code reads them back.\<close>

definition delegate_traps :: "env \<Rightarrow> unit op" where
  "delegate_traps E s =
     (if supports_extension CHR ''S'' (csr s) = 0 then sprint E (''S mode is not supported.'' @ [CHR 0x0A]) [] s
      else
        let s1 = s\<lparr>csr := (csr s)\<lparr>mideleg := mideleg_legal E deleg_interrupts,
                                  medeleg := medeleg_legal E deleg_exceptions\<rparr>\<rparr>
        in seq (assert E (mideleg (csr s1) = deleg_interrupts) minit_c 75 ''read_csr(mideleg) == interrupts'')
             (\<lambda>s. assert E (medeleg (csr s) = deleg_exceptions) minit_c 76 ''read_csr(medeleg) == exceptions'' s) s1)"

definition timerinit :: "uint64 \<Rightarrow> kstate \<Rightarrow> kstate" where
  "timerinit hartid s =
     (let s1 = (if hartid = 0 then s\<lparr>mtimecmp := mtime s + TIMER_INTERVAL\<rparr> else s)
      in s1\<lparr>csr := (csr s1)\<lparr>mie := mie (csr s1) OR MIE_MTIE\<rparr>\<rparr>)"

text \<open>\<^verbatim>\<open>m_start\<close> after \<^verbatim>\<open>init_dtb\<close>: the register writes up to \<^verbatim>\<open>mret\<close>.  A hart without supervisor mode has no \<^verbatim>\<open>sie\<close>: the
  instruction that reads it, at \<open>sie_access\<close>, is illegal there and traps to the vector installed just before.  (Its \<^verbatim>\<open>mstatus\<close>
  does not hold the mode S either; the trap overwrites the field.)\<close>

definition m_setup :: "env \<Rightarrow> uint64 \<Rightarrow> uint64 \<Rightarrow> uint64 \<Rightarrow> 'a op" where
  "m_setup E stack0 mhartid hartid s =
     (let c1 = (csr s)\<lparr>mscratch := g_itrframe E\<rparr>;
          c2 = c1\<lparr>mstatus := (mstatus c1 AND NOT MSTATUS_MPP_MASK) OR MSTATUS_MPP_S\<rparr>;
          c3 = c2\<lparr>mepc := s_start_addr E\<rparr>;
          c4 = c3\<lparr>mtvec := mtrapvec E\<rparr>;
          c5 = c4\<lparr>mstatus := mstatus c4 OR MSTATUS_MIE\<rparr>
      in seq (delegate_traps E) (\<lambda>s1.
           if supports_extension CHR ''S'' (csr s1) = 0 then
             mtrapvec_code E stack0 mhartid (trap_to_m CAUSE_ILLEGAL_INSTRUCTION (sie_tval E) (s1\<lparr>pc := sie_access E\<rparr>))
           else
             let s2 = s1\<lparr>csr := write_sie (read_sie (csr s1) OR SIE_SEIE OR SIE_STIE OR SIE_SSIE) (csr s1)\<rparr>
             in Resume (mret (timerinit hartid s2))) (s\<lparr>csr := c5\<rparr>))"

definition m_start :: "env \<Rightarrow> htif_scan \<Rightarrow> mem_scan \<Rightarrow> uint64 \<Rightarrow> uint64 \<Rightarrow> uint64 \<Rightarrow> uint64 \<Rightarrow> 'a op" where
  "m_start E hs ms stack0 mhartid hartid dtb =
     seq (spike_file_init E)
       (seq (sprint E ''In m_start, hartid:%d\<newline>'' [VaWord hartid])
         (seq (init_dtb E hs ms dtb) (m_setup E stack0 mhartid hartid)))"

text \<open>The first instructions of the machine (\<^verbatim>\<open>kernel/machine/mentry.S\<close>): a stack for each hart, then
  \<^verbatim>\<open>m_start\<close> with the arguments the emulator left in \<^verbatim>\<open>a0\<close> and \<^verbatim>\<open>a1\<close>.\<close>

definition mentry_code :: "env \<Rightarrow> htif_scan \<Rightarrow> mem_scan \<Rightarrow> uint64 \<Rightarrow> uint64 \<Rightarrow> 'a op" where
  "mentry_code E hs ms stack0 mhartid s =
     (let g = (gpr s)(Sp := stack0, A3 := 4096, A4 := mhartid + 1);
          g' = g(A3 := g A3 * g A4);
          g'' = g'(Sp := g' Sp + g' A3)
      in m_start E hs ms stack0 mhartid (g'' A0) (g'' A1) (s\<lparr>csr := (csr s)\<lparr>mscratch := 0\<rparr>, gpr := g''\<rparr>))"

subsection \<open>Status bits\<close>

lemma bit_m_flags:
  "bit MSTATUS_MIE n \<longleftrightarrow> n = 3" "bit MSTATUS_MPIE n \<longleftrightarrow> n = 7" "bit MSTATUS_MPP_S n \<longleftrightarrow> n = 11"
  "bit MSTATUS_MPP_MASK n \<longleftrightarrow> n = 11 \<or> n = 12" "bit MIE_MTIE n \<longleftrightarrow> n = 7"
  "bit SIE_SEIE n \<longleftrightarrow> n = 9" "bit SIE_STIE n \<longleftrightarrow> n = 5" "bit SIE_SSIE n \<longleftrightarrow> n = 1"
  "bit MIP_STIP n \<longleftrightarrow> n = 5" "bit MIP_SEIP n \<longleftrightarrow> n = 9"
proof -
  have mask: "MSTATUS_MPP_MASK = push_bit 11 1 OR push_bit 12 1" by (simp add: const_defs)
  show "bit MSTATUS_MPP_MASK n \<longleftrightarrow> n = 11 \<or> n = 12"
    unfolding mask bit_or_iff push_bit_eq_mult mult_1 bit_exp_iff by auto
  show "bit MSTATUS_MIE n \<longleftrightarrow> n = 3" "bit MSTATUS_MPIE n \<longleftrightarrow> n = 7" "bit MSTATUS_MPP_S n \<longleftrightarrow> n = 11"
    "bit MIE_MTIE n \<longleftrightarrow> n = 7" "bit SIE_SEIE n \<longleftrightarrow> n = 9" "bit SIE_STIE n \<longleftrightarrow> n = 5" "bit SIE_SSIE n \<longleftrightarrow> n = 1"
    "bit MIP_STIP n \<longleftrightarrow> n = 5" "bit MIP_SEIP n \<longleftrightarrow> n = 9"
    unfolding const_defs push_bit_eq_mult mult_1 bit_exp_iff by auto
qed

lemma and_m_flags:
  "w AND MSTATUS_MIE = 0 \<longleftrightarrow> \<not> bit w 3" "w AND MSTATUS_MPIE = 0 \<longleftrightarrow> \<not> bit w 7"
  using and_exp_eq_0_iff_not_bit [of w 3] and_exp_eq_0_iff_not_bit [of w 7]
  by (simp_all add: const_defs)

lemma priv_of_bits: "priv_of x = (if bit x 11 \<and> bit x 12 then M_mode else if bit x 11 then S_mode else U_mode)"
proof -
  let ?w = "x AND MSTATUS_MPP_MASK"
  have b: "bit ?w n \<longleftrightarrow> bit x n \<and> (n = 11 \<or> n = 12)" for n
    by (simp add: bit_and_iff bit_m_flags)
  have "?w = MSTATUS_MPP_MASK \<longleftrightarrow> bit x 11 \<and> bit x 12"
    using b [of 11] b [of 12] bit_m_flags(4) [of 11] bit_m_flags(4) [of 12]
    by (metis b bit_m_flags(4) bit_word_eqI)
  moreover have "?w = MSTATUS_MPP_S \<longleftrightarrow> bit x 11 \<and> \<not> bit x 12"
  proof
    assume "?w = MSTATUS_MPP_S"
    then show "bit x 11 \<and> \<not> bit x 12"
      using b [of 11] b [of 12] by (simp add: bit_m_flags(3))
  next
    assume "bit x 11 \<and> \<not> bit x 12"
    then show "?w = MSTATUS_MPP_S"
      by (intro bit_word_eqI) (auto simp: b bit_m_flags(3))
  qed
  ultimately show ?thesis unfolding priv_of_def by auto
qed

lemma bit_priv_bits: "bit (priv_bits k) n \<longleftrightarrow> n = 11 \<and> k \<noteq> U_mode \<or> n = 12 \<and> k = M_mode"
  by (cases k) (auto simp: bit_m_flags)

lemmas m_bits = bit_and_iff bit_or_iff bit_not_iff bit_m_flags and_m_flags bit_priv_bits

subsection \<open>Start-up\<close>

lemma bit_deleg_interrupts: "bit deleg_interrupts n \<longleftrightarrow> n = 1 \<or> n = 5 \<or> n = 9"
  by (auto simp: deleg_interrupts_def bit_or_iff bit_m_flags bit_flags)

lemma mret_fields [simp]:
  "mem (mret s) = mem s" "trace (mret s) = trace s" "mtimecmp (mret s) = mtimecmp s" "gpr (mret s) = gpr s"
  "pc (mret s) = mepc (csr s)" "priv (mret s) = priv_of (mstatus (csr s))"
  "mideleg (csr (mret s)) = mideleg (csr s)" "medeleg (csr (mret s)) = medeleg (csr s)"
  "mie (csr (mret s)) = mie (csr s)" "mip (csr (mret s)) = mip (csr s)" "mtvec (csr (mret s)) = mtvec (csr s)"
  "mscratch (csr (mret s)) = mscratch (csr s)" "fs_lock (mret s) = fs_lock s" "console (mret s) = console s"
  by (simp_all add: mret_def Let_def console_def)

text \<open>The state \<^verbatim>\<open>m_start\<close> is in before it delegates.\<close>

definition m_armed :: "env \<Rightarrow> kstate \<Rightarrow> kstate" where
  "m_armed E s = s\<lparr>csr := (csr s)\<lparr>mscratch := g_itrframe E, mepc := s_start_addr E, mtvec := mtrapvec E,
     mstatus := ((mstatus (csr s) AND NOT MSTATUS_MPP_MASK) OR MSTATUS_MPP_S) OR MSTATUS_MIE\<rparr>\<rparr>"

definition m_final :: "uint64 \<Rightarrow> kstate \<Rightarrow> kstate" where
  "m_final hartid s = mret (timerinit hartid
     (s\<lparr>csr := write_sie (read_sie (csr s) OR SIE_SEIE OR SIE_STIE OR SIE_SSIE) (csr s)\<rparr>))"

lemma m_setup_eq:
  "m_setup E stack0 mhartid hartid s = seq (delegate_traps E) (\<lambda>t.
     if supports_extension CHR ''S'' (csr t) = 0 then
       mtrapvec_code E stack0 mhartid (trap_to_m CAUSE_ILLEGAL_INSTRUCTION (sie_tval E) (t\<lparr>pc := sie_access E\<rparr>))
     else Resume (m_final hartid t)) (m_armed E s)"
  unfolding m_setup_def m_armed_def m_final_def Let_def by simp

lemma m_armed_fields [simp]:
  "misa (csr (m_armed E s)) = misa (csr s)" "fs_lock (m_armed E s) = fs_lock s" "htif (m_armed E s) = htif s"
  "mem (m_armed E s) = mem s" "console (m_armed E s) = console s" "mtime (m_armed E s) = mtime s"
  "mtvec (csr (m_armed E s)) = mtrapvec E" "mscratch (csr (m_armed E s)) = g_itrframe E"
  "mepc (csr (m_armed E s)) = s_start_addr E" "mideleg (csr (m_armed E s)) = mideleg (csr s)"
  "medeleg (csr (m_armed E s)) = medeleg (csr s)"
  by (simp_all add: m_armed_def)

lemma m_armed_priv: "priv_of (mstatus (csr (m_armed E s))) = S_mode"
  by (simp add: priv_of_bits m_armed_def m_bits)

lemma m_final_fields:
  "mem (m_final h s) = mem s" "console (m_final h s) = console s" "pc (m_final h s) = mepc (csr s)"
  "priv (m_final h s) = priv_of (mstatus (csr s))" "mtvec (csr (m_final h s)) = mtvec (csr s)"
  "mscratch (csr (m_final h s)) = mscratch (csr s)" "mideleg (csr (m_final h s)) = mideleg (csr s)"
  "medeleg (csr (m_final h s)) = medeleg (csr s)" "mtimecmp (m_final 0 s) = mtime s + TIMER_INTERVAL"
  "bit (mie (csr (m_final h s))) n \<longleftrightarrow> n = 7 \<or> bit (mie (csr s)) n \<or> bit (mideleg (csr s)) n \<and> (n = 1 \<or> n = 5 \<or> n = 9)"
  by (auto simp: m_final_def timerinit_def Let_def console_def write_sie_def read_sie_def m_bits dest: bit_imp_le_length)

definition delegated :: "env \<Rightarrow> kstate \<Rightarrow> kstate" where
  "delegated E s = s\<lparr>csr := (csr s)\<lparr>mideleg := mideleg_legal E deleg_interrupts, medeleg := medeleg_legal E deleg_exceptions\<rparr>\<rparr>"

lemma delegated_extension: "supports_extension x (csr (delegated E s)) = supports_extension x (csr s)"
  by (simp add: delegated_def supports_extension_def)

lemma delegate_traps_ok:
  assumes "supports_extension CHR ''S'' (csr s) \<noteq> 0" and "mideleg_legal E deleg_interrupts = deleg_interrupts"
    and "medeleg_legal E deleg_exceptions = deleg_exceptions"
  shows "delegate_traps E s = Ret () (delegated E s)"
  using assms by (simp add: delegate_traps_def Let_def assert_def outcome_defs delegated_def)

lemma delegate_traps_bad:
  assumes "supports_extension CHR ''S'' (csr s) \<noteq> 0" and "htif s \<noteq> 0" and "fs_lock s = 0"
    and "mideleg_legal E deleg_interrupts \<noteq> deleg_interrupts \<or> medeleg_legal E deleg_exceptions \<noteq> deleg_exceptions"
  shows "\<exists>t. delegate_traps E s = Halt PowerOff t"
  using assms assert_halts [of "delegated E s" E]
  by (cases "mideleg_legal E deleg_interrupts = deleg_interrupts")
    (simp_all add: delegate_traps_def Let_def outcome_defs delegated_def assert_def [of E True])

lemma delegate_traps_unsupported:
  assumes "supports_extension CHR ''S'' (csr s) = 0" and "fs_lock s = 0"
  shows "delegate_traps E s = Ret () (emit (''S mode is not supported.'' @ [CHR 0x0A]) s)"
  using assms con.print_literal [OF assms(2)] by (simp add: delegate_traps_def)

subsection \<open>Machine traps\<close>

lemma mtrapvec_entry_fields:
  "mem (mtrapvec_entry st h s) = save_frame (gpr s) (mscratch (csr s)) (mem s)"
  "csr (mtrapvec_entry st h s) = csr s" "mtimecmp (mtrapvec_entry st h s) = mtimecmp s"
  "fs_lock (mtrapvec_entry st h s) = fs_lock s" "trace (mtrapvec_entry st h s) = trace s"
  "console (mtrapvec_entry st h s) = console s"
  by (simp_all add: mtrapvec_entry_def Let_def save_frame_def console_def)

lemma trap_to_m_fields [simp]:
  "mem (trap_to_m c v s) = mem s" "gpr (trap_to_m c v s) = gpr s" "mscratch (csr (trap_to_m c v s)) = mscratch (csr s)"
  "mcause (csr (trap_to_m c v s)) = c" "mepc (csr (trap_to_m c v s)) = pc s" "mtval (csr (trap_to_m c v s)) = v"
  "mideleg (csr (trap_to_m c v s)) = mideleg (csr s)" "mip (csr (trap_to_m c v s)) = mip (csr s)"
  "mtimecmp (trap_to_m c v s) = mtimecmp s" "fs_lock (trap_to_m c v s) = fs_lock s" "trace (trap_to_m c v s) = trace s"
  "console (trap_to_m c v s) = console s"
  by (simp_all add: trap_to_m_def Let_def console_def)

lemma trap_to_m_priv: "priv_of (mstatus (csr (trap_to_m c v s))) = priv s"
  by (cases "priv s") (simp_all add: priv_of_bits trap_to_m_def Let_def m_bits)

lemma trap_to_m_mstatus:
  "bit (mstatus (csr (trap_to_m c v s))) 7 \<longleftrightarrow> bit (mstatus (csr s)) 3"
  "n \<notin> {3, 7, 11, 12} \<Longrightarrow> bit (mstatus (csr (trap_to_m c v s))) n \<longleftrightarrow> bit (mstatus (csr s)) n"
  by (auto simp: trap_to_m_def Let_def m_bits dest: bit_imp_le_length)

lemma mret_mstatus:
  "bit (mstatus (csr (mret s))) 3 \<longleftrightarrow> bit (mstatus (csr s)) 7"
  "n \<notin> {3, 7, 11, 12} \<Longrightarrow> bit (mstatus (csr (mret s))) n \<longleftrightarrow> bit (mstatus (csr s)) n"
  by (auto simp: mret_def Let_def m_bits dest: bit_imp_le_length)

definition machine_tick :: "kstate \<Rightarrow> kstate" where
  "machine_tick s = s\<lparr>mtimecmp := mtimecmp s + TIMER_INTERVAL, csr := write_sip SIP_SSIP (csr s)\<rparr>"

lemma machine_tick_fields [simp]:
  "mem (machine_tick s) = mem s" "mtimecmp (machine_tick s) = mtimecmp s + TIMER_INTERVAL"
  "mscratch (csr (machine_tick s)) = mscratch (csr s)" "mepc (csr (machine_tick s)) = mepc (csr s)"
  "mstatus (csr (machine_tick s)) = mstatus (csr s)" "trace (machine_tick s) = trace s"
  by (simp_all add: machine_tick_def write_sip_def Let_def)

text \<open>A pass through the machine-mode vector for the timer.\<close>

lemma machine_timer_resumes:
  assumes "f = mscratch (csr s)"
  shows "\<exists>t. mtrapvec_code E stack0 mhartid (trap_to_m CAUSE_MTIMER v s) = Resume t
    \<and> pc t = pc s \<and> priv t = priv s \<and> gpr t = (gpr s)(T6 := f) \<and> mscratch (csr t) = f
    \<and> only_changes f 248 (mem s) (mem t) \<and> mtimecmp t = mtimecmp s + TIMER_INTERVAL
    \<and> (bit (mideleg (csr s)) 1 \<longrightarrow> bit (mip (csr t)) 1) \<and> console t = console s
    \<and> (\<forall>n. n \<notin> {7, 11, 12} \<longrightarrow> bit (mstatus (csr t)) n = bit (mstatus (csr s)) n)
    \<and> current t = current s \<and> fs_lock t = fs_lock s \<and> stvec (csr t) = stvec (csr s)
    \<and> sscratch (csr t) = sscratch (csr s) \<and> m_regs (csr t) = m_regs (csr s)"
proof -
  let ?e = "mtrapvec_entry stack0 mhartid (trap_to_m CAUSE_MTIMER v s)"
  let ?t = "mtrapvec_exit (machine_tick ?e)"
  have run: "mtrapvec_code E stack0 mhartid (trap_to_m CAUSE_MTIMER v s) = Resume ?t"
    by (simp add: mtrapvec_code_def seq_def handle_mtrap_def mtrapvec_entry_fields handle_timer_def modify_def
        machine_tick_def)
  have m: "mem (machine_tick ?e) = save_frame (gpr s) f (mem s)"
    by (simp add: mtrapvec_entry_fields assms)
  have "gpr ?t r = ((gpr s)(T6 := f)) r" for r
    using fun_cong [OF save_frame_regs [of "gpr s" f "mem s"], of r]
    by (simp add: mtrapvec_exit_def restore_all m mtrapvec_entry_fields assms [symmetric] tf_reg_def saved_regs_def)
  moreover have "bit (mstatus (csr ?t)) n = bit (mstatus (csr s)) n" if "n \<notin> {7, 11, 12}" for n
    using that mret_mstatus trap_to_m_mstatus
    by (cases "n = 3") (simp_all add: mtrapvec_exit_def mtrapvec_entry_fields)
  moreover have "bit (mideleg (csr s)) 1 \<longrightarrow> bit (mip (csr ?t)) 1"
    by (simp add: mtrapvec_exit_def machine_tick_def bit_write_sip mtrapvec_entry_fields bit_flags)
  moreover have "console ?t = console s"
    by (simp add: mtrapvec_exit_def console_def mtrapvec_entry_fields)
  moreover have "current ?t = current s" "fs_lock ?t = fs_lock s" "stvec (csr ?t) = stvec (csr s)"
    "sscratch (csr ?t) = sscratch (csr s)" "m_regs (csr ?t) = m_regs (csr s)"
    by (simp_all add: mtrapvec_exit_def mtrapvec_entry_def machine_tick_def trap_to_m_def mret_def m_regs_def Let_def
        write_sip_def)
  ultimately show ?thesis
    using run save_frame_only_changes [of f "mem s" "gpr s"] trap_to_m_priv [of CAUSE_MTIMER v s]
    by (intro exI [of _ ?t]) (auto simp: mtrapvec_exit_def m mtrapvec_entry_fields assms)
qed

text \<open>
  C29.  A timer interrupt, whatever it interrupts, is over after one pass through the machine-mode
  vector: execution resumes where and in the mode it was interrupted, with the interrupt enable
  bits as they were; every register but \<^verbatim>\<open>t6\<close> is restored (\<^verbatim>\<open>t6\<close> has the address of the frame), no memory but
  the frame has changed, the next interrupt is \<^verbatim>\<open>TIMER_INTERVAL\<close> away from this one, and where it is
  delegated the supervisor's software interrupt is pending.
\<close>

theorem machine_timer_correct:
  assumes "f = mscratch (csr s)"
  shows "\<exists>t. mtrapvec_code E stack0 mhartid (trap_to_m CAUSE_MTIMER v s) = Resume t
    \<and> pc t = pc s \<and> priv t = priv s \<and> gpr t = (gpr s)(T6 := f) \<and> mscratch (csr t) = f
    \<and> only_changes f 248 (mem s) (mem t) \<and> mtimecmp t = mtimecmp s + TIMER_INTERVAL
    \<and> (bit (mideleg (csr s)) 1 \<longrightarrow> bit (mip (csr t)) 1) \<and> console t = console s
    \<and> (\<forall>n. n \<notin> {7, 11, 12} \<longrightarrow> bit (mstatus (csr t)) n = bit (mstatus (csr s)) n)"
  using machine_timer_resumes [OF assms] by blast

text \<open>The faults that machine mode keeps, with their messages.\<close>

definition fault_messages :: "(uint64 \<times> string) list" where
  "fault_messages =
     [(CAUSE_FETCH_ACCESS, ''Instruction access fault!''), (CAUSE_LOAD_ACCESS, ''Load access fault!''),
      (CAUSE_STORE_ACCESS, ''Store/AMO access fault!''), (CAUSE_ILLEGAL_INSTRUCTION, ''Illegal instruction!''),
      (CAUSE_MISALIGNED_LOAD, ''Misaligned Load!''), (CAUSE_MISALIGNED_STORE, ''Misaligned AMO!'')]"

text \<open>A pass through the machine-mode vector for anything else.\<close>

lemma machine_fault_stops:
  assumes "fs_lock s = 0" and "cause \<noteq> CAUSE_MTIMER"
  shows "\<exists>t. mtrapvec_code E stack0 mhartid (trap_to_m cause v s) = Halt (Exit (- 1)) t
    \<and> (\<forall>msg. map_of fault_messages cause = Some msg \<longrightarrow>
         console t = console s @ msg @ [CHR 0x0A] @ clip (shutdown_message (- 1)))"
proof -
  let ?e = "mtrapvec_entry stack0 mhartid (trap_to_m cause v s)"
  have lock: "fs_lock ?e = 0" and con: "console ?e = console s" and cause: "mcause (csr ?e) = cause"
    using assms(1) by (simp_all add: mtrapvec_entry_fields)
  obtain e1 where e1: "expand 256 0 False False ''machine trap(): unexpected mscause %p\<newline>'' [VaWord cause] = Inr e1"
    by simp
  obtain e2 where e2: "expand 256 0 False False ''            mepc=%p mtval=%p\<newline>''
      [VaWord (mepc (csr ?e)), VaWord (mtval (csr ?e))] = Inr e2"
    by simp
  have "\<exists>t. handle_mtrap E ?e = Halt (Exit (- 1)) t \<and> (\<forall>msg. map_of fault_messages cause = Some msg \<longrightarrow>
         console t = console s @ msg @ [CHR 0x0A] @ clip (shutdown_message (- 1)))"
  proof (cases "cause \<in> set (map fst fault_messages)")
    case True
    then show ?thesis
      using lock con unfolding handle_mtrap_def cause
      by (auto simp: fault_messages_def const_defs Let_def panic_def do_panic_literal console_halted seq_def
          handle_instruction_access_fault_def handle_load_access_fault_def handle_store_access_fault_def
          handle_illegal_instruction_def handle_misaligned_load_def handle_misaligned_store_def)
  next
    case False
    then show ?thesis
      using assms(2) lock unfolding handle_mtrap_def cause
      by (simp add: fault_messages_def Let_def con.print_then [OF lock e1] con.print_then [OF _ e2] panic_def do_panic_literal)
  qed
  then show ?thesis
    by (auto simp: mtrapvec_code_def seq_def)
qed

text \<open>
  C31.  Every other machine-mode trap stops the machine with exit code -1; each of the six faults does
  so with its own message and nothing more on the console before the shutdown message.
\<close>

theorem machine_fault_halts:
  assumes "fs_lock s = 0" and "cause \<noteq> CAUSE_MTIMER"
  shows "\<exists>t. mtrapvec_code E stack0 mhartid (trap_to_m cause v s) = Halt (Exit (- 1)) t
    \<and> (\<forall>msg. map_of fault_messages cause = Some msg \<longrightarrow>
         console t = console s @ msg @ [CHR 0x0A] @ clip (shutdown_message (- 1)))"
  using assms by (rule machine_fault_stops)

subsection \<open>The end of start-up\<close>

lemma m_setup_unsupported:
  assumes "fs_lock s = 0" and "supports_extension CHR ''S'' (csr s) = 0"
  shows "\<exists>t. m_setup E stack0 mhartid hartid s = Halt (Exit (- 1)) t
    \<and> console t = console s @ ''S mode is not supported.\<newline>'' @ ''Illegal instruction!\<newline>'' @ clip (shutdown_message (- 1))"
proof -
  define t where "t = emit (''S mode is not supported.'' @ [CHR 0x0A]) (m_armed E s)"
  have csr: "csr t = csr (m_armed E s)" and con: "console t = console s @ ''S mode is not supported.\<newline>''" and lock: "fs_lock t = 0"
    using assms(1) by (simp_all add: t_def emit_def clip_short)
  have none: "supports_extension CHR ''S'' (csr (m_armed E s)) = 0"
    using assms(2) by (simp add: supports_extension_def)
  then have "delegate_traps E (m_armed E s) = Ret () t"
    unfolding t_def using assms(1) by (intro delegate_traps_unsupported) simp_all
  then have run: "m_setup E stack0 mhartid hartid s =
      mtrapvec_code E stack0 mhartid (trap_to_m CAUSE_ILLEGAL_INSTRUCTION (sie_tval E) (t\<lparr>pc := sie_access E\<rparr>))"
    using none by (simp add: m_setup_eq seq_def csr)
  have "map_of fault_messages CAUSE_ILLEGAL_INSTRUCTION = Some ''Illegal instruction!''"
    by (simp add: fault_messages_def const_defs)
  moreover have "console (t\<lparr>pc := sie_access E\<rparr>) = console t" by (simp add: console_def)
  ultimately show ?thesis
    unfolding run using machine_fault_stops [of "t\<lparr>pc := sie_access E\<rparr>" CAUSE_ILLEGAL_INSTRUCTION E stack0 mhartid "sie_tval E"] lock con
    by (auto simp: const_defs)
qed


subsection \<open>Instances\<close>


theorem machine_timer_correct_witness:
  "\<exists>t. mtrapvec_code sample_env 0x80011000 0 (trap_to_m CAUSE_MTIMER 0
       (sample_state\<lparr>priv := U_mode, pc := 0x81500100, csr := sample_csrs\<lparr>mscratch := 0x80010000, mideleg := 2\<rparr>\<rparr>)) = Resume t
    \<and> pc t = 0x81500100 \<and> priv t = U_mode \<and> bit (mip (csr t)) 1"
  using machine_timer_correct [of "0x80010000"
      "sample_state\<lparr>priv := U_mode, pc := 0x81500100, csr := sample_csrs\<lparr>mscratch := 0x80010000, mideleg := 2\<rparr>\<rparr>"
      sample_env "0x80011000" 0 0]
  by auto

theorem machine_fault_halts_witness:
  "\<exists>t. mtrapvec_code sample_env 0x80011000 0 (trap_to_m CAUSE_LOAD_ACCESS 0 sample_state) = Halt (Exit (- 1)) t
    \<and> console t = ''Load access fault!'' @ [CHR 0x0A] @ clip (shutdown_message (- 1))"
  using machine_fault_halts [of sample_state CAUSE_LOAD_ACCESS sample_env "0x80011000" 0 0]
  by (auto simp: fault_messages_def const_defs)

end
