(* ===== verification/System.thy ===== *)
theory System
  imports UserLib Machine
begin

text \<open>
  The running machine: the process and the two trap handlers under it, as a step relation.  A step is
  some computation of the process, a trap into supervisor mode or a trap into machine mode, with any
  cause.  The rules say when control is back in user mode; a trap that stops the machine has no
  successor.

  Nothing protects the kernel's memory in this lab, so a computation of the process is a change
  of its registers and of memory outside what the kernel keeps for it: the process structure, the trap
  frame and the frame of machine mode.
\<close>

subsection \<open>Operations that only print\<close>

text \<open>Such an operation returns with nothing changed but the trace, or does not return to the caller.\<close>

definition only_prints :: "'a op \<Rightarrow> bool" where
  "only_prints f \<longleftrightarrow> (\<forall>s. fs_lock s = 0 \<longrightarrow>
     (case f s of Ret r t \<Rightarrow> t = s\<lparr>trace := trace t\<rparr> | Resume t \<Rightarrow> False | _ \<Rightarrow> True))"

lemma only_printsD: "only_prints f \<Longrightarrow> fs_lock s = 0 \<Longrightarrow> f s = Ret r t \<Longrightarrow> t = s\<lparr>trace := trace t\<rparr>"
  unfolding only_prints_def by (drule spec [of _ s]) simp

lemma only_prints_Resume: "only_prints f \<Longrightarrow> fs_lock s = 0 \<Longrightarrow> f s \<noteq> Resume t"
  unfolding only_prints_def by (drule spec [of _ s]) (cases "f s"; simp)

lemma trace_trace: "t = s\<lparr>trace := x\<rparr> \<Longrightarrow> u = t\<lparr>trace := y\<rparr> \<Longrightarrow> u = s\<lparr>trace := y\<rparr>" for s t u :: kstate
  by simp

lemma only_prints_and_then:
  assumes "only_prints f" and "\<And>r. only_prints (g r)"
  shows "only_prints (and_then f g)"
  unfolding only_prints_def
proof (intro allI impI)
  fix s :: kstate
  assume s: "fs_lock s = 0"
  show "case and_then f g s of Ret r t \<Rightarrow> t = s\<lparr>trace := trace t\<rparr> | Resume t \<Rightarrow> False | _ \<Rightarrow> True"
  proof (cases "f s")
    case (Ret r t)
    have t: "t = s\<lparr>trace := trace t\<rparr>" by (rule only_printsD [OF assms(1) s Ret])
    have lock: "fs_lock t = 0" by (subst t) (simp add: s)
    show ?thesis
    proof (cases "g r t")
      case (Ret r' u)
      then show ?thesis
        using \<open>f s = Ret r t\<close> trace_trace [OF t only_printsD [OF assms(2) lock Ret]] by simp
    qed (use \<open>f s = Ret r t\<close> only_prints_Resume [OF assms(2) lock] in simp_all)
  qed (use only_prints_Resume [OF assms(1) s] in simp_all)
qed

lemma only_prints_seq: "only_prints f \<Longrightarrow> only_prints g \<Longrightarrow> only_prints (seq f g)"
  unfolding seq_def by (rule only_prints_and_then)

lemma only_prints_ret [simp]: "only_prints (ret x)" "only_prints (\<lambda>s. Ret x s)"
  by (simp_all add: only_prints_def ret_def)

lemma only_prints_sprint [simp]: "only_prints (sprint E fmt vl)"
  unfolding only_prints_def
proof (intro allI impI)
  fix s :: kstate
  assume "fs_lock s = 0"
  then show "case sprint E fmt vl s of Ret r t \<Rightarrow> t = s\<lparr>trace := trace t\<rparr> | Resume t \<Rightarrow> False | _ \<Rightarrow> True"
    by (cases "expand 256 0 False False fmt vl") (simp_all add: sprint_undef sprint_expand)
qed

lemma only_prints_shutdown [simp]: "only_prints (shutdown E code)"
  by (simp add: only_prints_def shutdown_eq)

lemma only_prints_if:
  "(\<And>s. P s \<Longrightarrow> only_prints f) \<Longrightarrow> (\<And>s. \<not> P s \<Longrightarrow> only_prints g) \<Longrightarrow> only_prints (\<lambda>s. if P s then f s else g s)"
  by (auto simp: only_prints_def)

lemma only_prints_with_string: "(\<And>t. only_prints (f t)) \<Longrightarrow> only_prints (with_string p f)"
  by (auto simp: only_prints_def with_string_def split: option.split)

lemma only_prints_panic [simp]: "only_prints (panic E fmt args)"
  unfolding panic_def do_panic_def by (intro only_prints_seq) simp_all

lemma only_prints_print_frame [simp]: "only_prints (print_frame E q a)"
  unfolding print_frame_def
  by (cases "q = 0") (auto intro!: only_prints_if only_prints_with_string only_prints_seq)

text \<open>The outcome of an operation that only prints, from one state.\<close>

definition printed :: "kstate \<Rightarrow> (kstate, 'a) outcome \<Rightarrow> bool" where
  "printed s r \<longleftrightarrow> (case r of Ret x t \<Rightarrow> t = s\<lparr>trace := trace t\<rparr> | Resume t \<Rightarrow> False | _ \<Rightarrow> True)"

lemma only_prints_printed: "only_prints f \<longleftrightarrow> (\<forall>s. fs_lock s = 0 \<longrightarrow> printed s (f s))"
  by (simp add: only_prints_def printed_def)

lemma printed_simps [simp]:
  "printed s (Ret x s)" "printed s (Halt h t)" "printed s Diverge" "printed s (Undef u)" "\<not> printed s (Resume t)"
  by (simp_all add: printed_def)

lemma printed_trans: "t = s\<lparr>trace := trace t\<rparr> \<Longrightarrow> printed t r \<Longrightarrow> printed s r"
  by (cases r) (auto simp: printed_def elim: trace_trace)

lemma printed_backtrace_loop: "fs_lock s = 0 \<Longrightarrow> printed s (backtrace_loop E d sp fp c s)"
proof (induction E d sp fp c s rule: backtrace_loop.induct)
  case (1 E d sp fp c s)
  let ?ra = "read64 (mem s) (fp - 8)"
  show ?case
  proof (cases "fp \<noteq> 0 \<and> c < d \<and> \<not> (fp \<le> sp \<or> fp \<ge> USER_STACK) \<and> \<not> fp - 8 \<le> sp \<and> ?ra \<noteq> 0")
    case False
    then show ?thesis
      by (subst backtrace_loop.simps) (auto simp: Let_def)
  next
    case True
    show ?thesis
    proof (cases "find_symbol_name (mem s) (current s) ?ra")
      case None
      then show ?thesis using True by (subst backtrace_loop.simps) (simp add: Let_def)
    next
      case (Some q)
      show ?thesis
      proof (cases "q \<noteq> 0 \<and> strcmp_lit (mem s) q (bytes_of ''main'') = 0")
        case True
        then show ?thesis
          using \<open>fp \<noteq> 0 \<and> _\<close> Some by (subst backtrace_loop.simps) (simp add: Let_def)
      next
        case main: False
        show ?thesis
        proof (cases "print_frame E q ?ra s")
          case (Ret v s')
          have s': "s' = s\<lparr>trace := trace s'\<rparr>"
            by (rule only_printsD [OF only_prints_print_frame 1(2) Ret])
          have lock: "fs_lock s' = 0" by (subst s') (simp add: 1(2))
          let ?c = "if v then c + 1 else c" and ?old = "read64 (mem s') (fp - 16)"
          have run: "backtrace_loop E d sp fp c s = (if fp - 16 \<le> sp then Ret ?c s'
              else if ?old = 0 \<or> ?old \<le> fp \<or> ?old \<ge> USER_STACK then Ret ?c s' else backtrace_loop E d sp ?old ?c s')"
            using True Some main Ret by (subst backtrace_loop.simps) (auto simp: Let_def)
          show ?thesis
          proof (cases "fp - 16 \<le> sp \<or> ?old = 0 \<or> ?old \<le> fp \<or> ?old \<ge> USER_STACK")
            case True
            then show ?thesis unfolding run using s' by (auto simp: printed_def)
          next
            case False
            have "printed s' (backtrace_loop E d sp ?old ?c s')"
              by (rule 1(1)) (use False True Some main Ret lock in auto)
            then show ?thesis
              unfolding run using False printed_trans [OF s'] by auto
          qed
        qed (use True Some main only_prints_Resume [OF only_prints_print_frame 1(2)] in
            \<open>subst backtrace_loop.simps, auto simp: Let_def\<close>)+
      qed
    qed
  qed
qed

lemma only_prints_backtrace_loop: "only_prints (backtrace_loop E d sp fp c)"
  using printed_backtrace_loop by (simp add: only_prints_printed)

lemma only_prints_backtrace: "only_prints (sys_user_backtrace E d)"
  using only_prints_backtrace_loop by (auto simp: only_prints_def sys_user_backtrace_def Let_def)

lemma only_prints_syscall: "only_prints (user_syscall E g)"
  unfolding user_syscall_def do_syscall_def sys_user_print_def sys_user_exit_def
  by (auto intro!: only_prints_seq only_prints_with_string only_prints_backtrace)

subsection \<open>The running machine\<close>

text \<open>A process in user mode that every trap, of either mode, will find its way back to.\<close>

definition running :: "env \<Rightarrow> uint64 \<Rightarrow> kstate \<Rightarrow> bool" where
  "running E p s \<longleftrightarrow>
     user_ready E p s \<and> fs_lock s = 0 \<and> mscratch (csr s) = g_itrframe E \<and> bit (mideleg (csr s)) 1
     \<and> apart (g_itrframe E) 248 p 20512 \<and> apart (g_itrframe E) 248 (tf_of (mem s) p) 272"

inductive run_step :: "env \<Rightarrow> uint64 \<Rightarrow> uint64 \<Rightarrow> uint64 \<Rightarrow> kstate \<Rightarrow> kstate \<Rightarrow> bool" for E p stack0 mhartid where
  user: "agree p 20512 (mem s) m \<Longrightarrow> agree (tf_of (mem s) p) 272 (mem s) m \<Longrightarrow>
    run_step E p stack0 mhartid s (s\<lparr>mem := m, gpr := g, pc := a\<rparr>)"
| s_trap: "smode_trap_handler E (handler_entry cause tval s) = Resume t \<Longrightarrow> run_step E p stack0 mhartid s t"
| m_trap: "(mtrapvec_code E stack0 mhartid (trap_to_m cause tval s) :: (kstate, unit) outcome) = Resume t \<Longrightarrow>
    run_step E p stack0 mhartid s t"

inductive_cases run_stepE: "run_step E p stack0 mhartid s t"

abbreviation runs :: "env \<Rightarrow> uint64 \<Rightarrow> uint64 \<Rightarrow> uint64 \<Rightarrow> kstate \<Rightarrow> kstate \<Rightarrow> bool" where
  "runs E p stack0 mhartid \<equiv> (run_step E p stack0 mhartid)\<^sup>*\<^sup>*"

lemma agree_trans: "agree a n m m' \<Longrightarrow> agree a n m' m'' \<Longrightarrow> agree a n m m''"
  by (simp add: agree_def)

lemma agree_refl [simp]: "agree a n m m"
  by (simp add: agree_def)

lemma agree_tf_of: "agree p 20512 m m' \<Longrightarrow> tf_of m' p = tf_of m p"
  unfolding tf_of_def by (erule agree_read64) simp

lemma m_regs_mscratch:
  "m_regs c = m_regs d \<Longrightarrow> mscratch c = mscratch d \<and> mideleg c = mideleg d"
  by (simp add: m_regs_def)

text \<open>What is the same after a trap, whichever way it went.\<close>

definition trap_kept :: "env \<Rightarrow> uint64 \<Rightarrow> kstate \<Rightarrow> kstate \<Rightarrow> bool" where
  "trap_kept E p s t \<longleftrightarrow> user_ready E p t \<and> fs_lock t = 0 \<and> m_regs (csr t) = m_regs (csr s) \<and> agree p 20512 (mem s) (mem t)"

lemma trap_kept_running:
  "running E p s \<Longrightarrow> trap_kept E p s t \<Longrightarrow> running E p t \<and> agree p 20512 (mem s) (mem t)"
  using m_regs_mscratch [of "csr t" "csr s"] agree_tf_of [of p "mem s" "mem t"]
  by (auto simp: running_def trap_kept_def)

lemma syscall_kept:
  assumes "user_ready E p s" and "fs_lock s = 0"
    and "smode_trap_handler E (handler_entry CAUSE_USER_ECALL tval s) = Resume t"
  shows "trap_kept E p s t"
proof -
  let ?s1 = "syscall_state tval s"
  have lock: "fs_lock ?s1 = 0" using assms(2) by simp
  obtain r s2 where s2: "user_syscall E (gpr s) ?s1 = Ret r s2"
    using assms(3) only_prints_Resume [OF only_prints_syscall lock, of E "gpr s"]
    by (cases "user_syscall E (gpr s) ?s1")
      (auto simp: smode_trap_handler_user [OF assms(1)] seq_def smode_dispatch_syscall [OF assms(1)])
  have "user_syscall E (gpr s) ?s1 = Ret r (?s1\<lparr>trace := trace s2\<rparr>)"
    using only_printsD [OF only_prints_syscall lock s2] s2 by simp
  from syscall_returns [OF assms(1) this] obtain u where
    "smode_trap_handler E (handler_entry CAUSE_USER_ECALL tval s) = Resume u" "user_ready E p u"
    "only_changes (tf_of (mem s) p) 272 (mem s) (mem u)" "fs_lock u = fs_lock s" "m_regs (csr u) = m_regs (csr s)"
    by metis
  then show ?thesis
    using assms frame_change_agree [of "mem s" p "mem u"] by (auto simp: trap_kept_def user_ready_def)
qed

lemma s_trap_kept:
  assumes "running E p s" and "smode_trap_handler E (handler_entry cause tval s) = Resume t"
  shows "trap_kept E p s t"
proof -
  have s: "user_ready E p s" "fs_lock s = 0" "bit (mideleg (csr s)) 1" "layout_ok (mem s) p"
    using assms(1) by (simp_all add: running_def user_ready_def)
  consider "cause = CAUSE_USER_ECALL" | "cause = CAUSE_MTIMER_S_TRAP" | "cause \<notin> {CAUSE_USER_ECALL, CAUSE_MTIMER_S_TRAP}"
    by blast
  then show ?thesis
  proof cases
    case 1
    then show ?thesis using syscall_kept [OF s(1,2)] assms(2) by simp
  next
    case 2
    then show ?thesis
      using timer_trap_resumes [OF s(1-3), of tval] assms(2) frame_change_agree [OF s(4)] by (auto simp: trap_kept_def)
  next
    case 3
    then show ?thesis using unexpected_trap_stops [OF s(2,1) 3, of tval] assms(2) by auto
  qed
qed

lemma m_trap_kept:
  assumes "running E p s" and "(mtrapvec_code E stack0 mhartid (trap_to_m cause tval s) :: (kstate, unit) outcome) = Resume t"
  shows "trap_kept E p s t"
proof (cases "cause = CAUSE_MTIMER")
  case True
  have s: "user_ready E p s" "fs_lock s = 0" "mscratch (csr s) = g_itrframe E"
    "apart (g_itrframe E) 248 p 20512" "apart (g_itrframe E) 248 (tf_of (mem s) p) 272"
    using assms(1) by (simp_all add: running_def)
  have t: "priv t = priv s" "only_changes (g_itrframe E) 248 (mem s) (mem t)" "current t = current s" "fs_lock t = fs_lock s"
    "stvec (csr t) = stvec (csr s)" "sscratch (csr t) = sscratch (csr s)" "m_regs (csr t) = m_regs (csr s)"
    using machine_timer_resumes [where ?'a = unit, OF refl, of E stack0 mhartid tval s] assms(2) True s(3) by auto
  note ch = user_ready_change [OF s(1) t(2) s(4,5)]
  have "user_ready E p t"
    using ch(1) [of "gpr t"] t by (simp add: user_ready_def)
  then show ?thesis
    using ch(3) t s(2) by (simp add: trap_kept_def)
next
  case False
  then show ?thesis
    using machine_fault_stops [where ?'a = unit, of s cause E stack0 mhartid tval] assms by (auto simp: running_def)
qed

lemma run_step_running:
  assumes "run_step E p stack0 mhartid s t" and "running E p s"
  shows "running E p t \<and> agree p 20512 (mem s) (mem t)"
  using assms
proof (cases rule: run_step.cases)
  case (user m g a)
  have s: "user_ready E p s" using assms(2) by (simp add: running_def)
  have tf: "tf_of m p = tf_of (mem s) p" by (rule agree_tf_of [OF user(2)])
  have rd: "read64 m (p + b) = read64 (mem s) (p + b)" if "unat b + 8 \<le> 20512" for b
    by (rule agree_read64 [OF user(2) that])
  have fr: "read64 m (tf_of (mem s) p + b) = read64 (mem s) (tf_of (mem s) p + b)" if "unat b + 8 \<le> 272" for b
    by (rule agree_read64 [OF user(3) that])
  have "user_ready E p t"
    using s by (simp add: user_ready_def layout_ok_def user(1) tf rd fr)
  then show ?thesis
    using assms(2) user(2) by (simp add: running_def user(1) tf)
next
  case (s_trap cause tval)
  then show ?thesis using trap_kept_running [OF assms(2)] s_trap_kept [OF assms(2)] by blast
next
  case (m_trap cause tval)
  then show ?thesis using trap_kept_running [OF assms(2)] m_trap_kept [OF assms(2)] by blast
qed

lemma runs_running:
  assumes "runs E p stack0 mhartid s t" and "running E p s"
  shows "running E p t \<and> agree p 20512 (mem s) (mem t)"
  using assms
proof (induction rule: rtranclp_induct)
  case (step t u)
  then show ?case using run_step_running agree_trans by blast
qed simp

text \<open>
  C16.  However computations of the process and traps of both modes follow each other, whenever
  control is in user mode the process can still trap: the vectors, the kernel stack, the trap frame and the
  lock are in place, machine mode has its own frame, and the process structure, with the symbol
  tables, is as it was at the start.
\<close>

theorem system_invariant:
  assumes "running E p s" and "runs E p stack0 mhartid s t"
  shows "running E p t \<and> agree p 20512 (mem s) (mem t) \<and> tf_of (mem t) p = tf_of (mem s) p"
  using runs_running [OF assms(2,1)] agree_tf_of by blast

subsection \<open>No trap is left hanging\<close>

text \<open>A trap goes back to the process or stops the machine.\<close>

fun settled :: "(kstate, 'a) outcome \<Rightarrow> bool" where
  "settled (Resume t) = True"
| "settled (Halt h t) = True"
| "settled r = False"

text \<open>A text that the print system call can show: terminated, and as a format string it takes no argument.  A terminated
  text without percent sign that is not in the trap frame is one.\<close>

definition printable :: "uint64 \<Rightarrow> kstate \<Rightarrow> bool" where
  "printable tval s \<longleftrightarrow> (\<exists>msg e. print_text tval s = Some msg \<and> expand 256 0 False False msg [] = Inr e)"

lemma printable_plain:
  assumes "user_ready E p s" and "cstr_at (mem s) (gpr s A1) (bytes_of msg)" and "CHR ''%'' \<notin> set msg"
    and "apart (tf_of (mem s) p) 272 (gpr s A1) (Suc (length msg))"
  shows "printable tval s"
  using print_text_apart [OF assms(1,2,4)] expand_literal [OF assms(3)] by (auto simp: printable_def)

text \<open>What becomes of a trap from user mode: it is settled, but for a print system call with a text that cannot be shown.\<close>

definition unprintable :: "uint64 \<Rightarrow> uint64 \<Rightarrow> kstate \<Rightarrow> bool" where
  "unprintable cause tval s \<longleftrightarrow> cause = CAUSE_USER_ECALL \<and> gpr s A0 = SYS_user_print \<and> \<not> printable tval s"

lemma unprintable_outcome:
  assumes "user_ready E p s" and "fs_lock s = 0" and "unprintable cause tval s"
  shows "smode_trap_handler E (handler_entry cause tval s) =
    (case print_text tval s of None \<Rightarrow> Diverge | Some msg \<Rightarrow> Undef VaArgs)"
  using print_syscall_outcome [OF assms(1,2), of tval] assms(3)
  by (auto simp: unprintable_def printable_def dest: expand_missing split: option.splits sum.splits)

lemma syscall_settled:
  assumes "user_ready E p s" and "fs_lock s = 0" and "tables_ok (mem s) p" and "read64 (mem s) (p + p_strtab_sz) \<le> 8192"
    and "gpr s A0 = SYS_user_print \<longrightarrow> printable tval s"
  shows "settled (smode_trap_handler E (handler_entry CAUSE_USER_ECALL tval s))"
proof (cases "gpr s A0 = SYS_user_print")
  case True
  then obtain msg e where "print_text tval s = Some msg" "expand 256 0 False False msg [] = Inr e"
    using assms(5) by (auto simp: printable_def)
  then show ?thesis
    using print_syscall_outcome [OF assms(1,2) True, of tval] by auto
next
  case False
  let ?s1 = "syscall_state tval s"
  have lock: "fs_lock ?s1 = 0" using assms(2) by simp
  have "layout_ok (mem s) p" using assms(1) by (simp add: user_ready_def)
  then have "agree p 20512 (mem s) (mem ?s1)"
    using syscall_state_mem(1) [OF assms(1)] by (rule frame_change_agree)
  then have tab: "tables_ok (mem ?s1) (current ?s1)"
    using agree_tables assms(1,3,4) by (simp add: user_ready_def)
  have handler: "smode_trap_handler E (handler_entry CAUSE_USER_ECALL tval s) =
      seq (and_then (user_syscall E (gpr s))
      (\<lambda>r s2. Ret () (s2\<lparr>mem := write64 (mem s2) (tf_of (mem s) p + reg_off A0) r\<rparr>)))
      (\<lambda>s3. switch_to E (current s3) s3) ?s1"
    by (simp add: smode_trap_handler_user [OF assms(1)] seq_def smode_dispatch_syscall [OF assms(1)])
  consider "gpr s A0 = SYS_user_exit" | "gpr s A0 = SYS_user_backtrace" | "gpr s A0 \<notin> {64, 65, 66}"
    using False by (auto simp: const_defs)
  then show ?thesis
  proof cases
    case 1
    then have "user_syscall E (gpr s) ?s1 = sys_user_exit E (gpr s A1) ?s1"
      by (simp add: user_syscall_def do_syscall_def const_defs)
    then show ?thesis
      using sys_user_exit_eq [OF lock] by (simp add: handler seq_def)
  next
    case 2
    let ?ls = "backtrace_lines (unat (gpr s A1)) ?s1"
    have "user_syscall E (gpr s) ?s1 = backtrace_result 0 ?ls ?s1"
      using 2 sys_user_backtrace_eq [OF lock tab] by (simp add: user_syscall_def do_syscall_def const_defs)
    moreover obtain tr where "backtrace_result 0 ?ls ?s1 = Ret (of_nat (length ?ls)) (?s1\<lparr>trace := tr\<rparr>)"
      by (simp add: backtrace_result_def emits_eq)
    ultimately obtain t where "smode_trap_handler E (handler_entry CAUSE_USER_ECALL tval s) = Resume t"
      using syscall_returns [OF assms(1)] by metis
    then show ?thesis by simp
  next
    case 3
    then show ?thesis
      using unknown_syscall_halts [OF lock 3] by (simp add: handler seq_def user_syscall_def)
  qed
qed

lemma run_settles:
  assumes "running E p s" and "tables_ok (mem s) p" and "read64 (mem s) (p + p_strtab_sz) \<le> 8192"
    and "runs E p stack0 mhartid s t"
  shows "settled (mtrapvec_code E stack0 mhartid (trap_to_m cause tval t) :: (kstate, unit) outcome)
    \<and> (if unprintable cause tval t
        then smode_trap_handler E (handler_entry cause tval t) =
          (case print_text tval t of None \<Rightarrow> Diverge | Some msg \<Rightarrow> Undef VaArgs)
        else settled (smode_trap_handler E (handler_entry cause tval t)))"
proof -
  have t: "running E p t" "agree p 20512 (mem s) (mem t)"
    using runs_running [OF assms(4,1)] by simp_all
  have u: "user_ready E p t" "fs_lock t = 0" "bit (mideleg (csr t)) 1"
    using t(1) by (simp_all add: running_def)
  have tab: "tables_ok (mem t) p" "read64 (mem t) (p + p_strtab_sz) \<le> 8192"
    using agree_tables [OF t(2) assms(2,3)] agree_read64 [OF t(2), of p_strtab_sz] assms(3) by simp_all
  have m: "settled (mtrapvec_code E stack0 mhartid (trap_to_m cause tval t) :: (kstate, unit) outcome)"
    using machine_timer_resumes [where ?'a = unit, OF refl, of E stack0 mhartid tval t]
      machine_fault_stops [where ?'a = unit, OF u(2), of cause E stack0 mhartid tval]
    by (cases "cause = CAUSE_MTIMER") auto
  show ?thesis
  proof (cases "unprintable cause tval t")
    case True
    then show ?thesis using m unprintable_outcome [OF u(1,2)] by simp
  next
    case False
    have "settled (smode_trap_handler E (handler_entry cause tval t))"
    proof -
      consider "cause = CAUSE_USER_ECALL" | "cause = CAUSE_MTIMER_S_TRAP" | "cause \<notin> {CAUSE_USER_ECALL, CAUSE_MTIMER_S_TRAP}"
        by blast
      then show ?thesis
      proof cases
        case 1
        then show ?thesis using syscall_settled [OF u(1,2) tab] False by (simp add: unprintable_def)
      next
        case 2
        then show ?thesis using timer_trap_resumes [OF u, of tval] by auto
      next
        case 3
        then show ?thesis using unexpected_trap_stops [OF u(2,1) 3, of tval] by auto
      qed
    qed
    with False m show ?thesis by simp
  qed
qed

text \<open>
  C17.  In every state the running machine can reach, a machine-mode trap of any cause goes back to the process or
  stops the machine, and so does a supervisor-mode trap of any cause, with one exception: a print
  system call whose text has no terminator runs forever, and one whose text, as a format string, takes an argument is undefined
  behaviour.
\<close>

theorem system_progress:
  assumes "running E p s" and "tables_ok (mem s) p" and "read64 (mem s) (p + p_strtab_sz) \<le> 8192"
    and "runs E p stack0 mhartid s t"
  shows "settled (mtrapvec_code E stack0 mhartid (trap_to_m cause tval t) :: (kstate, unit) outcome)
    \<and> (if unprintable cause tval t
        then smode_trap_handler E (handler_entry cause tval t) =
          (case print_text tval t of None \<Rightarrow> Diverge | Some msg \<Rightarrow> Undef VaArgs)
        else settled (smode_trap_handler E (handler_entry cause tval t)))"
  using assms by (rule run_settles)

subsection \<open>An instance\<close>

definition sample_running :: kstate where
  "sample_running = (sample_user 66 8)\<lparr>csr := (csr (sample_user 66 8))\<lparr>mscratch := g_itrframe sample_env\<rparr>\<rparr>"

lemma sample_is_running: "running sample_env 0x80020000 sample_running"
proof -
  have "user_ready sample_env 0x80020000 sample_running"
    using sample_user_ready [of 66 8] by (simp add: sample_running_def user_ready_def)
  then show ?thesis
    by (simp add: running_def sample_running_def sample_tf) (simp add: sample_env_def apart_def)
qed

lemma sample_runs: "runs sample_env 0x80020000 0 0 sample_running (sample_running\<lparr>gpr := g, pc := a\<rparr>)"
  using run_step.user [where p = "0x80020000" and s = sample_running and m = "mem sample_running" and g = g and a = a]
  by (intro r_into_rtranclp) simp

lemma sample_running_mem [simp]: "mem sample_running = sample_symbols"
  by (simp add: sample_running_def)

theorem system_invariant_witness:
  "running sample_env 0x80020000 (sample_running\<lparr>gpr := (\<lambda>_. 7), pc := 0x81500000\<rparr>)"
  using system_invariant [OF sample_is_running sample_runs [where g = "\<lambda>_. 7" and a = "0x81500000"]] by simp

theorem system_progress_witness:
  "settled (smode_trap_handler sample_env (handler_entry CAUSE_BREAKPOINT 0 (sample_running\<lparr>gpr := (\<lambda>_. 7), pc := 0x81500000\<rparr>)))"
  using system_progress [OF sample_is_running _ _ sample_runs [where g = "\<lambda>_. 7" and a = "0x81500000"], of CAUSE_BREAKPOINT 0] sample_tables
  by (simp add: sample_reads p_strtab_sz_def const_defs unprintable_def)

end
