(* ===== verification/Boot.thy ===== *)
theory Boot
  imports ElfCorrect Kernel System
begin

text \<open>
  From \<^verbatim>\<open>s_start\<close> to the first instruction of the application.  The stages of
  \<^verbatim>\<open>load_bincode_from_host_elf\<close> (command line, opening, headers, segments, symbols, entry point) are put
  together: each writes certain regions of memory only, and the regions that later stages and the
  process rely on are apart from them.  The host is a parameter, with its documented
  behaviour as hypotheses.
\<close>

subsection \<open>Regions\<close>

type_synonym region = "uint64 \<times> nat"

abbreviation clear_of :: "region \<Rightarrow> region \<Rightarrow> bool" where
  "clear_of x y \<equiv> apart (fst x) (snd x) (fst y) (snd y)"

definition seg_regions :: "elf_prog_header list \<Rightarrow> region list" where
  "seg_regions phs = map (\<lambda>ph. (ph_vaddr ph, unat (ph_memsz ph))) (filter is_load phs)"

text \<open>What is to last: the process structure, its trap frame, the ELF header while the loader runs, and the
  segments of the application.\<close>

definition kept_regions :: "env \<Rightarrow> elf_prog_header list \<Rightarrow> region list" where
  "kept_regions E phs = (user_app E, 20512) # (USER_TRAP_FRAME, 272) # (elfloader_ehdr E, 64) # seg_regions phs"

text \<open>The variables on the loader's stack.\<close>

definition scratch_regions :: "env \<Rightarrow> region list" where
  "scratch_regions E = [(arg_bug_msg E, 512), (ph_addr E, 56), (sect E, 64), (str_hdr E, 64)]"

definition boot_layout :: "env \<Rightarrow> elf_prog_header list \<Rightarrow> bool" where
  "boot_layout E phs \<longleftrightarrow> sorted_wrt clear_of (kept_regions E phs)
     \<and> (\<forall>x\<in>set (scratch_regions E). \<forall>y\<in>set (kept_regions E phs). clear_of x y)"

text \<open>Everything the loader writes.\<close>

definition load_regions :: "env \<Rightarrow> elf_prog_header list \<Rightarrow> region list" where
  "load_regions E phs = scratch_regions E
     @ (elfloader_ehdr E, 64) # (user_app E + p_symtab, 20496) # (USER_TRAP_FRAME + tf_epc, 8) # seg_regions phs"

lemma changes_in_write:
  "length bs \<le> n \<Longrightarrow> (a, n) \<in> set rs \<Longrightarrow> changes_in rs m (write_bytes m a bs)"
  using only_changes_mono [of a 0 "length bs" m "write_bytes m a bs" n] only_changes_write_bytes
  by (intro only_changes_in [of a n]) simp_all

lemma load_segments_changes: "changes_in (seg_regions phs) m (snd (load_segments file short phs m))"
proof (induction phs arbitrary: m)
  case (Cons ph phs)
  let ?bs = "file_bytes file (unat (ph_off ph)) (unat (ph_memsz ph))"
  let ?m = "write_bytes m (ph_vaddr ph) ?bs"
  have rest: "changes_in (seg_regions (ph # phs)) m' (snd (load_segments file short phs m'))" for m'
    by (rule changes_in_mono [OF Cons.IH]) (auto simp: seg_regions_def)
  have "changes_in (seg_regions (ph # phs)) m ?m" if "is_load ph"
    using that by (intro changes_in_write [of _ "unat (ph_memsz ph)"]) (simp_all add: length_file_bytes seg_regions_def)
  with rest changes_in_trans [OF _ rest [of ?m]] show ?case
    by (simp add: Let_def is_load_def)
qed simp

lemma parse_args_loop_changes:
  "parse_args_loop buf argc i m = Inr m' \<Longrightarrow> only_changes buf (8 * (argc - 1)) m m'"
proof (induction buf argc i m rule: parse_args_loop.induct)
  case (1 buf argc i m)
  show ?case
  proof (cases "1 + i < argc \<and> \<not> MAX_CMDLINE_ARGS \<le> 2 + i")
    case True
    let ?m = "write64 m (buf + of_nat (8 * i)) (read64 m (buf + of_nat (8 * (2 + i))))"
    have "only_changes buf (8 * (argc - 1)) m ?m"
      by (rule only_changes_mono [OF only_changes_write64]) (use True in arith)
    moreover have "parse_args_loop buf argc (Suc i) ?m = Inr m'"
      using 1(2) True by (subst (asm) parse_args_loop.simps) simp
    then have "only_changes buf (8 * (argc - 1)) ?m m'"
      using 1(1) True by blast
    ultimately show ?thesis by (rule only_changes_trans)
  next
    case False
    then have "m' = m" using 1(2) by (subst (asm) parse_args_loop.simps) (auto split: if_splits)
    then show ?thesis by simp
  qed
qed

subsection \<open>The host\<close>

definition getmainvars_request :: "env \<Rightarrow> uint64 list" where
  "getmainvars_request E = [HTIFSYS_getmainvars, arg_bug_msg E, 512, 0, 0, 0, 0, 0]"

text \<open>The host reports a command line of \<open>argc\<close> strings, the second of which is \<open>name\<close>: it fills the
  buffer with the number, the pointers and the strings, which start after the pointers.\<close>

definition reports_name :: "env \<Rightarrow> nat \<Rightarrow> string \<Rightarrow> bool" where
  "reports_name E argc name \<longleftrightarrow>
     (\<forall>m. \<exists>m' a. fesvr E (getmainvars_request E) m = (0, m') \<and> only_changes (arg_bug_msg E) 512 m m'
        \<and> read64 m' (arg_bug_msg E) = of_nat argc \<and> word_at m' (arg_bug_msg E) 2 = a
        \<and> cstr_at m' a (bytes_of name) \<and> apart (arg_bug_msg E) (8 * (argc + 1)) a (Suc (length name)))"

text \<open>The host's answer to opening the file of that name.\<close>

definition answers_open :: "env \<Rightarrow> string \<Rightarrow> uint64 \<Rightarrow> bool" where
  "answers_open E name fd \<longleftrightarrow>
     (\<forall>m a. cstr_at m a (bytes_of name) \<longrightarrow>
        fesvr E (openat_request AT_FDCWD a (of_nat (length name)) O_RDONLY 0) m = (fd, m))"

text \<open>The tables of files as \<^verbatim>\<open>spike_file_init\<close> leaves them.\<close>

definition std_files :: "kstate \<Rightarrow> bool" where
  "std_files s \<longleftrightarrow>
     spike_files s = [\<lparr>kfd = 0, refcnt = 4\<rparr>, \<lparr>kfd = 1, refcnt = 4\<rparr>, \<lparr>kfd = 2, refcnt = 4\<rparr>] @ replicate 125 \<lparr>kfd = - 1, refcnt = 0\<rparr>
     \<and> spike_fds s = [Some 0, Some 1, Some 2] @ replicate 125 None"

subsection \<open>The command line and the file\<close>

lemma parse_args_name:
  assumes "fs_lock s = 0" and "reports_name E argc name" and "2 \<le> argc" and "argc \<le> 63"
  shows "\<exists>t a. parse_args E s = Ret (of_nat (argc - 1)) t \<and> read64 (mem t) (arg_bug_msg E) = a
    \<and> cstr_at (mem t) a (bytes_of name) \<and> mem_only s t \<and> only_changes (arg_bug_msg E) 512 (mem s) (mem t)"
proof -
  let ?buf = "arg_bug_msg E"
  obtain m a where host: "fesvr E (getmainvars_request E) (mem s) = (0, m)" and ch: "only_changes ?buf 512 (mem s) m"
    and w: "read64 m ?buf = of_nat argc" "word_at m ?buf 2 = a"
    and str: "cstr_at m a (bytes_of name)" "apart ?buf (8 * (argc + 1)) a (Suc (length name))"
    using assms(2) unfolding reports_name_def by meson
  obtain m' where loop: "parse_args_loop ?buf argc 0 m = Inr m'" and w': "word_at m' ?buf 0 = word_at m ?buf 2"
  proof -
    obtain m' where m': "parse_args_loop ?buf argc 0 m = Inr m'"
      and all: "\<forall>j<64. word_at m' ?buf j = (if 0 \<le> j \<and> 1 + j < argc then word_at m ?buf (2 + j) else word_at m ?buf j)"
      using parse_args_loop_eq [OF assms(4), of ?buf 0 m] by blast
    show ?thesis by (rule that [OF m']) (use all [THEN spec, of 0] assms(3) in simp)
  qed
  have ch': "only_changes ?buf (8 * (argc - 1)) m m'" by (rule parse_args_loop_changes [OF loop])
  define t where "t = s\<lparr>mem := m', trace := trace s @ [HostCall (getmainvars_request E)]\<rparr>"
  have n: "unat (of_nat argc :: uint64) = argc" using assms(4) by (intro unat_of_nat_small) simp
  have "parse_args E s = Ret (of_nat (argc - 1)) t"
    using assms(1,3) host loop w(1) n
    by (simp add: parse_args_def frontend_syscall_free kassert_def outcome_defs Let_def getmainvars_request_def t_def of_nat_diff)
  moreover have "read64 (mem t) ?buf = a" using w' w(2) by (simp add: t_def)
  moreover have "cstr_at (mem t) a (bytes_of name)"
  proof -
    have "apart ?buf (8 * (argc - 1)) a (Suc (length name))"
      using apart_sub [OF str(2), of 0 "8 * (argc - 1)" 0 "Suc (length name)"] by simp
    then show ?thesis
      using str(1) only_changes_read_bytes [OF ch'] by (simp add: cstr_at_iff t_def)
  qed
  moreover have "mem_only s t"
    unfolding t_def by (intro mem_onlyI) (simp add: console_def)
  moreover have "only_changes ?buf 512 (mem s) (mem t)"
    using only_changes_trans [OF ch only_changes_mono [of ?buf 0 _ m m' 512]] ch' assms(4) by (simp add: t_def)
  ultimately show ?thesis by blast
qed

text \<open>The message that names the application.\<close>

definition app_message :: "string \<Rightarrow> string" where
  "app_message name = ''Application: '' @ name @ ''\<newline>''"

lemma print_app_message:
  assumes "fs_lock s = 0" and "cstr_at (mem s) a (bytes_of name)"
  shows "with_string a (\<lambda>name. sprint E ''Application: %s\<newline>'' [VaStr name]) s = Ret () (emit (app_message name) s)"
proof -
  have "c_string (mem s) a = Some name"
    using c_string_cstr [OF assms(2)] by (simp add: bytes_of_def comp_def)
  moreover have "expand 256 0 False False ''Application: %s\<newline>'' [VaStr name] = Inr (app_message name)"
    by (simp add: app_message_def)
  ultimately show ?thesis
    using con.print_ok [OF assms(1)] by (simp add: with_string_def)
qed

lemma std_files_free:
  assumes "std_files s"
  shows "files_ok s" and "spike_file_get_free s = (Some 3, set_refcnt 3 INIT_FILE_REF s)" and "n < 128 \<Longrightarrow> spike_fds s ! n \<noteq> Some 3"
proof -
  have fl: "spike_files s ! 0 = \<lparr>kfd = 0, refcnt = 4\<rparr>" "spike_files s ! 1 = \<lparr>kfd = 1, refcnt = 4\<rparr>"
    "spike_files s ! 2 = \<lparr>kfd = 2, refcnt = 4\<rparr>" "spike_files s ! 3 = \<lparr>kfd = - 1, refcnt = 0\<rparr>"
    using assms by (simp_all add: std_files_def nth_append)
  show "files_ok s"
    using assms by (simp add: std_files_def files_ok_def const_defs)
  show "spike_file_get_free s = (Some 3, set_refcnt 3 INIT_FILE_REF s)"
    unfolding spike_file_get_free_def
  proof (rule get_free_from_some)
    fix h :: nat
    assume "h < 3"
    then have "h = 0 \<or> h = 1 \<or> h = 2" by auto
    then show "refcnt (spike_files s ! h) \<noteq> 0" using fl by auto
  qed (simp_all add: fl MAX_FILES_def)
  assume "n < 128"
  then have "spike_fds s ! n \<in> set (spike_fds s)"
    using assms by (intro nth_mem) (simp add: std_files_def)
  moreover have "set (spike_fds s) = {Some 0, Some 1, Some 2, None}"
    using assms by (auto simp: std_files_def)
  ultimately show "spike_fds s ! n \<noteq> Some 3" by auto
qed

text \<open>The last steps of \<^verbatim>\<open>load_bincode_from_host_elf\<close>, and all of it once the file is open.\<close>

definition finish_load :: "env \<Rightarrow> uint64 \<Rightarrow> file_ptr \<Rightarrow> unit op" where
  "finish_load E p f s4 =
     (let s5 = s4\<lparr>mem := write64 (mem s4) (tf_of (mem s4) p + tf_epc)
                (eh_entry (read_elf_header (mem s4) (elfloader_ehdr E)))\<rparr>
      in seq (spike_file_close E f) (\<lambda>s6.
           sprint E ''Application program entry point (virtual address): 0x%lx\<newline>''
             [VaWord (read64 (mem s6) (tf_of (mem s6) p + tf_epc))] s6) s5)"

definition load_opened :: "env \<Rightarrow> uint64 \<Rightarrow> file_ptr \<Rightarrow> unit op" where
  "load_opened E p f =
     (let info = \<lparr>info_f = f, info_p = p\<rparr> in
      and_then (elf_init E info) (\<lambda>st s2.
        if st \<noteq> EL_OK then panic E (''fail to init elfloader.'' @ ''\<newline>'') [] s2
        else
          and_then (elf_load E info) (\<lambda>st s3.
            if st \<noteq> EL_OK then panic E (''Fail on loading elf.'' @ ''\<newline>'') [] s3
            else
              seq (load_user_symbols E info) (finish_load E p f) s3) s2))"

text \<open>The state of the kernel when the file is open.\<close>

definition opened :: "env \<Rightarrow> string \<Rightarrow> uint64 \<Rightarrow> kstate \<Rightarrow> kstate \<Rightarrow> bool" where
  "opened E name fd s t \<longleftrightarrow> fs_lock t = 0 \<and> csr t = csr s \<and> console t = console s @ clip (app_message name)
     \<and> only_changes (arg_bug_msg E) 512 (mem s) (mem t) \<and> spike_files t ! 3 = \<lparr>kfd = ucast fd, refcnt = INIT_FILE_REF\<rparr>
     \<and> spike_fds t = spike_fds s"

lemma load_bincode_named:
  assumes "fs_lock s = 0" and "reports_name E argc name" and "2 \<le> argc" and "argc \<le> 63"
  shows "\<exists>t a. load_bincode_from_host_elf E p s = and_then (spike_file_open E a O_RDONLY 0) (\<lambda>f s1.
       if is_err_value f then panic E (''Fail on openning the input application program.'' @ ''\<newline>'') [] s1
       else load_opened E p f s1) (emit (app_message name) t)
    \<and> cstr_at (mem t) a (bytes_of name) \<and> mem_only s t \<and> only_changes (arg_bug_msg E) 512 (mem s) (mem t)"
proof -
  obtain t a where t: "parse_args E s = Ret (of_nat (argc - 1)) t" "read64 (mem t) (arg_bug_msg E) = a"
    "cstr_at (mem t) a (bytes_of name)" "mem_only s t" "only_changes (arg_bug_msg E) 512 (mem s) (mem t)"
    using parse_args_name [OF assms] by blast
  have "fs_lock t = 0" using mem_only_fields(1) [OF t(4)] assms(1) by simp
  note msg = print_app_message [OF this t(3), of E]
  have "unat (of_nat (argc - 1) :: uint64) = argc - 1" using assms(4) by (intro unat_of_nat_small) simp
  then have "(of_nat (argc - 1) :: uint64) \<noteq> 0" using assms(3) by (metis diff_is_0_eq not_less_eq_eq numeral_2_eq_2 One_nat_def unat_0)
  with t(1-2) msg t(3-5) show ?thesis
    unfolding load_bincode_from_host_elf_def load_opened_def finish_load_def [abs_def]
    by (intro exI [of _ t] exI [of _ a]) (simp add: seq_def Let_def split: outcome.split)
qed

lemma load_bincode_opened:
  assumes "fs_lock s = 0" and "reports_name E argc name" and "2 \<le> argc" and "argc \<le> 63"
    and "std_files s" and "answers_open E name fd" and "fd < 128"
  shows "\<exists>t. load_bincode_from_host_elf E p s = load_opened E p (File 3) t \<and> opened E name fd s t"
proof -
  obtain t a where run: "load_bincode_from_host_elf E p s = and_then (spike_file_open E a O_RDONLY 0) (\<lambda>f s1.
       if is_err_value f then panic E (''Fail on openning the input application program.'' @ ''\<newline>'') [] s1
       else load_opened E p f s1) (emit (app_message name) t)"
    and t: "cstr_at (mem t) a (bytes_of name)" "mem_only s t" "only_changes (arg_bug_msg E) 512 (mem s) (mem t)"
    using load_bincode_named [OF assms(1-4), of p] by blast
  let ?u = "emit (app_message name) t"
  have u: "std_files ?u" "fs_lock ?u = 0" "cstr_at (mem ?u) a (bytes_of name)"
    using assms(1,5) t(1) mem_only_fields [OF t(2)] by (simp_all add: std_files_def)
  note free = std_files_free [OF u(1)]
  have len: "length (bytes_of name) = length name" by (simp add: bytes_of_def)
  have host: "fesvr E (openat_request AT_FDCWD a (of_nat (length (bytes_of name))) O_RDONLY 0) (mem ?u) = (fd, mem ?u)"
    unfolding len using assms(6) u(3) by (simp add: answers_open_def)
  have nn: "0 \<le> sint fd" using assms(7) sint_small [of fd] by (simp add: word_less_nat_alt)
  define v where "v = set_kfd 3 (ucast fd) ((set_refcnt 3 INIT_FILE_REF ?u)\<lparr>mem := mem ?u,
      trace := trace ?u @ [HostCall (openat_request AT_FDCWD a (of_nat (length (bytes_of name))) O_RDONLY 0)]\<rparr>)"
  have "spike_file_open E a O_RDONLY 0 ?u = Ret (File 3) v"
    using spike_file_openat_eq [OF free(1) u(2,3) free(2) host] nn by (simp add: spike_file_open_def v_def)
  moreover have "opened E name fd s v"
  proof -
    have "3 < length (spike_files ?u)" using free(1) by (simp add: files_ok_def MAX_FILES_def)
    then have "spike_files v ! 3 = \<lparr>kfd = ucast fd, refcnt = INIT_FILE_REF\<rparr>"
      by (simp add: v_def set_kfd_def set_refcnt_def)
    moreover have "console v = console ?u"
      by (simp add: v_def set_kfd_def set_refcnt_def console_def)
    ultimately show ?thesis
      using t(3) u(2) mem_only_fields [OF t(2)] by (simp add: opened_def v_def)
        (simp add: set_kfd_def set_refcnt_def)
  qed
  ultimately show ?thesis by (auto simp: run)
qed

lemma load_bincode_unopened:
  assumes "fs_lock s = 0" and "reports_name E argc name" and "2 \<le> argc" and "argc \<le> 63"
    and "std_files s" and "answers_open E name fd" and "- 4096 \<le> fd"
  shows "panics (load_bincode_from_host_elf E p s) (''Fail on openning the input application program.'' @ ''\<newline>'')
    (emit (app_message name) s)"
proof -
  obtain t a where run: "load_bincode_from_host_elf E p s = and_then (spike_file_open E a O_RDONLY 0) (\<lambda>f s1.
       if is_err_value f then panic E (''Fail on openning the input application program.'' @ ''\<newline>'') [] s1
       else load_opened E p f s1) (emit (app_message name) t)"
    and t: "cstr_at (mem t) a (bytes_of name)" "mem_only s t"
    using load_bincode_named [OF assms(1-4), of p] by blast
  let ?u = "emit (app_message name) t"
  have u: "std_files ?u" "fs_lock ?u = 0" "cstr_at (mem ?u) a (bytes_of name)"
    using assms(1,5) t(1) mem_only_fields [OF t(2)] by (simp_all add: std_files_def)
  note free = std_files_free [OF u(1)]
  have len: "length (bytes_of name) = length name" by (simp add: bytes_of_def)
  have host: "fesvr E (openat_request AT_FDCWD a (of_nat (length (bytes_of name))) O_RDONLY 0) (mem ?u) = (fd, mem ?u)"
    unfolding len using assms(6) u(3) by (simp add: answers_open_def)
  have "\<not> 0 \<le> sint fd"
  proof -
    have "2 ^ 64 - 4096 \<le> uint fd" using assms(7) by (simp add: word_le_def)
    moreover have "uint fd = take_bit 64 (sint fd)" and "sint fd < 2 ^ 63"
      using uint_sint [of fd] sint_lt [of fd] by simp_all
    ultimately show ?thesis by (auto simp: take_bit_int_eq_self)
  qed
  define v where "v = set_refcnt 3 2 ((set_refcnt 3 INIT_FILE_REF ?u)\<lparr>mem := mem ?u,
      trace := trace ?u @ [HostCall (openat_request AT_FDCWD a (of_nat (length (bytes_of name))) O_RDONLY 0)]\<rparr>)"
  have "spike_file_open E a O_RDONLY 0 ?u = Ret (ErrPtr fd) v"
    using spike_file_openat_eq [OF free(1) u(2,3) free(2) host] \<open>\<not> 0 \<le> sint fd\<close> by (simp add: spike_file_open_def v_def)
  moreover have "fs_lock v = 0" "console v = console (emit (app_message name) s)"
    using u(2) mem_only_fields(8) [OF t(2)] by (simp_all add: v_def set_refcnt_def console_def emit_def)
  then have "panics (panic E (''Fail on openning the input application program.'' @ ''\<newline>'') [] v :: (kstate, unit) outcome)
      (''Fail on openning the input application program.'' @ ''\<newline>'') (emit (app_message name) s)"
    by (intro panic_panics) simp_all
  ultimately show ?thesis using assms(7) by (simp add: run)
qed

subsection \<open>Headers, segments and symbols\<close>

definition elf_header_of :: "uint8 list \<Rightarrow> elf_header" where
  "elf_header_of file = read_elf_header (write_bytes (\<lambda>_. 0) 0 (take 64 file)) 0"

definition app_headers :: "uint8 list \<Rightarrow> elf_prog_header list" where
  "app_headers file = prog_headers file (eh_phoff (elf_header_of file)) (unat (eh_phnum (elf_header_of file)))"

text \<open>A file whose program headers end early: one of them is not in the file.\<close>

definition app_cut :: "uint8 list \<Rightarrow> bool" where
  "app_cut file \<longleftrightarrow> headers_cut file (eh_phoff (elf_header_of file)) (unat (eh_phnum (elf_header_of file)))"

definition all_loadable :: "uint8 list \<Rightarrow> bool" where
  "all_loadable file \<longleftrightarrow> \<not> app_cut file \<and> (\<forall>ph\<in>set (app_headers file). is_load ph \<longrightarrow> loadable file ph)"

text \<open>Every segment of the file is in memory.\<close>

definition segments_in :: "uint8 list \<Rightarrow> memory \<Rightarrow> bool" where
  "segments_in file m \<longleftrightarrow> (\<forall>ph\<in>set (app_headers file). is_load ph \<longrightarrow>
     read_bytes m (ph_vaddr ph) (unat (ph_memsz ph)) = file_bytes file (unat (ph_off ph)) (unat (ph_memsz ph)))"

text \<open>What the loader makes of a file: it rejects it with a message, cannot go on, or loads it, with or
  without symbols.\<close>

definition load_verdict :: "uint8 list \<Rightarrow> tables" where
  "load_verdict file =
     (if length file < 64 \<or> take 4 file \<noteq> [0x7F, 0x45, 0x4C, 0x46] then Rejected (''fail to init elfloader.'' @ ''\<newline>'')
      else if \<not> all_loadable file then Rejected (''Fail on loading elf.'' @ ''\<newline>'')
      else symbol_tables file (elf_header_of file) [0..<unat (eh_shnum (elf_header_of file))])"

lemma ehdr_at_file:
  assumes "\<not> length file < 64"
  shows "read_elf_header (write_bytes m a (take 64 file)) a = elf_header_of file"
  unfolding elf_header_of_def
proof (rule read_elf_header_cong)
  fix j k :: nat
  assume "j + k \<le> 64"
  then show "read_bytes (write_bytes m a (take 64 file)) (a + of_nat j) k =
      read_bytes (write_bytes (\<lambda>_. 0) 0 (take 64 file)) (0 + of_nat j) k"
    using assms read_write_bytes_sub [of j k "take 64 file" m a] read_write_bytes_sub [of j k "take 64 file" "\<lambda>_. 0" 0] by simp
qed

lemma ehdr_at_changes:
  assumes "changes_in rs m m'" and "\<forall>(a, n)\<in>set rs. apart a n (elfloader_ehdr E) 64"
  shows "ehdr_at E m' = ehdr_at E m"
proof (rule read_elf_header_cong)
  fix j k :: nat
  assume "j + k \<le> 64"
  then have "\<forall>(a, n)\<in>set rs. apart a n (elfloader_ehdr E + of_nat j) k"
    using assms(2) apart_sub [of _ _ "elfloader_ehdr E" 64 0 _ j k] by fastforce
  then show "read_bytes m' (elfloader_ehdr E + of_nat j) k = read_bytes m (elfloader_ehdr E + of_nat j) k"
    by (rule changes_in_read_bytes [OF assms(1)])
qed

text \<open>The layout as each stage needs it.\<close>

lemma boot_layoutD:
  assumes "boot_layout E phs"
  shows "load_layout E phs" and "segments_apart phs" and "symbols_layout E (user_app E)"
    and "\<And>ph. ph \<in> set phs \<Longrightarrow> is_load ph \<Longrightarrow> apart (ph_addr E) 56 (ph_vaddr ph) (unat (ph_memsz ph))"
    and "apart USER_TRAP_FRAME 272 (user_app E) 20512"
  using assms
  by (auto simp: boot_layout_def kept_regions_def scratch_regions_def load_layout_def segments_apart_def symbols_layout_def
      seg_regions_def is_load_def sorted_wrt_map apart_sym)

text \<open>What a loaded file is.\<close>

definition entry_message :: "uint64 \<Rightarrow> string" where
  "entry_message a = ''Application program entry point (virtual address): 0x'' @ hex_chars 16 a @ ''\<newline>''"

definition loaded :: "env \<Rightarrow> uint8 list \<Rightarrow> kstate \<Rightarrow> kstate \<Rightarrow> bool" where
  "loaded E file s t \<longleftrightarrow> fs_lock t = 0 \<and> csr t = csr s
     \<and> console t = console s @ clip (entry_message (eh_entry (elf_header_of file)))
     \<and> changes_in (load_regions E (app_headers file)) (mem s) (mem t)
     \<and> read64 (mem t) (USER_TRAP_FRAME + tf_epc) = eh_entry (elf_header_of file)
     \<and> segments_in file (mem t)"

fun load_outcome :: "env \<Rightarrow> uint8 list \<Rightarrow> kstate \<Rightarrow> tables \<Rightarrow> (kstate, unit) outcome \<Rightarrow> bool" where
  "load_outcome E file s (Rejected msg) r \<longleftrightarrow> panics r msg s"
| "load_outcome E file s ZeroEntry r \<longleftrightarrow> r = Undef DivByZero"
| "load_outcome E file s NoTables r \<longleftrightarrow>
     (\<exists>t. r = Ret () t \<and> loaded E file s t
        \<and> read_bytes (mem t) (user_app E) 20512 = read_bytes (mem s) (user_app E) 20512)"
| "load_outcome E file s (Tables sy str) r \<longleftrightarrow>
     (\<exists>t. r = Ret () t \<and> loaded E file s t \<and> tables_loaded file (user_app E) sy str (mem t))"

text \<open>The last steps: the entry point into the trap frame, the file closed, the message.\<close>

definition finished :: "nat \<Rightarrow> uint64 \<Rightarrow> kstate \<Rightarrow> kstate" where
  "finished f a s = emit (entry_message a) (set_refcnt f 2 (s\<lparr>mem := write64 (mem s) (USER_TRAP_FRAME + tf_epc) a\<rparr>))"

lemma finished_fields [simp]:
  "mem (finished f a s) = write64 (mem s) (USER_TRAP_FRAME + tf_epc) a" "csr (finished f a s) = csr s"
  "fs_lock (finished f a s) = fs_lock s" "console (finished f a s) = console s @ clip (entry_message a)"
  by (simp_all add: finished_def) (simp_all add: set_refcnt_def console_def)

lemma finish_eq:
  assumes "fs_lock s = 0" and "spike_files s ! f = \<lparr>kfd = k, refcnt = 3\<rparr>" and "sint k = int n" and "n < 128"
    and "spike_fds s ! n \<noteq> Some f" and "tf_of (mem s) p = USER_TRAP_FRAME" and "apart USER_TRAP_FRAME 272 p 20512"
    and "a = eh_entry (ehdr_at E (mem s))"
  shows "finish_load E p (File f) s = Ret () (finished f a s)"
proof -
  let ?s5 = "s\<lparr>mem := write64 (mem s) (USER_TRAP_FRAME + tf_epc) a\<rparr>"
  have "apart (USER_TRAP_FRAME + tf_epc) 8 (p + p_trapframe) 8"
    using user_frame_apart(1) [OF assms(7), of p_trapframe 8 264 8] by (simp add: tf_epc_def)
  then have tf: "tf_of (write64 (mem s) (USER_TRAP_FRAME + tf_epc) a) p = USER_TRAP_FRAME"
    using assms(6) by (simp add: tf_of_def read64_write64_apart)
  have close: "spike_file_close E (File f) ?s5 = Ret (- 1) (set_refcnt f 2 ?s5)"
    using assms(2-5) by (intro close_once) simp_all
  have "expand 256 0 False False ''Application program entry point (virtual address): 0x%lx\<newline>'' [VaWord a] = Inr (entry_message a)"
    by (simp add: entry_message_def)
  then have "sprint E ''Application program entry point (virtual address): 0x%lx\<newline>'' [VaWord a] (set_refcnt f 2 ?s5) =
      Ret () (finished f a s)"
    unfolding finished_def using assms(1) by (intro con.print_ok) simp_all
  then show ?thesis
    by (simp add: finish_load_def Let_def assms(6) seq_def close tf del: spike_file_close.simps flip: assms(8))
qed

text \<open>Regions that stay as they were, from one stage to the next.\<close>

lemma clear_read_bytes:
  assumes "changes_in rs m m'" and "\<forall>x\<in>set rs. clear_of x (b, n)" and "unat a + k \<le> n"
  shows "read_bytes m' (b + a) k = read_bytes m (b + a) k"
  using assms(3) assms(2) apart_sub [of _ _ b n 0 _ "unat a" k]
  by (intro changes_in_read_bytes [OF assms(1)]) (fastforce simp: split_beta)

lemma clear_read64:
  assumes "changes_in rs m m'" and "\<forall>x\<in>set rs. clear_of x (b, n)" and "unat a + 8 \<le> n"
  shows "read64 m' (b + a) = read64 m (b + a)"
  using clear_read_bytes [OF assms] by (simp add: read64_def)

text \<open>The regions written while segments are loaded.\<close>

definition segment_stage :: "env \<Rightarrow> elf_prog_header list \<Rightarrow> region list" where
  "segment_stage E phs = (ph_addr E, 56) # seg_regions phs"

lemma stage_clear:
  assumes "boot_layout E phs"
  shows "\<forall>x\<in>set (segment_stage E phs). clear_of x (user_app E, 20512)"
    and "\<forall>x\<in>set (segment_stage E phs). clear_of x (elfloader_ehdr E, 64)"
    and "\<forall>x\<in>set (table_regions E (user_app E)). clear_of x (elfloader_ehdr E, 64)"
    and "\<forall>x\<in>set (table_regions E (user_app E)). clear_of x (user_app E, 16)"
    and "y \<in> set (seg_regions phs) \<Longrightarrow> \<forall>x\<in>set ((USER_TRAP_FRAME + tf_epc, 8) # table_regions E (user_app E)). clear_of x y"
    and "clear_of (elfloader_ehdr E, 64) (user_app E, 20512)"
    and "clear_of (USER_TRAP_FRAME + tf_epc, 8) (user_app E, 20512)"
proof -
  have l: "sorted_wrt clear_of (kept_regions E phs)" "\<forall>x\<in>set (scratch_regions E). \<forall>y\<in>set (kept_regions E phs). clear_of x y"
    using assms by (simp_all add: boot_layout_def)
  show "\<forall>x\<in>set (segment_stage E phs). clear_of x (user_app E, 20512)"
    "\<forall>x\<in>set (segment_stage E phs). clear_of x (elfloader_ehdr E, 64)"
    "clear_of (elfloader_ehdr E, 64) (user_app E, 20512)"
    using l by (auto simp: segment_stage_def kept_regions_def scratch_regions_def apart_sym)
  have sub: "apart (user_app E + p_symtab) 20496 b n" if "apart (user_app E) 20512 b n" for b n
    using apart_sub [OF that, of 16 20496 0 n] by (simp add: p_symtab_def)
  have epc: "apart (USER_TRAP_FRAME + tf_epc) 8 b n" if "apart USER_TRAP_FRAME 272 b n" for b n
    using apart_sub [OF that, of 264 8 0 n] by (simp add: tf_epc_def)
  show "\<forall>x\<in>set (table_regions E (user_app E)). clear_of x (elfloader_ehdr E, 64)"
    using l sub by (auto simp: table_regions_def kept_regions_def scratch_regions_def)
  show "clear_of (USER_TRAP_FRAME + tf_epc, 8) (user_app E, 20512)"
    using l epc by (auto simp: kept_regions_def apart_sym)
  show "\<forall>x\<in>set ((USER_TRAP_FRAME + tf_epc, 8) # table_regions E (user_app E)). clear_of x y" if "y \<in> set (seg_regions phs)"
    using l sub epc that by (auto simp: table_regions_def kept_regions_def scratch_regions_def)
  have "apart (user_app E + p_symtab) 20496 (user_app E) 16" by (simp add: apart_def const_defs)
  moreover have "apart a n (user_app E) 16" if "apart a n (user_app E) 20512" for a n
    using apart_sub [OF that, of 0 n 0 16] by simp
  ultimately show "\<forall>x\<in>set (table_regions E (user_app E)). clear_of x (user_app E, 16)"
    using l by (auto simp: table_regions_def kept_regions_def scratch_regions_def)
qed

text \<open>After headers and segments.\<close>

lemma segments_stage:
  assumes "loading E info file s" and "\<not> length file < 64" and "boot_layout E (app_headers file)"
    and "mem t = write_bytes (mem s) (elfloader_ehdr E) (take 64 file)" and "mem_only s t"
  shows "\<exists>st u. elf_load E info t = Ret st u \<and> (st = EL_OK \<longleftrightarrow> all_loadable file)
    \<and> mem_only s u \<and> loading E info file u \<and> ehdr_at E (mem u) = elf_header_of file
    \<and> changes_in (segment_stage E (app_headers file)) (mem t) (mem u) \<and> (all_loadable file \<longrightarrow> segments_in file (mem u))"
proof -
  let ?phs = "app_headers file" and ?r = "load_segments file (app_cut file) (app_headers file) (mem t)"
  note lay = boot_layoutD [OF assms(3)]
  have eh: "ehdr_at E (mem t) = elf_header_of file"
    unfolding assms(4) by (rule ehdr_at_file [OF assms(2)])
  have loading: "loading E info file v" if "mem_only s v" for v
    using assms(1) mem_only_fields [OF that] by (simp add: loading_def)
  obtain u where u: "elf_load E info t = Ret (fst ?r) u" and ch: "only_changes (ph_addr E) 56 (snd ?r) (mem u)" and mo: "mem_only t u"
    using elf_load_eq [OF loading [OF assms(5)] refl refl, unfolded eh] lay(1)
    by (auto simp: app_cut_def app_headers_def)
  have su: "mem_only s u" by (rule mem_only_trans [OF assms(5) mo])
  have all: "changes_in (segment_stage E ?phs) (mem t) (mem u)"
  proof (rule changes_in_trans)
    show "changes_in (segment_stage E ?phs) (mem t) (snd ?r)"
      by (rule changes_in_mono [OF load_segments_changes]) (auto simp: segment_stage_def)
    show "changes_in (segment_stage E ?phs) (snd ?r) (mem u)"
      by (rule only_changes_in [OF ch]) (simp add: segment_stage_def)
  qed
  have eh': "ehdr_at E (mem u) = elf_header_of file"
    using ehdr_at_changes [OF all, of E] stage_clear(2) [OF assms(3)] eh by (auto simp: split_beta)
  have seg: "read_bytes (mem u) (ph_vaddr ph) (unat (ph_memsz ph)) = file_bytes file (unat (ph_off ph)) (unat (ph_memsz ph))"
    if "fst ?r = EL_OK" "ph \<in> set ?phs" "is_load ph" for ph
    using only_changes_read_bytes [OF ch lay(4) [OF that(2,3)]] load_segments_image [OF that(1) lay(2) that(2,3)] by simp
  show ?thesis
    using u su loading [OF su] eh' all seg load_segments_ok_iff [of "file" "app_cut file" ?phs "mem t"]
    by (auto simp: all_loadable_def segments_in_def)
qed

lemma read_bytes_part:
  assumes "read_bytes m' p n = read_bytes m p n" and "unat a + k \<le> n"
  shows "read_bytes m' (p + a) k = read_bytes m (p + a) k"
proof -
  have "read_bytes x (p + a) k = take k (drop (unat a) (read_bytes x p n))" for x
    using assms(2) by (simp add: drop_read_bytes take_read_bytes)
  then show ?thesis by (simp only: assms(1))
qed

lemma tables_loaded_change:
  assumes "tables_loaded file p sy str m" and "read_bytes m' p 20512 = read_bytes m p 20512"
    and "sh_size sy div 24 \<le> 512" and "sh_size str \<le> 8192"
  shows "tables_loaded file p sy str m'"
proof -
  note part = read_bytes_part [OF assms(2)]
  have "unat (sh_size str) \<le> 8192" using assms(4) by (simp add: word_le_nat_alt)
  then show ?thesis
    using assms(1) count_bound(2) [OF assms(3)] by (simp add: tables_loaded_def read64_def part)
qed

lemma verdict_bounds:
  assumes "load_verdict file = Tables sy str"
  shows "sh_size sy div 24 \<le> 512" and "sh_size str \<le> 8192"
proof -
  have "tables_of file eh x = Tables sy str \<Longrightarrow> sh_size str \<le> 8192" for eh x
    by (auto simp: tables_of_def Let_def not_less split: if_splits)
  then have "symbol_tables file eh ks = Tables sy str \<Longrightarrow> sh_size str \<le> 8192" for eh ks
    by (induction ks) (auto split: if_splits)
  moreover have "symbol_tables file (elf_header_of file) [0..<unat (eh_shnum (elf_header_of file))] = Tables sy str"
    using assms by (simp add: load_verdict_def split: if_splits)
  ultimately show "sh_size sy div 24 \<le> 512" and "sh_size str \<le> 8192"
    by (simp_all add: symbol_tables_bound)
qed

text \<open>From the loaded tables to the end.\<close>

lemma loaded_finish:
  assumes "mem_only s u" and "changes_in ((elfloader_ehdr E, 64) # segment_stage E (app_headers file)) (mem s) (mem u)"
    and "segments_in file (mem u)" and "mem_only u v" and "changes_in (table_regions E (user_app E)) (mem u) (mem v)"
    and "boot_layout E (app_headers file)" and "fs_lock s = 0"
  shows "loaded E file s (finished f (eh_entry (elf_header_of file)) v)"
    and "read_bytes (mem (finished f a v)) (user_app E) 20512 = read_bytes (mem v) (user_app E) 20512"
    and "tf_of (mem v) (user_app E) = tf_of (mem s) (user_app E)"
    and "read_bytes (mem u) (user_app E) 20512 = read_bytes (mem s) (user_app E) 20512"
proof -
  let ?w = "finished f (eh_entry (elf_header_of file)) v"
  note cl = stage_clear [OF assms(6)]
  have fin: "only_changes (USER_TRAP_FRAME + tf_epc) 8 (mem v) (mem (finished f a v))" for a
    by (simp add: only_changes_write64)
  show "read_bytes (mem (finished f a v)) (user_app E) 20512 = read_bytes (mem v) (user_app E) 20512" for a
    using only_changes_read_bytes [OF fin] cl(7) by simp
  have first: "\<forall>x\<in>set ((elfloader_ehdr E, 64) # segment_stage E (app_headers file)). clear_of x (user_app E, 20512)"
    using cl(1,6) by simp
  show "read_bytes (mem u) (user_app E) 20512 = read_bytes (mem s) (user_app E) 20512"
    using clear_read_bytes [OF assms(2) first, of 0 20512] by simp
  show "tf_of (mem v) (user_app E) = tf_of (mem s) (user_app E)"
    using clear_read64 [OF assms(2) first, of p_trapframe] clear_read64 [OF assms(5) cl(4), of p_trapframe]
    by (simp add: tf_of_def)
  have "changes_in (load_regions E (app_headers file)) (mem s) (mem ?w)"
  proof (rule changes_in_trans [OF changes_in_trans])
    show "changes_in (load_regions E (app_headers file)) (mem s) (mem u)"
      by (rule changes_in_mono [OF assms(2)]) (auto simp: load_regions_def scratch_regions_def segment_stage_def)
    show "changes_in (load_regions E (app_headers file)) (mem u) (mem v)"
      by (rule changes_in_mono [OF assms(5)]) (auto simp: load_regions_def scratch_regions_def table_regions_def)
    show "changes_in (load_regions E (app_headers file)) (mem v) (mem ?w)"
      by (rule only_changes_in [OF fin]) (simp add: load_regions_def)
  qed
  moreover have "segments_in file (mem ?w)"
    unfolding segments_in_def
  proof (intro ballI impI)
    fix ph
    assume ph: "ph \<in> set (app_headers file)" "is_load ph"
    let ?rs = "(USER_TRAP_FRAME + tf_epc, 8) # table_regions E (user_app E)"
    have rs: "changes_in ?rs (mem u) (mem ?w)"
      by (rule changes_in_trans [OF changes_in_mono [OF assms(5)] only_changes_in [OF fin]]) (simp_all add: subset_insertI)
    have "(ph_vaddr ph, unat (ph_memsz ph)) \<in> set (seg_regions (app_headers file))"
      using ph by (auto simp: seg_regions_def)
    then have "read_bytes (mem ?w) (ph_vaddr ph) (unat (ph_memsz ph)) = read_bytes (mem u) (ph_vaddr ph) (unat (ph_memsz ph))"
      using clear_read_bytes [OF rs cl(5) [of "(ph_vaddr ph, unat (ph_memsz ph))"], of 0 "unat (ph_memsz ph)"] by simp
    then show "read_bytes (mem ?w) (ph_vaddr ph) (unat (ph_memsz ph)) = file_bytes file (unat (ph_off ph)) (unat (ph_memsz ph))"
      using assms(3) ph by (simp add: segments_in_def)
  qed
  ultimately show "loaded E file s ?w"
    using mem_only_fields [OF mem_only_trans [OF assms(1,4)]] assms(7) by (simp add: loaded_def)
qed

text \<open>The file is open in slot \<open>f\<close>, and the process is prepared.\<close>

definition file_open :: "env \<Rightarrow> nat \<Rightarrow> uint8 list \<Rightarrow> kstate \<Rightarrow> bool" where
  "file_open E f file s \<longleftrightarrow> fs_lock s = 0 \<and> tf_of (mem s) (user_app E) = USER_TRAP_FRAME
     \<and> (\<exists>k n. spike_files s ! f = \<lparr>kfd = k, refcnt = 3\<rparr> \<and> sint k = int n \<and> n < 128 \<and> spike_fds s ! n \<noteq> Some f
          \<and> serves E k file)"

lemma finish_outcome:
  assumes "file_open E f file s" and "boot_layout E (app_headers file)"
    and "mem_only s u" and "changes_in ((elfloader_ehdr E, 64) # segment_stage E (app_headers file)) (mem s) (mem u)"
    and "segments_in file (mem u)" and "ehdr_at E (mem u) = elf_header_of file"
    and "mem_only u v" and "changes_in (table_regions E (user_app E)) (mem u) (mem v)"
  shows "finish_load E (user_app E) (File f) v = Ret () (finished f (eh_entry (elf_header_of file)) v)"
    and "loaded E file s (finished f (eh_entry (elf_header_of file)) v)"
    and "read_bytes (mem (finished f a v)) (user_app E) 20512 = read_bytes (mem v) (user_app E) 20512"
    and "read_bytes (mem u) (user_app E) 20512 = read_bytes (mem s) (user_app E) 20512"
proof -
  have s: "fs_lock s = 0" "tf_of (mem s) (user_app E) = USER_TRAP_FRAME" using assms(1) by (simp_all add: file_open_def)
  note L = loaded_finish [OF assms(3-5,7,8,2) s(1)]
  show "loaded E file s (finished f (eh_entry (elf_header_of file)) v)"
    "read_bytes (mem (finished f a v)) (user_app E) 20512 = read_bytes (mem v) (user_app E) 20512"
    "read_bytes (mem u) (user_app E) 20512 = read_bytes (mem s) (user_app E) 20512"
    by (rule L)+
  have v: "fs_lock v = 0" "spike_files v = spike_files s" "spike_fds v = spike_fds s"
    using mem_only_fields [OF mem_only_trans [OF assms(3,7)]] s(1) by simp_all
  have "ehdr_at E (mem v) = elf_header_of file"
    using ehdr_at_changes [OF assms(8), of E] stage_clear(3) [OF assms(2)] assms(6) by (auto simp: split_beta)
  then show "finish_load E (user_app E) (File f) v = Ret () (finished f (eh_entry (elf_header_of file)) v)"
    using assms(1) v L(3) s(2) finish_eq [of v f _ _ "user_app E" _ E] boot_layoutD(5) [OF assms(2)]
    by (auto simp: file_open_def)
qed

text \<open>From the segments to the end.\<close>

lemma symbols_outcome:
  fixes E f
  defines "info \<equiv> \<lparr>info_f = File f, info_p = user_app E\<rparr>"
  assumes "file_open E f file s" and "boot_layout E (app_headers file)"
    and "mem_only s u" and "changes_in ((elfloader_ehdr E, 64) # segment_stage E (app_headers file)) (mem s) (mem u)"
    and "segments_in file (mem u)" and "ehdr_at E (mem u) = elf_header_of file"
    and "tables_outcome E file (user_app E) u (load_verdict file) (load_user_symbols E info u)"
  shows "load_outcome E file s (load_verdict file) (seq (load_user_symbols E info) (finish_load E (user_app E) (File f)) u)"
proof -
  note F = finish_outcome [OF assms(2-7)]
  show ?thesis
  proof (cases "load_verdict file")
    case NoTables
    then obtain v where v: "load_user_symbols E info u = Ret () v" "mem_only u v"
        "changes_in (table_regions E (user_app E)) (mem u) (mem v)"
        "read_bytes (mem v) (user_app E) 20512 = read_bytes (mem u) (user_app E) 20512"
      using assms(8) by auto
    then show ?thesis
      using NoTables F [OF v(2,3)] by (auto simp: seq_def)
  next
    case (Rejected msg)
    then show ?thesis
      using assms(8) mem_only_fields(8) [OF assms(4)] by (auto simp: panics_def seq_def)
  next
    case ZeroEntry
    then show ?thesis using assms(8) by (simp add: seq_def)
  next
    case (Tables sy str)
    then obtain v where v: "load_user_symbols E info u = Ret () v" "mem_only u v"
        "changes_in (table_regions E (user_app E)) (mem u) (mem v)" "tables_loaded file (user_app E) sy str (mem v)"
      using assms(8) by auto
    have "tables_loaded file (user_app E) sy str (mem (finished f (eh_entry (elf_header_of file)) v))"
      by (rule tables_loaded_change [OF v(4) F(3) [OF v(2,3)] verdict_bounds [OF Tables]])
    then show ?thesis
      using Tables F(1,2) [OF v(2,3)] v(1) by (auto simp: seq_def)
  qed
qed

lemma load_opened_outcome:
  assumes "file_open E f file s" and "boot_layout E (app_headers file)"
  shows "load_outcome E file s (load_verdict file) (load_opened E (user_app E) (File f) s)"
proof -
  let ?info = "\<lparr>info_f = File f, info_p = user_app E\<rparr>"
  have loading: "loading E ?info file s"
    using assms(1) by (auto simp: loading_def file_open_def)
  obtain t where init: "elf_init E ?info s = Ret (if length file < 64 then EL_EIO
        else if take 4 file \<noteq> [0x7F, 0x45, 0x4C, 0x46] then EL_NOTELF else EL_OK) t"
    and t: "mem t = write_bytes (mem s) (elfloader_ehdr E) (take 64 file)" "mem_only s t"
    using elf_init_eq [OF loading] by blast
  have stop: "panics (panic E msg [] v :: (kstate, unit) outcome) msg s" if "mem_only s v" "CHR ''%'' \<notin> set msg" for v msg
    using mem_only_fields [OF that(1)] assms(1) that(2) by (intro panic_panics) (simp_all add: file_open_def)
  show ?thesis
  proof (cases "length file < 64 \<or> take 4 file \<noteq> [0x7F, 0x45, 0x4C, 0x46]")
    case True
    then have "load_opened E (user_app E) (File f) s = panic E (''fail to init elfloader.'' @ ''\<newline>'') [] t"
      by (auto simp: load_opened_def Let_def init)
    then show ?thesis
      using True stop [OF t(2)] by (auto simp: load_verdict_def)
  next
    case good: False
    then have init': "elf_init E ?info s = Ret EL_OK t" and len: "\<not> length file < 64" by (simp_all add: init)
    obtain st u where load: "elf_load E ?info t = Ret st u" and st: "st = EL_OK \<longleftrightarrow> all_loadable file"
      and u: "mem_only s u" "loading E ?info file u" "ehdr_at E (mem u) = elf_header_of file"
      and ch: "changes_in (segment_stage E (app_headers file)) (mem t) (mem u)"
      and seg: "all_loadable file \<Longrightarrow> segments_in file (mem u)"
      using segments_stage [OF loading len assms(2) t] by auto
    show ?thesis
    proof (cases "all_loadable file")
      case False
      then have "load_opened E (user_app E) (File f) s = panic E (''Fail on loading elf.'' @ ''\<newline>'') [] u"
        using st by (simp add: load_opened_def Let_def init' load)
      then show ?thesis
        using good False stop [OF u(1)] by (auto simp: load_verdict_def)
    next
      case True
      have tables: "tables_outcome E file (user_app E) u (load_verdict file) (load_user_symbols E ?info u)"
        using load_user_symbols_outcome [OF u(2) _ refl] boot_layoutD(3) [OF assms(2)] good True u(3)
        by (simp add: load_verdict_def)
      have chs: "changes_in ((elfloader_ehdr E, 64) # segment_stage E (app_headers file)) (mem s) (mem u)"
        using changes_in_trans [OF changes_in_write [of "take 64 file" 64 "elfloader_ehdr E"] changes_in_mono [OF ch [unfolded t(1)]]]
        by (simp add: subset_insertI)
      have "load_opened E (user_app E) (File f) s = seq (load_user_symbols E ?info) (finish_load E (user_app E) (File f)) u"
        using st True by (simp add: load_opened_def Let_def init' load)
      then show ?thesis
        using symbols_outcome [OF assms(1,2) u(1) chs seg [OF True] u(3) tables] by simp
    qed
  qed
qed

subsection \<open>From the supervisor's start to the application\<close>

text \<open>What the console shows before the file is looked at.\<close>

definition boot_console :: "string \<Rightarrow> kstate \<Rightarrow> string" where
  "boot_console name s = console s @ ''Enter supervisor mode...\<newline>'' @ clip (app_message name)"

text \<open>The symbol tables of the process: those of the file, or what was there.\<close>

definition symbols_in :: "env \<Rightarrow> uint8 list \<Rightarrow> memory \<Rightarrow> memory \<Rightarrow> bool" where
  "symbols_in E file m m' \<longleftrightarrow> (case load_verdict file of
       Tables sy str \<Rightarrow> tables_loaded file (user_app E) sy str m'
     | _ \<Rightarrow> read_bytes m' (user_app E + p_symtab) 20496 = read_bytes m (user_app E + p_symtab) 20496)"

text \<open>The application at its first instruction.\<close>

definition app_started :: "env \<Rightarrow> uint8 list \<Rightarrow> string \<Rightarrow> kstate \<Rightarrow> kstate \<Rightarrow> bool" where
  "app_started E file name s t \<longleftrightarrow> user_ready E (user_app E) t \<and> pc t = eh_entry (elf_header_of file)
     \<and> gpr t = (\<lambda>_. 0)(Sp := USER_STACK) \<and> is_intr_enable (csr t) \<and> satp (csr t) = 0
     \<and> fs_lock t = 0 \<and> m_regs (csr t) = m_regs (csr s)
     \<and> tf_of (mem t) (user_app E) = USER_TRAP_FRAME \<and> read64 (mem t) (user_app E + p_kstack) = USER_KSTACK
     \<and> segments_in file (mem t) \<and> symbols_in E file (mem s) (mem t)
     \<and> console t = boot_console name s @ clip (entry_message (eh_entry (elf_header_of file))) @ ''Switch to user mode...\<newline>''"

text \<open>What loading leaves as it was: the process but for its tables, the trap frame but for the program counter.\<close>

lemma load_regions_clear:
  assumes "boot_layout E phs"
  shows "\<forall>x\<in>set (load_regions E phs). clear_of x (user_app E, 16)"
    and "\<forall>x\<in>set (load_regions E phs). clear_of x (USER_TRAP_FRAME, 264)"
proof -
  have l: "sorted_wrt clear_of (kept_regions E phs)" "\<forall>x\<in>set (scratch_regions E). \<forall>y\<in>set (kept_regions E phs). clear_of x y"
    using assms by (simp_all add: boot_layout_def)
  have p: "apart (user_app E) 16 a n" if "apart (user_app E) 20512 a n" for a n
    using apart_sub [OF that, of 0 16 0 n] by simp
  have tf: "apart USER_TRAP_FRAME 264 a n" if "apart USER_TRAP_FRAME 272 a n" for a n
    using apart_sub [OF that, of 0 264 0 n] by simp
  have "apart (user_app E) 20512 USER_TRAP_FRAME 272" using l(1) by (simp add: kept_regions_def)
  from apart_sub [OF this, of 16 20496 0 264] have sub: "apart USER_TRAP_FRAME 264 (user_app E + p_symtab) 20496"
    by (simp add: p_symtab_def apart_sym)
  have own: "apart (user_app E + p_symtab) 20496 (user_app E) 16" "apart (USER_TRAP_FRAME + tf_epc) 8 USER_TRAP_FRAME 264"
    by (simp_all add: apart_def const_defs)
  show "\<forall>x\<in>set (load_regions E phs). clear_of x (user_app E, 16)"
    using l p stage_clear(6,7) [OF assms] own(1)
    by (auto simp: load_regions_def kept_regions_def scratch_regions_def apart_sym [of _ _ "user_app E" 16] apart_sym [of _ _ "user_app E" 20512])
  show "\<forall>x\<in>set (load_regions E phs). clear_of x (USER_TRAP_FRAME, 264)"
    using l tf sub own(2)
    by (auto simp: load_regions_def kept_regions_def scratch_regions_def apart_sym [of _ _ USER_TRAP_FRAME 264]
        apart_sym [of _ _ USER_TRAP_FRAME 272])
qed

lemma started_fields:
  assumes "loaded E file u t" and "boot_layout E (app_headers file)" and "apart USER_TRAP_FRAME 272 (user_app E) 20512"
    and "only_changes (arg_bug_msg E) 512 (prepared (user_app E) m) (mem u)"
  shows "tf_of (mem t) (user_app E) = USER_TRAP_FRAME" and "read64 (mem t) (user_app E + p_kstack) = USER_KSTACK"
    and "tf_reg (mem t) USER_TRAP_FRAME = (\<lambda>_. 0)(Sp := USER_STACK)"
proof -
  let ?p = "user_app E"
  note r = prepared_reads [OF assms(3), of m]
  have "changes_in (load_regions E (app_headers file)) (prepared ?p m) (mem u)"
    by (rule only_changes_in [OF assms(4)]) (simp add: load_regions_def scratch_regions_def)
  then have ch: "changes_in (load_regions E (app_headers file)) (prepared ?p m) (mem t)"
    using assms(1) by (auto simp: loaded_def elim: changes_in_trans)
  note cl = load_regions_clear [OF assms(2)]
  show "tf_of (mem t) ?p = USER_TRAP_FRAME" "read64 (mem t) (?p + p_kstack) = USER_KSTACK"
    using r(1,2) clear_read64 [OF ch cl(1), of p_trapframe] clear_read64 [OF ch cl(1), of p_kstack] by (simp_all add: tf_of_def)
  show "tf_reg (mem t) USER_TRAP_FRAME = (\<lambda>_. 0)(Sp := USER_STACK)"
    unfolding r(3) [symmetric]
  proof
    fix q
    have "unat (reg_off q) + 8 \<le> 264" by (cases q) simp_all
    then show "tf_reg (mem t) USER_TRAP_FRAME q = tf_reg (prepared ?p m) USER_TRAP_FRAME q"
      unfolding tf_reg_def by (rule clear_read64 [OF ch cl(2)])
  qed
qed

lemma user_state_satp [simp]: "satp (csr (user_state E p s)) = satp (csr s)"
  by (simp add: user_state_def user_sstatus_def sret_def Let_def write_sstatus_def)

lemma load_state_more [simp]:
  "spike_files (load_state E s) = spike_files s" "spike_fds (load_state E s) = spike_fds s"
  "m_regs (csr (load_state E s)) = m_regs (csr s)"
  by (simp_all add: load_state_def m_regs_def)

text \<open>From a loaded file to user mode.\<close>

lemma switch_started:
  assumes "loaded E file u t" and "boot_layout E (app_headers file)" and "user_app E \<noteq> 0"
    and "opened E name fd (load_state E s) u" and "symbols_in E file (mem s) (mem t)"
  shows "\<exists>v. seq (sprint E ''Switch to user mode...\<newline>'' []) (seq (switch_to E (user_app E) :: unit op) (ret (0 :: int32))) t = Resume v
    \<and> app_started E file name s v"
proof -
  let ?p = "user_app E"
  have ap: "apart USER_TRAP_FRAME 272 ?p 20512" by (rule boot_layoutD(5) [OF assms(2)])
  have chu: "only_changes (arg_bug_msg E) 512 (prepared ?p (mem s)) (mem u)"
    using assms(4) by (simp add: opened_def)
  note f = started_fields [OF assms(1,2) ap chu]
  have lay: "layout_ok (mem t) ?p" using f(1) ap assms(3) by (simp add: layout_ok_def)
  have t: "fs_lock t = 0" "csr t = csr (load_state E s)" "read64 (mem t) (USER_TRAP_FRAME + tf_epc) = eh_entry (elf_header_of file)"
    "segments_in file (mem t)" "console t = boot_console name s @ clip (entry_message (eh_entry (elf_header_of file)))"
    using assms(1,4) by (simp_all add: loaded_def opened_def boot_console_def)
  let ?t = "emit ''Switch to user mode...\<newline>'' t" let ?v = "user_state E ?p ?t"
  have run: "seq (sprint E ''Switch to user mode...\<newline>'' []) (seq (switch_to E ?p :: unit op) (ret (0 :: int32))) t = Resume ?v"
    using con.print_literal [OF t(1), of "''Switch to user mode...\<newline>''" E] lay by (simp add: seq_def switch_to_eq)
  have ch: "only_changes USER_TRAP_FRAME 272 (mem t) (mem ?v)"
    using frame_armed_only_changes [of "mem t" ?p E] f(1) by (simp add: user_state_fields)
  have proc: "read_bytes (mem ?v) ?p 20512 = read_bytes (mem t) ?p 20512"
    by (rule only_changes_read_bytes [OF ch ap])
  have kept: "read_bytes (mem ?v) (?p + a) k = read_bytes (mem t) (?p + a) k" if "unat a + k \<le> 20512" for a k
    using frame_change_process [OF lay _ that, of "mem ?v"] ch f(1) by simp
  have "symbols_in E file (mem s) (mem ?v)"
    using assms(5) kept [of p_symtab 20496] tables_loaded_change [OF _ proc] verdict_bounds [of "file"]
    by (auto simp: symbols_in_def split: tables.splits)
  moreover have "segments_in file (mem ?v)"
    unfolding segments_in_def
  proof (intro ballI impI)
    fix ph
    assume ph: "ph \<in> set (app_headers file)" "is_load ph"
    then have "apart USER_TRAP_FRAME 272 (ph_vaddr ph) (unat (ph_memsz ph))"
      using assms(2) by (force simp: boot_layout_def kept_regions_def seg_regions_def)
    then show "read_bytes (mem ?v) (ph_vaddr ph) (unat (ph_memsz ph)) = file_bytes file (unat (ph_off ph)) (unat (ph_memsz ph))"
      using only_changes_read_bytes [OF ch] t(4) ph by (simp add: segments_in_def)
  qed
  moreover have "user_ready E ?p ?v" using lay by (intro user_state_ready) simp
  moreover have "tf_of (mem ?v) ?p = USER_TRAP_FRAME" "read64 (mem ?v) (?p + p_kstack) = USER_KSTACK"
    using kept [of p_trapframe 8] kept [of p_kstack 8] f(1,2) by (simp_all add: tf_of_def read64_def)
  moreover have "console ?v = console ?t" by (simp add: console_def user_state_fields)
  ultimately have "app_started E file name s ?v"
    using t f(3) user_state_interrupts [of E ?p ?t] by (simp add: app_started_def user_state_fields f(1))
  with run show ?thesis by blast
qed

lemma opened_process:
  assumes "opened E name fd (load_state E s) u" and "boot_layout E phs"
  shows "read_bytes (mem u) (user_app E) 20512 = read_bytes (prepared (user_app E) (mem s)) (user_app E) 20512"
proof (rule only_changes_read_bytes)
  show "only_changes (arg_bug_msg E) 512 (prepared (user_app E) (mem s)) (mem u)"
    using assms(1) by (simp add: opened_def)
  show "apart (arg_bug_msg E) 512 (user_app E) 20512"
    using assms(2) by (simp add: boot_layout_def kept_regions_def scratch_regions_def)
qed

lemma outcome_symbols:
  assumes "load_outcome E file u (load_verdict file) r" and "opened E name fd (load_state E s) u"
    and "boot_layout E (app_headers file)" and "load_verdict file = NoTables \<or> load_verdict file = Tables sy str"
  shows "\<exists>t. r = Ret () t \<and> loaded E file u t \<and> symbols_in E file (mem s) (mem t)"
proof (cases "load_verdict file = NoTables")
  case True
  let ?p = "user_app E"
  obtain t where t: "r = Ret () t" "loaded E file u t" "read_bytes (mem t) ?p 20512 = read_bytes (mem u) ?p 20512"
    using assms(1) True by auto
  have "read_bytes (mem t) (?p + p_symtab) 20496 = read_bytes (prepared ?p (mem s)) (?p + p_symtab) 20496"
    by (rule read_bytes_part [OF trans [OF t(3) opened_process [OF assms(2,3)]]]) simp
  with t True prepared_reads(5) [OF boot_layoutD(5) [OF assms(3)]] show ?thesis
    by (auto simp: symbols_in_def)
next
  case False
  then show ?thesis using assms(1,4) by (auto simp: symbols_in_def)
qed

lemma boot_run:
  assumes "fs_lock s = 0" and "std_files s" and "user_app E \<noteq> 0" and "reports_name E argc name" and "2 \<le> argc" and "argc \<le> 63"
    and "answers_open E name fd" and "boot_layout E (app_headers file)"
    and h: "fd < 128 \<and> serves E (ucast fd) file"
  shows "case load_verdict file of
      Rejected msg \<Rightarrow> \<exists>t. s_start E s = Halt (Exit (- 1)) t
        \<and> console t = boot_console name s @ clip (msg @ ''\<newline>'') @ clip (shutdown_message (- 1))
    | ZeroEntry \<Rightarrow> s_start E s = Undef DivByZero
    | _ \<Rightarrow> \<exists>t. s_start E s = Resume t \<and> app_started E file name s t"
proof -
  let ?p = "user_app E" and ?s = "load_state E s"
  let ?rest = "seq (sprint E ''Switch to user mode...\<newline>'' []) (seq (switch_to E ?p :: unit op) (ret (0 :: int32)))"
  note run = s_start_loads [OF assms(1) boot_layoutD(5) [OF assms(8)]]
  have s: "fs_lock ?s = 0" "std_files ?s" using assms(1,2) by (simp_all add: std_files_def)
  obtain u where load: "load_bincode_from_host_elf E ?p ?s = load_opened E ?p (File 3) u" and u: "opened E name fd ?s u"
    using load_bincode_opened [OF s(1) assms(4-6) s(2) assms(7)] h by blast
  have con: "console u = boot_console name s" using u by (simp add: opened_def boot_console_def)
  have n: "unat fd < 128" using h by (simp add: word_less_nat_alt)
  then have "unat (ucast fd :: int32) = unat fd" by (intro unat_ucast_small) simp
  then have k: "sint (ucast fd :: int32) = int (unat fd)" using n sint_small [of "ucast fd :: int32"] by simp
  have fds: "spike_fds u ! unat fd \<noteq> Some 3"
    using std_files_free(3) [OF s(2) n] u by (simp add: opened_def)
  have ut: "tf_of (mem u) ?p = USER_TRAP_FRAME"
    using prepared_reads(1) [OF boot_layoutD(5) [OF assms(8)], of "mem s"]
      read_bytes_part [OF opened_process [OF u assms(8)], of p_trapframe 8] by (simp add: tf_of_def read64_def)
  have "file_open E 3 file u"
    using u h k n fds ut unfolding file_open_def opened_def INIT_FILE_REF_def by blast
  then have out: "load_outcome E file u (load_verdict file) (load_bincode_from_host_elf E ?p ?s)"
    unfolding load using h assms(8) by (intro load_opened_outcome) simp_all
  show ?thesis
    using outcome_symbols [OF out u assms(8)] switch_started [OF _ assms(8,3) u] out con
    by (cases "load_verdict file") (fastforce simp: run seq_def panics_def)+
qed

text \<open>
  C5.  From \<^verbatim>\<open>s_start\<close> to the application, for a host that reports its name, on a command line of 2 to 63 strings, opens it on a descriptor below 128
  and serves its file, whatever is in it but for segments over memory the loader itself uses.  A file that is
  not an ELF file, has a program header that is not in the file, a segment that cannot be loaded or symbol tables that
  do not fit stops the machine with the message of the check that fails; so does a file that the host cannot open.
  A symbol table with an entry size of zero, in a file that passes the checks before, is undefined behaviour: the code
  divides by it.  Any other file is run: the processor is in
  user mode at the entry point, with a clear register file and the user stack, interrupts on and translation off,
  every segment and the symbol tables, as loading leaves them, in memory, the next trap prepared, and the four messages on
  the console.
\<close>

theorem boot_correct:
  assumes "fs_lock s = 0" and "std_files s" and "user_app E \<noteq> 0" and "reports_name E argc name" and "2 \<le> argc" and "argc \<le> 63"
    and "answers_open E name fd" and "boot_layout E (app_headers file)"
  shows "(fd < 128 \<and> serves E (ucast fd) file \<longrightarrow>
      (case load_verdict file of
         Rejected msg \<Rightarrow> \<exists>t. s_start E s = Halt (Exit (- 1)) t
           \<and> console t = boot_console name s @ clip (msg @ ''\<newline>'') @ clip (shutdown_message (- 1))
       | ZeroEntry \<Rightarrow> s_start E s = Undef DivByZero
       | _ \<Rightarrow> \<exists>t. s_start E s = Resume t \<and> app_started E file name s t))
    \<and> (- 4096 \<le> fd \<longrightarrow> (\<exists>t. s_start E s = Halt (Exit (- 1)) t
         \<and> console t = boot_console name s @ ''Fail on openning the input application program.\<newline>\<newline>'' @ clip (shutdown_message (- 1))))"
proof (intro conjI impI)
  let ?s = "load_state E s"
  note run = s_start_loads [OF assms(1) boot_layoutD(5) [OF assms(8)]]
  have s: "fs_lock ?s = 0" "std_files ?s" using assms(1,2) by (simp_all add: std_files_def)
  show "\<exists>t. s_start E s = Halt (Exit (- 1)) t
      \<and> console t = boot_console name s @ ''Fail on openning the input application program.\<newline>\<newline>'' @ clip (shutdown_message (- 1))"
    if "- 4096 \<le> fd"
    using load_bincode_unopened [OF s(1) assms(4-6) s(2) assms(7) that, of "user_app E"]
    by (auto simp: run seq_def panics_def boot_console_def)
qed (rule boot_run [OF assms])

subsection \<open>The system from its start\<close>

text \<open>The string table of the file ends with a terminator, as the ELF format requires, and the symbol table is
  a whole number of entries of the buffer.\<close>

fun tables_sound :: "uint8 list \<Rightarrow> tables \<Rightarrow> bool" where
  "tables_sound file (Tables sy str) \<longleftrightarrow> sh_size sy \<le> 12288
     \<and> (sh_size str \<noteq> 0 \<longrightarrow> file ! (unat (sh_off str) + unat (sh_size str - 1)) = 0)"
| "tables_sound file _ \<longleftrightarrow> False"

lemma verdict_fits:
  assumes "load_verdict file = Tables sy str"
  shows "fits file str"
proof -
  have "tables_of file eh x = Tables sy str \<Longrightarrow> fits file str" for eh x
    by (auto simp: tables_of_def Let_def split: if_splits)
  then have "symbol_tables file eh ks = Tables sy str \<Longrightarrow> fits file str" for eh ks
    by (induction ks) (auto split: if_splits)
  then show ?thesis using assms by (simp add: load_verdict_def split: if_splits)
qed

lemma tables_sound_ok:
  assumes "tables_sound file (load_verdict file)" and "symbols_in E file m m'" and "unat (user_app E) + 20512 < 2 ^ 64"
  shows "tables_ok m' (user_app E)" and "read64 m' (user_app E + p_strtab_sz) \<le> 8192"
proof -
  let ?p = "user_app E"
  obtain sy str where v: "load_verdict file = Tables sy str" using assms(1) by (cases "load_verdict file") simp_all
  note b = verdict_bounds [OF v]
  have l: "tables_loaded file ?p sy str m'" using assms(2) v by (simp add: symbols_in_def)
  then show "read64 m' (?p + p_strtab_sz) \<le> 8192" using b(2) by (simp add: tables_loaded_def)
  have "m' (?p + p_strtab + (sh_size str - 1)) = 0" if nz: "sh_size str \<noteq> 0"
  proof -
    let ?n = "unat (sh_size str)" and ?i = "unat (sh_size str - 1)"
    have i: "?i < ?n" using nz by (simp add: unat_minus_one unat_gt_0)
    have "read_bytes m' (?p + p_strtab) ?n ! ?i = file_bytes file (unat (sh_off str)) ?n ! ?i"
      using tables_loaded_strings [OF l] assms(1) v by simp
    moreover have "unat (sh_off str) + ?n \<le> length file"
      using verdict_fits [OF v] nz by (simp add: fits_def)
    ultimately show ?thesis
      using i assms(1) v nz by (simp add: file_bytes_def)
  qed
  then show "tables_ok m' ?p"
    using l b(1) assms(3) by (auto simp: tables_ok_def symtab_ok_def tables_loaded_def Let_def)
qed

text \<open>What machine mode leaves for the supervisor: its own frame, apart from the process, and the software
  interrupt delegated.\<close>

definition m_mode_ready :: "env \<Rightarrow> kstate \<Rightarrow> bool" where
  "m_mode_ready E s \<longleftrightarrow> mscratch (csr s) = g_itrframe E \<and> bit (mideleg (csr s)) 1
     \<and> apart (g_itrframe E) 248 (user_app E) 20512 \<and> apart (g_itrframe E) 248 USER_TRAP_FRAME 272"

lemma app_started_running:
  assumes "app_started E file name s t" and "m_mode_ready E s"
  shows "running E (user_app E) t"
  using assms m_regs_mscratch [of "csr t" "csr s"] by (auto simp: app_started_def m_mode_ready_def running_def)

text \<open>
  The system as a whole, from \<^verbatim>\<open>s_start\<close> on: an application with sound symbol tables is started, and however
  its computations and the traps of both modes follow each other from there, the process stays
  ready for the next trap, with its tables, and every trap goes back to it or stops the machine.
\<close>

lemma boot_system:
  assumes "fs_lock s = 0" and "std_files s" and "user_app E \<noteq> 0" and "reports_name E argc name" and "2 \<le> argc" and "argc \<le> 63"
    and "answers_open E name fd" and "boot_layout E (app_headers file)" and "fd < 128" and "serves E (ucast fd) file"
    and "tables_sound file (load_verdict file)" and "unat (user_app E) + 20512 < 2 ^ 64"
    and "m_mode_ready E s"
  shows "\<exists>t. s_start E s = Resume t \<and> app_started E file name s t
    \<and> (\<forall>u cause tval. runs E (user_app E) stack0 mhartid t u \<longrightarrow>
        running E (user_app E) u \<and> symbols_in E file (mem s) (mem u)
        \<and> settled (mtrapvec_code E stack0 mhartid (trap_to_m cause tval u) :: (kstate, unit) outcome)
        \<and> (if unprintable cause tval u
            then smode_trap_handler E (handler_entry cause tval u) =
              (case print_text tval u of None \<Rightarrow> Diverge | Some msg \<Rightarrow> Undef VaArgs)
            else settled (smode_trap_handler E (handler_entry cause tval u))))"
proof -
  let ?p = "user_app E"
  obtain sy str where v: "load_verdict file = Tables sy str"
    using assms(11) by (cases "load_verdict file") simp_all
  obtain t where t: "s_start E s = Resume t" "app_started E file name s t"
    using boot_run [OF assms(1-8)] assms(9,10) v by auto
  have r: "running E ?p t" by (rule app_started_running [OF t(2) assms(13)])
  have sym: "symbols_in E file (mem s) (mem t)" using t(2) by (simp add: app_started_def)
  note ok = tables_sound_ok [OF assms(11) sym assms(12)]
  have kept: "running E ?p u" "symbols_in E file (mem s) (mem u)" if "runs E ?p stack0 mhartid t u" for u
  proof -
    show "running E ?p u" using runs_running [OF that r] by simp
    have "read_bytes (mem u) ?p 20512 = read_bytes (mem t) ?p 20512"
      using runs_running [OF that r] agree_read_bytes [of ?p 20512 "mem t" "mem u" 0 20512] by simp
    then show "symbols_in E file (mem s) (mem u)"
      using sym v tables_loaded_change [OF _ _ verdict_bounds [OF v], of "file" ?p "mem t" "mem u"] by (simp add: symbols_in_def)
  qed
  show ?thesis
    using t kept run_settles [OF r ok, of stack0 mhartid] by (intro exI [of _ t]) simp
qed

subsection \<open>Instances\<close>

text \<open>An ELF file: its header, one segment, the headers of a symbol table and a string table, the two tables and
  the code, which the segment puts at the entry point.\<close>

definition image_header :: "uint64 \<Rightarrow> uint8 list" where
  "image_header entry = [0x7F, 0x45, 0x4C, 0x46] @ replicate 12 0 @ le_bytes 2 (2 :: uint16) @ le_bytes 2 (243 :: uint16)
     @ le_bytes 4 (1 :: uint32) @ le_bytes 8 entry @ le_bytes 8 (64 :: uint64) @ le_bytes 8 (120 :: uint64)
     @ le_bytes 4 (0 :: uint32) @ le_bytes 2 (64 :: uint16) @ le_bytes 2 (56 :: uint16) @ le_bytes 2 (1 :: uint16)
     @ le_bytes 2 (64 :: uint16) @ le_bytes 2 (2 :: uint16) @ le_bytes 2 (0 :: uint16)"

definition image_segment :: "uint64 \<Rightarrow> uint64 \<Rightarrow> uint64 \<Rightarrow> uint8 list" where
  "image_segment off entry n = le_bytes 4 (1 :: uint32) @ le_bytes 4 (5 :: uint32) @ le_bytes 8 off
     @ le_bytes 8 entry @ le_bytes 8 entry @ le_bytes 8 n @ le_bytes 8 n @ le_bytes 8 (4096 :: uint64)"

definition image_symtab :: "uint64 \<Rightarrow> uint8 list" where
  "image_symtab n = replicate 4 0 @ le_bytes 4 (2 :: uint32) @ replicate 16 0 @ le_bytes 8 (248 :: uint64) @ le_bytes 8 n
     @ le_bytes 4 (1 :: uint32) @ replicate 12 0 @ le_bytes 8 (24 :: uint64)"

definition image_strtab :: "uint64 \<Rightarrow> uint64 \<Rightarrow> uint8 list" where
  "image_strtab off n = replicate 4 0 @ le_bytes 4 (3 :: uint32) @ replicate 16 0 @ le_bytes 8 off @ le_bytes 8 n
     @ replicate 24 0"

definition elf_image :: "uint64 \<Rightarrow> uint8 list \<Rightarrow> uint8 list \<Rightarrow> uint8 list \<Rightarrow> uint8 list" where
  "elf_image entry syms strs code =
     image_header entry @ image_segment (of_nat (248 + length syms + length strs)) entry (of_nat (length code))
     @ image_symtab (of_nat (length syms)) @ image_strtab (of_nat (248 + length syms)) (of_nat (length strs))
     @ syms @ strs @ code"

lemma image_lengths [simp]:
  "length (image_header entry) = 64" "length (image_segment off entry n) = 56" "length (image_symtab n) = 64"
  "length (image_strtab off n) = 64" "length (elf_image entry syms strs code) = 248 + length syms + length strs + length code"
  by (simp_all add: image_header_def image_segment_def image_symtab_def image_strtab_def elf_image_def)

lemma elf_header_of_eq:
  assumes "64 \<le> length file"
  shows "elf_header_of file =
    \<lparr>eh_magic = le_word (take 4 file), eh_elf = take 12 (drop 4 file), eh_type = le_word (take 2 (drop 16 file)),
     eh_machine = le_word (take 2 (drop 18 file)), eh_version = le_word (take 4 (drop 20 file)),
     eh_entry = le_word (take 8 (drop 24 file)), eh_phoff = le_word (take 8 (drop 32 file)),
     eh_shoff = le_word (take 8 (drop 40 file)), eh_flags = le_word (take 4 (drop 48 file)),
     eh_ehsize = le_word (take 2 (drop 52 file)), eh_phentsize = le_word (take 2 (drop 54 file)),
     eh_phnum = le_word (take 2 (drop 56 file)), eh_shentsize = le_word (take 2 (drop 58 file)),
     eh_shnum = le_word (take 2 (drop 60 file)), eh_shstrndx = le_word (take 2 (drop 62 file))\<rparr>"
proof -
  have sub: "read_bytes (write_bytes (\<lambda>_. 0) 0 (take 64 file)) (of_nat j) k = take k (drop j file)" if "j + k \<le> 64" for j k
    using read_write_bytes_sub [of j k "take 64 file" "\<lambda>_. 0" 0] assms that by (simp add: drop_take min_def)
  show ?thesis
    using sub [of 0 4] sub [of 4 12] sub [of 16 2] sub [of 18 2] sub [of 20 4] sub [of 24 8] sub [of 32 8] sub [of 40 8]
      sub [of 48 4] sub [of 52 2] sub [of 54 2] sub [of 56 2] sub [of 58 2] sub [of 60 2] sub [of 62 2]
    by (simp add: elf_header_of_def read_elf_header_def read16_def read32_def read64_def)
qed

lemma take_bit_uint64 [simp]: "take_bit 64 (w :: uint64) = w"
  by (simp add: take_bit_word_eq_self)

lemma elf_image_header [simp]:
  "take 4 (elf_image entry syms strs code) = [0x7F, 0x45, 0x4C, 0x46]" "eh_entry (elf_header_of (elf_image entry syms strs code)) = entry"
  "eh_phoff (elf_header_of (elf_image entry syms strs code)) = 64" "eh_shoff (elf_header_of (elf_image entry syms strs code)) = 120"
  "eh_phnum (elf_header_of (elf_image entry syms strs code)) = 1" "eh_shentsize (elf_header_of (elf_image entry syms strs code)) = 64"
  "eh_shnum (elf_header_of (elf_image entry syms strs code)) = 2"
  by (simp_all add: elf_header_of_eq) (simp_all add: elf_image_def image_header_def le_word_le_bytes)

lemma elf_image_segments:
  "app_headers (elf_image entry syms strs code) =
     [\<lparr>ph_type = 1, ph_flags = 5, ph_off = of_nat (248 + length syms + length strs), ph_vaddr = entry, ph_paddr = entry,
       ph_filesz = of_nat (length code), ph_memsz = of_nat (length code), ph_align = 4096\<rparr>]"
proof -
  have "file_bytes (elf_image entry syms strs code) 64 56 =
      image_segment (of_nat (248 + length syms + length strs)) entry (of_nat (length code))"
    by (simp add: file_bytes_def elf_image_def)
  then show ?thesis
    by (simp add: app_headers_def prog_headers_def headers_from_def has_header_def header_off_def prog_header_def ph_of_bytes_eq)
      (simp add: image_segment_def le_word_le_bytes)
qed

lemma elf_image_sections:
  fixes entry syms strs code
  defines "f \<equiv> elf_image entry syms strs code"
  shows "section_header f (elf_header_of f) 0 = \<lparr>sh_name = 0, sh_type = 2, sh_flags = 0, sh_addr = 0, sh_off = 248,
     sh_size = of_nat (length syms), sh_link = 1, sh_info = 0, sh_addralign = 0, sh_entsize = 24\<rparr>"
    and "section_header f (elf_header_of f) 1 = \<lparr>sh_name = 0, sh_type = 3, sh_flags = 0, sh_addr = 0, sh_off = of_nat (248 + length syms),
     sh_size = of_nat (length strs), sh_link = 0, sh_info = 0, sh_addralign = 0, sh_entsize = 0\<rparr>"
    and "has_section f (elf_header_of f) 0" and "has_section f (elf_header_of f) 1"
proof -
  have o: "sect_off (elf_header_of f) 0 = 120" "sect_off (elf_header_of f) 1 = 184"
    by (simp_all add: sect_off_def f_def)
  have b: "file_bytes f 120 64 = image_symtab (of_nat (length syms))"
    "file_bytes f 184 64 = image_strtab (of_nat (248 + length syms)) (of_nat (length strs))"
    by (simp_all add: file_bytes_def f_def elf_image_def)
  show "section_header f (elf_header_of f) 0 = \<lparr>sh_name = 0, sh_type = 2, sh_flags = 0, sh_addr = 0, sh_off = 248,
     sh_size = of_nat (length syms), sh_link = 1, sh_info = 0, sh_addralign = 0, sh_entsize = 24\<rparr>"
    "section_header f (elf_header_of f) 1 = \<lparr>sh_name = 0, sh_type = 3, sh_flags = 0, sh_addr = 0, sh_off = of_nat (248 + length syms),
     sh_size = of_nat (length strs), sh_link = 0, sh_info = 0, sh_addralign = 0, sh_entsize = 0\<rparr>"
    unfolding section_header_def o b
    by (simp_all add: sh_of_bytes_eq) (simp_all add: image_symtab_def image_strtab_def le_word_le_bytes le_word_zeros)
  show "has_section f (elf_header_of f) 0" "has_section f (elf_header_of f) 1"
    by (simp_all add: has_section_def o) (simp_all add: f_def)
qed

text \<open>An image of a size that the loader accepts.\<close>

definition image_ok :: "uint64 \<Rightarrow> uint8 list \<Rightarrow> uint8 list \<Rightarrow> uint8 list \<Rightarrow> bool" where
  "image_ok entry syms strs code \<longleftrightarrow> length syms \<le> 12288 \<and> length strs \<le> 8192 \<and> strs \<noteq> [] \<and> last strs = 0
     \<and> length code \<le> 65536 \<and> unat entry + length code < 2 ^ 64"

lemma image_bounds:
  assumes "image_ok entry syms strs code"
  shows "unat (of_nat (length syms) :: uint64) = length syms" "unat (of_nat (length strs) :: uint64) = length strs"
    "unat (of_nat (length code) :: uint64) = length code" "unat (of_nat (248 + length syms) :: uint64) = 248 + length syms"
    "unat (of_nat (248 + length syms + length strs) :: uint64) = 248 + length syms + length strs"
    "(of_nat (length syms) :: uint64) \<le> 12288" "(of_nat (length strs) :: uint64) \<le> 8192"
    "entry \<le> entry + of_nat (length code)"
proof -
  show l: "unat (of_nat (length syms) :: uint64) = length syms" "unat (of_nat (length strs) :: uint64) = length strs"
    "unat (of_nat (length code) :: uint64) = length code" "unat (of_nat (248 + length syms) :: uint64) = 248 + length syms"
    "unat (of_nat (248 + length syms + length strs) :: uint64) = 248 + length syms + length strs"
    using assms by (intro unat_of_nat_small; simp add: image_ok_def)+
  show "(of_nat (length syms) :: uint64) \<le> 12288" "(of_nat (length strs) :: uint64) \<le> 8192"
    using l(1,2) assms by (simp_all add: word_le_nat_alt image_ok_def)
  show "entry \<le> entry + of_nat (length code)"
    using assms by (simp add: word_le_nat_alt unat_add_small image_ok_def)
qed

lemma elf_image_verdict:
  fixes entry syms strs code
  defines "f \<equiv> elf_image entry syms strs code"
  assumes "image_ok entry syms strs code"
  shows "load_verdict f = Tables (section_header f (elf_header_of f) 0) (section_header f (elf_header_of f) 1)"
    and "tables_sound f (load_verdict f)"
proof -
  note b = image_bounds [OF assms(2)]
  note s = elf_image_sections [of entry syms strs code, folded f_def]
  have n: "[0..<unat (eh_shnum (elf_header_of f))] = [0, 1]" by (simp add: f_def upt_rec)
  have load: "all_loadable f"
    using b by (simp add: f_def all_loadable_def app_cut_def headers_cut_def has_header_def header_off_def elf_image_segments loadable_def)
  have "of_nat (length syms) div 24 \<le> (512 :: uint64)"
    using b(1) assms(2) div_le_mono [of "length syms" 12288 24] by (simp add: word_le_nat_alt unat_div image_ok_def)
  then have "tables_of f (elf_header_of f) (section_header f (elf_header_of f) 0) =
      Tables (section_header f (elf_header_of f) 0) (section_header f (elf_header_of f) 1)"
    unfolding tables_of_def s(1) using b s(2,4) by (auto simp: Let_def fits_def f_def not_less)
  moreover have "64 \<le> length f" "take 4 f = [0x7F, 0x45, 0x4C, 0x46]" by (simp_all add: f_def)
  ultimately show v: "load_verdict f = Tables (section_header f (elf_header_of f) 0) (section_header f (elf_header_of f) 1)"
    unfolding load_verdict_def n using load s(1,3) by (simp add: SHT_SYMTAB_def)
  have "unat (of_nat (length strs) - 1 :: uint64) = length strs - 1"
    using b(2) assms(2) by (simp add: image_ok_def unat_minus_one unat_eq_zero flip: unat_eq_zero)
  moreover have "f ! (248 + length syms + (length strs - 1)) = 0"
    using assms(2) by (auto simp: f_def elf_image_def nth_append image_ok_def last_conv_nth)
  ultimately show "tables_sound f (load_verdict f)"
    unfolding v using b s by (simp add: v)
qed

text \<open>A small image.\<close>

definition boot_file :: "uint8 list" where
  "boot_file = elf_image 0x81400000 (replicate 24 0) [0, 0x66, 0x38, 0] [0x13, 0, 0, 0]"

lemma boot_file_ok:
  "image_ok 0x81400000 (replicate 24 0) [0, 0x66, 0x38, 0] [0x13, 0, 0, 0]"
  by (simp add: image_ok_def)

lemmas boot_file_verdict = elf_image_verdict [OF boot_file_ok, folded boot_file_def]

lemma boot_file_header: "eh_entry (elf_header_of boot_file) = 0x81400000"
  by (simp add: boot_file_def)

lemma boot_file_segments:
  "app_headers boot_file = [\<lparr>ph_type = 1, ph_flags = 5, ph_off = 276, ph_vaddr = 0x81400000, ph_paddr = 0x81400000,
     ph_filesz = 4, ph_memsz = 4, ph_align = 4096\<rparr>]"
  by (simp add: boot_file_def elf_image_segments)

lemma boot_file_sections:
  "section_header boot_file (elf_header_of boot_file) 0 = \<lparr>sh_name = 0, sh_type = 2, sh_flags = 0, sh_addr = 0, sh_off = 248,
     sh_size = 24, sh_link = 1, sh_info = 0, sh_addralign = 0, sh_entsize = 24\<rparr>"
  "section_header boot_file (elf_header_of boot_file) 1 = \<lparr>sh_name = 0, sh_type = 3, sh_flags = 0, sh_addr = 0, sh_off = 272,
     sh_size = 4, sh_link = 0, sh_info = 0, sh_addralign = 0, sh_entsize = 0\<rparr>"
  by (simp_all add: boot_file_def elf_image_sections)

text \<open>A host with one file, under the name \<open>app\<close>.\<close>

definition boot_args :: "memory \<Rightarrow> memory" where
  "boot_args m = write64 (write64 (write_bytes m 0x81210020 (bytes_of ''app'' @ [0])) 0x81210000 2) 0x81210010 0x81210020"

definition host_env :: "uint8 list \<Rightarrow> env" where
  "host_env file = (file_env file)\<lparr>fesvr := (\<lambda>req m.
     if hd req = HTIFSYS_getmainvars then (0, boot_args m)
     else if hd req = HTIFSYS_openat then (3, m)
     else fesvr (file_env file) req m)\<rparr>"

abbreviation boot_env :: env where
  "boot_env \<equiv> host_env boot_file"

definition boot_sample :: kstate where
  "boot_sample = sample_state\<lparr>
     spike_files := [\<lparr>kfd = 0, refcnt = 4\<rparr>, \<lparr>kfd = 1, refcnt = 4\<rparr>, \<lparr>kfd = 2, refcnt = 4\<rparr>] @ replicate 125 \<lparr>kfd = - 1, refcnt = 0\<rparr>,
     spike_fds := [Some 0, Some 1, Some 2] @ replicate 125 None,
     csr := sample_csrs\<lparr>mscratch := 0x80010000, mideleg := 2\<rparr>\<rparr>"

lemma host_env_fields [simp]:
  "user_app (host_env file) = 0x80020000" "arg_bug_msg (host_env file) = 0x81210000" "elfloader_ehdr (host_env file) = 0x81211000"
  "ph_addr (host_env file) = 0x81212000" "sect (host_env file) = 0x81213000" "str_hdr (host_env file) = 0x81214000" "g_itrframe (host_env file) = 0x80010000"
  by (simp_all add: host_env_def) (simp_all add: file_env_def sample_env_def)

lemma host_env_serves: "serves (host_env file) fd file"
  using file_env_serves [of "file" fd] by (simp add: serves_def host_env_def const_defs)

lemma host_env_opens: "answers_open (host_env file) ''app'' 3"
  by (simp add: answers_open_def openat_request_def host_env_def const_defs)

lemma host_env_args: "reports_name (host_env file) 2 ''app''"
  unfolding reports_name_def
proof (intro allI exI conjI)
  fix m
  show "fesvr (host_env file) (getmainvars_request (host_env file)) m = (0, boot_args m)"
    by (simp add: getmainvars_request_def host_env_def const_defs)
  show "word_at (boot_args m) (arg_bug_msg (host_env file)) 2 = 0x81210020"
    by (simp add: boot_args_def)
  have far: "apart 0x81210010 8 0x81210000 8" "apart 0x81210000 8 0x81210020 n" "apart 0x81210010 8 0x81210020 n" if "n \<le> 4" for n
    using that by (simp_all add: apart_def)
  from far(1) [of 0] show "read64 (boot_args m) (arg_bug_msg (host_env file)) = of_nat 2"
    by (simp add: boot_args_def read64_write64_apart)
  show "cstr_at (boot_args m) 0x81210020 (bytes_of ''app'')"
    using read_write_bytes_same [of "bytes_of ''app'' @ [0]" m "0x81210020"] far(2,3)
    by (simp add: boot_args_def cstr_at_iff read_bytes_write64_apart bytes_of_def byte_of_def)
  show "apart (arg_bug_msg (host_env file)) (8 * (2 + 1)) 0x81210020 (Suc (length ''app''))"
    by (simp add: apart_def)
  have "only_changes (0x81210000 + of_nat 32) 4 m (write_bytes m 0x81210020 (bytes_of ''app'' @ [0]))"
    using only_changes_write_bytes [of "0x81210020" "bytes_of ''app'' @ [0]" m] by (simp add: bytes_of_def eval_nat_numeral)
  then have 1: "only_changes 0x81210000 512 m (write_bytes m 0x81210020 (bytes_of ''app'' @ [0]))"
    by (rule only_changes_mono) simp
  have 2: "only_changes 0x81210000 512 m' (write64 m' 0x81210000 v)" "only_changes 0x81210000 512 m' (write64 m' 0x81210010 v)" for m' v
    using only_changes_mono [of "0x81210000" 0 8 m' "write64 m' 0x81210000 v" 512]
      only_changes_mono [of "0x81210000" 16 8 m' "write64 m' 0x81210010 v" 512] by (simp_all add: only_changes_write64)
  show "only_changes (arg_bug_msg (host_env file)) 512 m (boot_args m)"
    using only_changes_trans [OF only_changes_trans [OF 1 2(1)] 2(2)] by (simp add: boot_args_def)
qed

lemma boot_env_layout: "boot_layout boot_env (app_headers boot_file)"
  by (simp add: boot_layout_def kept_regions_def scratch_regions_def seg_regions_def boot_file_segments is_load_def
      ELF_PROG_LOAD_def USER_TRAP_FRAME_def apart_def)

lemma boot_sample_fields: "fs_lock boot_sample = 0" "std_files boot_sample" "m_mode_ready boot_env boot_sample"
  by (simp_all add: boot_sample_def std_files_def m_mode_ready_def USER_TRAP_FRAME_def apart_def bit_numeral_rec)

theorem boot_correct_witness:
  "\<exists>t. s_start boot_env boot_sample = Resume t \<and> pc t = 0x81400000 \<and> read_bytes (mem t) 0x81400000 4 = [0x13, 0, 0, 0]
    \<and> read_bytes (mem t) (0x80020000 + p_strtab) 4 = [0, 0x66, 0x38, 0]"
proof -
  obtain t where t: "s_start boot_env boot_sample = Resume t" "app_started boot_env boot_file ''app'' boot_sample t"
    using boot_correct [OF boot_sample_fields(1,2) _ host_env_args _ _ host_env_opens boot_env_layout] host_env_serves boot_file_verdict
    by (auto simp: boot_file_verdict(1))
  have "segments_in boot_file (mem t)" "symbols_in boot_env boot_file (mem boot_sample) (mem t)"
    "pc t = eh_entry (elf_header_of boot_file)" using t(2) by (simp_all add: app_started_def)
  moreover have "file_bytes boot_file 276 4 = [0x13, 0, 0, 0]" "file_bytes boot_file 272 4 = [0, 0x66, 0x38, 0]"
    by (simp_all add: file_bytes_def boot_file_def elf_image_def)
  moreover have "drop 12296 (file_bytes boot_file 248 24) = []" by (simp add: length_file_bytes)
  ultimately show ?thesis
    using t(1) by (intro exI [of _ t]) (simp add: segments_in_def boot_file_segments is_load_def ELF_PROG_LOAD_def symbols_in_def
        boot_file_verdict(1) boot_file_sections tables_loaded_def boot_file_header)
qed

end
