(* ===== verification/DtsMem.thy ===== *)
theory DtsMem
  imports Dts
begin

text \<open>
  The search for memory over a whole device tree: \<^verbatim>\<open>query_mem\<close> (\<^verbatim>\<open>spike_interface/spike_memory.c\<close>) with the
  scanner of \<^verbatim>\<open>dts_parse.c\<close>, against a reference that walks the tree.
\<close>

subsection \<open>The reference\<close>

text \<open>The cell counts of a node after its properties, and what the properties say of memory.\<close>

definition prop_name_at :: "memory \<Rightarrow> uint64 \<Rightarrow> uint64 \<Rightarrow> uint64" where
  "prop_name_at m strings lx = prop_name (prop_at m strings lx [])"

definition cells_step :: "memory \<Rightarrow> uint64 \<Rightarrow> uint64 \<Rightarrow> fdt_scan_node \<Rightarrow> fdt_scan_node" where
  "cells_step m strings lx n = hd (set_cells m (prop_name_at m strings lx) (bswap (read32 m (lx + 12))) [n])"

definition node_cells :: "memory \<Rightarrow> uint64 \<Rightarrow> uint64 list \<Rightarrow> fdt_scan_node \<Rightarrow> fdt_scan_node" where
  "node_cells m strings = fold (cells_step m strings)"

definition memory_step :: "memory \<Rightarrow> uint64 \<Rightarrow> uint64 \<Rightarrow> mem_scan \<Rightarrow> mem_scan" where
  "memory_step m strings lx x =
     (if prop_is m strings ''device_type'' ''memory'' lx then x\<lparr>scan_memory := 1\<rparr>
      else if cstr_at m (prop_name_at m strings lx) (bytes_of ''reg'')
        then x\<lparr>reg_value := lx + 12, reg_len := bswap (read32 m (lx + 4))\<rparr>
      else x)"

definition node_memory :: "memory \<Rightarrow> uint64 \<Rightarrow> uint64 list \<Rightarrow> mem_scan \<Rightarrow> mem_scan" where
  "node_memory m strings = fold (memory_step m strings)"

definition no_memory :: mem_scan where
  "no_memory = \<lparr>scan_memory = 0, reg_value = 0, reg_len = 0\<rparr>"

text \<open>A memory node has a parent, whose cell counts divide its ranges.\<close>

fun range_cells :: "fdt_scan_node \<Rightarrow> nat" where
  "range_cells p = nat (sint (address_cells p)) + nat (sint (size_cells p))"

definition range_count :: "fdt_scan_node \<Rightarrow> mem_scan \<Rightarrow> nat" where
  "range_count p x = nat (sint (reg_len x)) div (4 * range_cells p)"

definition ranges_ok :: "fdt_scan_node option \<Rightarrow> mem_scan \<Rightarrow> bool" where
  "ranges_ok par x \<longleftrightarrow> scan_memory x \<noteq> 0 \<longrightarrow> (case par of None \<Rightarrow> False | Some p \<Rightarrow>
     0 < range_cells p \<and> reg_value x \<noteq> 0 \<and> 0 \<le> sint (reg_len x) \<and> nat (sint (reg_len x)) mod (4 * range_cells p) = 0)"

text \<open>The size of the memory that holds the kernel, after one node and after a list of nodes.\<close>

definition node_size :: "memory \<Rightarrow> uint64 \<Rightarrow> fdt_scan_node option \<Rightarrow> mem_scan \<Rightarrow> uint64 \<Rightarrow> uint64" where
  "node_size m self par x g =
     (if scan_memory x = 0 then g
      else case par of None \<Rightarrow> g | Some p \<Rightarrow>
        pick_size self g (reg_ranges m (nat (sint (address_cells p))) (nat (sint (size_cells p))) (reg_value x) (range_count p x)))"

fun tree_ok :: "memory \<Rightarrow> uint64 \<Rightarrow> fdt_scan_node option \<Rightarrow> dt_node list \<Rightarrow> fdt_scan_node \<Rightarrow> bool" where
  "tree_ok m strings par [] c = True"
| "tree_ok m strings par (DtNode nm ps cs # ns) c =
     (let n = node_cells m strings ps (c\<lparr>node_name := nm\<rparr>)
      in ranges_ok par (node_memory m strings ps no_memory) \<and> tree_ok m strings (Some n) cs new_child \<and> tree_ok m strings par ns n)"

fun tree_size :: "memory \<Rightarrow> uint64 \<Rightarrow> uint64 \<Rightarrow> fdt_scan_node option \<Rightarrow> dt_node list \<Rightarrow> fdt_scan_node \<Rightarrow> uint64 \<Rightarrow> uint64" where
  "tree_size m strings self par [] c g = g"
| "tree_size m strings self par (DtNode nm ps cs # ns) c g =
     (let n = node_cells m strings ps (c\<lparr>node_name := nm\<rparr>);
          g1 = node_size m self par (node_memory m strings ps no_memory) g
      in tree_size m strings self par ns n (tree_size m strings self (Some n) cs new_child g1))"

subsection \<open>The callbacks\<close>

lemma assert_Ret: "assert E x f l c s = Ret y t \<Longrightarrow> x \<and> t = s"
proof (cases x)
  case False
  have "poweroff E u \<noteq> Ret y t" for u
    by (auto simp: poweroff_def split: option.split elim: no_return.elims)
  moreover assume "assert E x f l c s = Ret y t"
  ultimately show ?thesis
    using False by (auto simp: assert_def die_def seq_def split: outcome.splits)
qed (simp add: assert_def ret_def)

lemma mem_done_loop_keeps:
  assumes "mem_done_loop E node v fin s = Some r"
  shows "r = Ret w t \<Longrightarrow> mem t = mem s"
  using mem_done_loop.raw_induct [of "\<lambda>E node v fin s r. \<forall>w t. r = Ret w t \<longrightarrow> mem t = mem s", OF _ assms]
proof (elim meta_impE)
  fix f E node v fin s r
  assume IH: "\<And>E node v fin s r. f E node v fin s = Some r \<Longrightarrow> \<forall>w t. r = Ret w t \<longrightarrow> mem t = mem s"
    and body: "(if 0 < sint (fin - v) then
        (case tl node of
           [] \<Rightarrow> Some (Undef NullDeref)
         | parent # _ \<Rightarrow>
             let (v1, base) = fdt_get_address (mem s) parent v;
                 (v2, size) = fdt_get_size (mem s) parent v1
             in f E node v2 fin
                  (if base \<le> mem_done_addr E \<and> mem_done_addr E \<le> base + size then s\<lparr>g_mem_size := size\<rparr> else s))
      else Some (Ret v s)) = Some r"
  show "\<forall>w t. r = Ret w t \<longrightarrow> mem t = mem s"
  proof (cases "0 < sint (fin - v)")
    case True
    show ?thesis
    proof (cases "tl node")
      case (Cons parent ns)
      obtain v1 base v2 size where a: "fdt_get_address (mem s) parent v = (v1, base)" "fdt_get_size (mem s) parent v1 = (v2, size)"
        by (metis surj_pair)
      define u where "u = (if base \<le> mem_done_addr E \<and> mem_done_addr E \<le> base + size then s\<lparr>g_mem_size := size\<rparr> else s)"
      have "f E node v2 fin u = Some r" using body True Cons a by (simp add: u_def)
      from IH [OF this] have "\<forall>w t. r = Ret w t \<longrightarrow> mem t = mem u" .
      moreover have "mem u = mem s" by (simp add: u_def)
      ultimately show ?thesis by (simp only:)
    qed (use body True in auto)
  qed (use body in auto)
qed blast

lemma quiet_mem_cb: "quiet (mem_cb E)"
proof -
  have "keeps_mem (mem_done E node x)" for node x
    unfolding keeps_mem_def
  proof (intro allI impI)
    fix s y t
    assume "mem_done E node x s = Ret y t"
    then show "mem t = mem s"
      by (auto simp: mem_done_def Let_def seq_def ret_def diverging_def split: outcome.splits if_splits option.splits
          dest!: assert_Ret mem_done_loop_keeps)
  qed
  then show ?thesis
    by (auto simp: quiet_def mem_cb_def call_cb_def mem_open_def keeps_mem_def mem_prop_def ret_def split: if_splits)
qed

lemma mem_prop_eq:
  "mem_prop (prop_at (mem s) strings lx node\<lparr>prop_node := node1\<rparr>) x s = Ret (memory_step (mem s) strings lx x) s"
proof -
  have "0 \<notin> set (bytes_of ''device_type'')" "0 \<notin> set (bytes_of ''memory'')" "0 \<notin> set (bytes_of ''reg'')"
    by (simp_all add: bytes_of_def byte_of_def)
  then show ?thesis
    by (simp add: mem_prop_def memory_step_def prop_is_def prop_name_at_def prop_at_def strcmp_lit_eq_0_iff)
qed

lemma set_cells_Cons: "set_cells m nm v (n # ns) = hd (set_cells m nm v [n]) # ns"
  by (simp add: set_cells_def Let_def)

lemma scan_props_mem:
  "scan_props strings (mem_cb E) ps (n # ns) x s =
    Ret (node_cells (mem s) strings ps n # ns, node_memory (mem s) strings ps x) s"
proof (induction ps arbitrary: n x)
  case (Cons lx ps)
  have "prop_name (prop_at (mem s) strings lx (n # ns)) = prop_name_at (mem s) strings lx"
    by (simp add: prop_name_at_def prop_at_def)
  then have "scan_props strings (mem_cb E) (lx # ps) (n # ns) x s =
      scan_props strings (mem_cb E) ps (cells_step (mem s) strings lx n # ns) (memory_step (mem s) strings lx x) s"
    by (simp add: Let_def mem_cb_def mem_prop_eq cells_step_def) (simp add: set_cells_Cons [of _ _ _ n ns])
  then show ?case
    by (simp add: Cons node_cells_def node_memory_def del: scan_props.simps)
qed (simp add: node_cells_def node_memory_def)

abbreviation parent_of :: "node_chain \<Rightarrow> fdt_scan_node option" where
  "parent_of ns \<equiv> (case ns of [] \<Rightarrow> None | p # _ \<Rightarrow> Some p)"

lemma mem_done_node:
  assumes "ranges_ok (parent_of ns) x"
  shows "mem_done E (n # ns) x s =
    Ret x (s\<lparr>g_mem_size := node_size (mem s) (mem_done_addr E) (parent_of ns) x (g_mem_size s)\<rparr>)"
proof (cases "scan_memory x = 0")
  case True
  then show ?thesis by (simp add: mem_done_def node_size_def ret_def)
next
  case False
  then obtain p ps where ns: "ns = p # ps" and c: "0 < range_cells p" "reg_value x \<noteq> 0" "0 \<le> sint (reg_len x)"
    "nat (sint (reg_len x)) mod (4 * range_cells p) = 0"
    using assms by (cases ns) (simp_all add: ranges_ok_def)
  let ?k = "range_count p x"
  have n: "4 * range_cells p * ?k = nat (sint (reg_len x))"
    using c(4) by (simp only: range_count_def) (simp only: mult_div_mod_eq minus_mod_eq_mult_div [symmetric] diff_zero)
  have len: "reg_len x = of_nat (4 * range_cells p * ?k)"
    unfolding n using c(3) by simp
  have "sint (reg_len x) < 2 ^ 31" using sint_lt [of "reg_len x"] by simp
  then have small: "4 * range_cells p * ?k < 2 ^ 31" unfolding n using c(3) by simp
  show ?thesis
    unfolding ns using mem_done_eq [OF refl refl _ _ False c(2), of p ?k] c(1) small len False
    by (simp add: node_size_def)
qed

subsection \<open>The scan\<close>

lemma mem_done_once:
  assumes "\<not> lst \<and> node \<noteq> [] \<longrightarrow> ranges_ok (parent_of (tl node)) x"
  shows "done_once (mem_cb E) lst node x s = Ret x (if \<not> lst \<and> node \<noteq> []
    then s\<lparr>g_mem_size := node_size (mem s) (mem_done_addr E) (parent_of (tl node)) x (g_mem_size s)\<rparr> else s)"
  using assms mem_done_node [of "tl node" x E "hd node" s]
  by (cases node) (auto simp: done_once_def mem_cb_def call_cb_def ret_def)

lemma scan_nodes_mem:
  fixes s :: kstate and strings :: uint64 and E
  defines "m \<equiv> mem s" and "self \<equiv> mem_done_addr E"
  shows "mem t = mem s \<Longrightarrow> tree_ok m strings (parent_of node) ns child \<Longrightarrow>
    ns \<noteq> [] \<and> \<not> lst \<and> node \<noteq> [] \<longrightarrow> ranges_ok (parent_of (tl node)) x \<Longrightarrow>
    \<exists>c y. scan_nodes strings (mem_cb E) node ns child lst x t =
      Ret (c, lst \<or> ns \<noteq> [], y) (t\<lparr>g_mem_size := tree_size m strings self (parent_of node) ns child
        (if ns \<noteq> [] \<and> \<not> lst \<and> node \<noteq> [] then node_size m self (parent_of (tl node)) x (g_mem_size t) else g_mem_size t)\<rparr>)
      \<and> (ns = [] \<longrightarrow> y = x)"
proof (induction ns arbitrary: node child lst x t rule: dt_nodes_induct)
  case (Cons nm ps cs ns)
  let ?n = "node_cells m strings ps (child\<lparr>node_name := nm\<rparr>)" and ?x = "node_memory m strings ps no_memory"
  let ?chain = "?n # node"
  define g0 where "g0 = (if \<not> lst \<and> node \<noteq> [] then node_size m self (parent_of (tl node)) x (g_mem_size t) else g_mem_size t)"
  define t1 where "t1 = t\<lparr>g_mem_size := g0\<rparr>"
  have ok: "ranges_ok (parent_of node) ?x" "tree_ok m strings (Some ?n) cs new_child" "tree_ok m strings (parent_of node) ns ?n"
    using Cons.prems(2) by (simp_all add: Let_def)
  have m1: "mem t1 = mem s" using Cons.prems(1) by (simp add: t1_def)
  have d: "done_once (mem_cb E) lst node x t = Ret x t1"
    using mem_done_once [of lst node x E t] Cons.prems(1,3) by (auto simp: t1_def g0_def m_def self_def)
  define g1 where "g1 = node_size m self (parent_of node) ?x g0"
  obtain c y where k: "scan_nodes strings (mem_cb E) ?chain cs new_child False ?x t1 =
      Ret (c, cs \<noteq> [], y) (t1\<lparr>g_mem_size := tree_size m strings self (Some ?n) cs new_child (if cs \<noteq> [] then g1 else g0)\<rparr>)"
    and y: "cs = [] \<Longrightarrow> y = ?x"
    using Cons.IH(1) [OF m1, of ?chain new_child False ?x] ok(1,2) by (auto simp: g1_def t1_def)
  define t2 where "t2 = t\<lparr>g_mem_size := tree_size m strings self (Some ?n) cs new_child g1\<rparr>"
  have e: "done_once (mem_cb E) (cs \<noteq> []) ?chain y
      (t1\<lparr>g_mem_size := tree_size m strings self (Some ?n) cs new_child (if cs \<noteq> [] then g1 else g0)\<rparr>) = Ret y t2"
    using mem_done_once [of "cs \<noteq> []" ?chain y E] ok(1) y Cons.prems(1)
    by (cases "cs = []") (simp_all add: t2_def t1_def g1_def m_def self_def)
  have "scan_nodes strings (mem_cb E) node (DtNode nm ps cs # ns) child lst x t =
      scan_nodes strings (mem_cb E) node ns ?n True y t2"
    using d k e scan_props_mem [of strings E ps "child\<lparr>node_name := nm\<rparr>" node no_memory t1] m1
    by (simp add: Let_def m_def) (simp add: mem_cb_def call_cb_def mem_open_def ret_def no_memory_def)
  moreover have "mem t2 = mem s" using Cons.prems(1) by (simp add: t2_def)
  then obtain c' y' where "scan_nodes strings (mem_cb E) node ns ?n True y t2 =
      Ret (c', True, y') (t2\<lparr>g_mem_size := tree_size m strings self (parent_of node) ns ?n (g_mem_size t2)\<rparr>)"
    using Cons.IH(2) [of t2 node ?n True y] ok(3) by auto
  ultimately show ?case
    by (simp add: t2_def g1_def g0_def Let_def)
qed simp

lemma query_mem_eq:
  assumes "holds_tree (mem s) fdt ns" and "tree_ok (mem s) (blob_strings (mem s) fdt) None ns new_child"
    and "sz = tree_size (mem s) (blob_strings (mem s) fdt) (mem_done_addr E) None ns new_child 0"
  shows "(0 < sz \<longrightarrow> query_mem E scan fdt s = Ret () (s\<lparr>g_mem_size := sz\<rparr>))
    \<and> (sz = 0 \<and> fs_lock s = 0 \<and> htif s \<noteq> 0 \<longrightarrow> (\<exists>t. query_mem E scan fdt s = Halt PowerOff t))"
proof -
  let ?s = "s\<lparr>g_mem_size := 0\<rparr>"
  have tree: "holds_tree (mem ?s) fdt ns" using assms(1) by simp
  obtain c y where "scan_nodes (blob_strings (mem s) fdt) (mem_cb E) [] ns new_child False scan ?s =
      Ret (c, ns \<noteq> [], y) (s\<lparr>g_mem_size := sz\<rparr>)"
    using scan_nodes_mem [of ?s ?s "blob_strings (mem s) fdt" "[]" ns new_child False scan E] assms(2,3) by auto
  then have "fdt_scan E fdt (mem_cb E) scan ?s = Ret y (s\<lparr>g_mem_size := sz\<rparr>)"
    using fdt_scan_eq [OF quiet_mem_cb tree, of E E scan] by (simp add: ret_def)
  then have run: "query_mem E scan fdt s = assert E (0 < sz) spike_memory_c 67 ''g_mem_size > 0'' (s\<lparr>g_mem_size := sz\<rparr>)"
    by (simp add: query_mem_def seq_def modify_def)
  show ?thesis
    unfolding run using assert_halts [of "s\<lparr>g_mem_size := sz\<rparr>" E]
    by (auto simp: assert_def [of E True] ret_def)
qed

text \<open>
  C28.  \<^verbatim>\<open>query_mem\<close> over a whole device tree: the scan ends, and the size it finds is that of the last range, of
  the memory nodes in the order of the tree, that holds the kernel; ranges are read with the cell counts
  the scan has for the parent.  When no range holds the kernel the machine stops.
\<close>

theorem query_mem_correct:
  assumes "holds_tree (mem s) fdt ns" and "tree_ok (mem s) (blob_strings (mem s) fdt) None ns new_child"
    and "sz = tree_size (mem s) (blob_strings (mem s) fdt) (mem_done_addr E) None ns new_child 0"
  shows "(0 < sz \<longrightarrow> query_mem E scan fdt s = Ret () (s\<lparr>g_mem_size := sz\<rparr>))
    \<and> (sz = 0 \<and> fs_lock s = 0 \<and> htif s \<noteq> 0 \<longrightarrow> (\<exists>t. query_mem E scan fdt s = Halt PowerOff t))"
  using assms by (rule query_mem_eq)

subsection \<open>An instance\<close>

text \<open>A tree whose root is the host interface, with one memory node of 256 MB at \<^verbatim>\<open>0x80000000\<close>.\<close>

definition mem_blob :: "uint8 list" where
  "mem_blob =
     [0xd0, 0x0d, 0xfe, 0xed, 0, 0, 0, 163, 0, 0, 0, 40, 0, 0, 0, 136, 0, 0, 0, 0, 0, 0, 0, 17, 0, 0, 0, 16, 0, 0, 0, 0,
      0, 0, 0, 27, 0, 0, 0, 96]
     @ [0, 0, 0, 1, 0, 0, 0, 0] @ [0, 0, 0, 3, 0, 0, 0, 10, 0, 0, 0, 0] @ bytes_of ''ucb,htif0'' @ [0, 0, 0]
     @ [0, 0, 0, 1] @ bytes_of ''m'' @ [0, 0, 0] @ [0, 0, 0, 3, 0, 0, 0, 7, 0, 0, 0, 11] @ bytes_of ''memory'' @ [0, 0]
     @ [0, 0, 0, 3, 0, 0, 0, 12, 0, 0, 0, 23] @ [0, 0, 0, 0, 0x80, 0, 0, 0, 0x10, 0, 0, 0]
     @ [0, 0, 0, 2, 0, 0, 0, 2, 0, 0, 0, 9]
     @ bytes_of ''compatible'' @ [0] @ bytes_of ''device_type'' @ [0] @ bytes_of ''reg'' @ [0]"

definition mem_dtb :: memory where
  "mem_dtb = write_bytes (\<lambda>_. 0) 0x1000 mem_blob"

lemma length_mem_blob: "length mem_blob = 163"
  by (simp add: mem_blob_def bytes_of_def)

lemma mem_dtb_bytes: "j + k \<le> 163 \<Longrightarrow> read_bytes mem_dtb (0x1000 + of_nat j) k = take k (drop j mem_blob)"
  unfolding mem_dtb_def using length_mem_blob by (intro read_write_bytes_sub) simp_all

lemma mem_dtb_word: "j + 4 \<le> 163 \<Longrightarrow> bswap (read32 mem_dtb (0x1000 + of_nat j)) = le_word (rev (take 4 (drop j mem_blob)))"
  by (simp add: bswap_read32 mem_dtb_bytes)

lemma mem_dtb_words:
  "bswap (read32 mem_dtb 0x1000) = 0xd00dfeed" "bswap (read32 mem_dtb 0x1008) = 40"
  "bswap (read32 mem_dtb 0x100C) = 136" "bswap (read32 mem_dtb 0x1018) = 16"
  "bswap (read32 mem_dtb 0x1028) = 1" "bswap (read32 mem_dtb 0x1030) = 3"
  "bswap (read32 mem_dtb 0x1034) = 10" "bswap (read32 mem_dtb 0x1038) = 0"
  "bswap (read32 mem_dtb 0x1048) = 1" "bswap (read32 mem_dtb 0x1050) = 3"
  "bswap (read32 mem_dtb 0x1054) = 7" "bswap (read32 mem_dtb 0x1058) = 11"
  "bswap (read32 mem_dtb 0x1064) = 3" "bswap (read32 mem_dtb 0x1068) = 12" "bswap (read32 mem_dtb 0x106C) = 23"
  "bswap (read32 mem_dtb 0x107C) = 2" "bswap (read32 mem_dtb 0x1080) = 2" "bswap (read32 mem_dtb 0x1084) = 9"
  using mem_dtb_word [of 0] mem_dtb_word [of 8] mem_dtb_word [of 12] mem_dtb_word [of 24] mem_dtb_word [of 40]
    mem_dtb_word [of 48] mem_dtb_word [of 52] mem_dtb_word [of 56] mem_dtb_word [of 72] mem_dtb_word [of 80]
    mem_dtb_word [of 84] mem_dtb_word [of 88] mem_dtb_word [of 100] mem_dtb_word [of 104] mem_dtb_word [of 108]
    mem_dtb_word [of 124] mem_dtb_word [of 128] mem_dtb_word [of 132]
  by (simp_all add: mem_blob_def bytes_of_def)

lemma mem_dtb_strings: "blob_strings mem_dtb 0x1000 = 0x1088" "blob_struct mem_dtb 0x1000 = 0x1028"
  by (simp_all add: blob_strings_def blob_struct_def read_fdt_header_def mem_dtb_words)

lemma mem_dtb_text:
  assumes "j + Suc (length t) \<le> 163" and "take (Suc (length t)) (drop j mem_blob) = bytes_of t @ [0]" and "0 \<notin> set (bytes_of t)"
  shows "cstr_at mem_dtb (0x1000 + of_nat j) (bytes_of t)"
  using mem_dtb_bytes [OF assms(1)] assms(2,3) by (simp add: cstr_at_iff bytes_of_def)

lemma mem_dtb_cstr:
  "cstr_at mem_dtb 0x1088 (bytes_of ''compatible'')" "cstr_at mem_dtb 0x1093 (bytes_of ''device_type'')"
  "cstr_at mem_dtb 0x109F (bytes_of ''reg'')" "cstr_at mem_dtb 0x105C (bytes_of ''memory'')"
  "cstr_at mem_dtb 0x103C (bytes_of ''ucb,htif0'')" "cstr_at mem_dtb 0x102C (bytes_of [])" "cstr_at mem_dtb 0x104C (bytes_of ''m'')"
  using mem_dtb_text [of 136 "''compatible''"] mem_dtb_text [of 147 "''device_type''"] mem_dtb_text [of 159 "''reg''"]
    mem_dtb_text [of 92 "''memory''"] mem_dtb_text [of 60 "''ucb,htif0''"] mem_dtb_text [of 44 "[]"] mem_dtb_text [of 76 "''m''"]
  by (simp_all add: mem_blob_def bytes_of_def byte_of_def)

lemma cstr_at_other: "cstr_at m a bs \<Longrightarrow> bs \<noteq> bs' \<Longrightarrow> \<not> cstr_at m a bs'"
  using cstr_at_unique by blast

abbreviation mem_tree :: "dt_node list" where
  "mem_tree \<equiv> [DtNode 0x102C [0x1030] [DtNode 0x104C [0x1050, 0x1064] []]]"

lemma mem_tree_held: "holds_tree mem_dtb 0x1000 mem_tree"
proof -
  have step: "after_prop 0x1030 (prop_at mem_dtb 0x1088 0x1030 []) = 0x1048" "after_prop 0x1050 (prop_at mem_dtb 0x1088 0x1050 []) = 0x1064"
    "after_prop 0x1064 (prop_at mem_dtb 0x1088 0x1064 []) = 0x107C"
    by (simp_all add: after_prop_def prop_at_def mem_dtb_words int_div4_def)
  have root: "flat_props mem_dtb 0x1088 0x1030 [0x1030] 0x1048"
    by (rule flat_props_Cons) (simp_all add: token_def mem_dtb_words FDT_PROP_def step flat_props_Nil)
  have "flat_props mem_dtb 0x1088 0x1064 [0x1064] 0x107C"
    by (rule flat_props_Cons) (simp_all add: token_def mem_dtb_words FDT_PROP_def step flat_props_Nil)
  then have props: "flat_props mem_dtb 0x1088 0x1050 [0x1050, 0x1064] 0x107C"
    by (intro flat_props_Cons) (simp_all add: token_def mem_dtb_words FDT_PROP_def step)
  have len: "strlen mem_dtb 0x102C = Some 0" "strlen mem_dtb 0x104C = Some 1"
    using strlen_cstr [OF mem_dtb_cstr(6)] strlen_cstr [OF mem_dtb_cstr(7)] by (simp_all add: bytes_of_def)
  have "flat_nodes mem_dtb 0x1088 0x1048 [DtNode (0x1048 + 4) [0x1050, 0x1064] []] 0x1080"
    by (rule flat_nodes_Cons [where n = 1 and ?l1.0 = "0x107C" and ?l2.0 = "0x107C"])
      (use props len in \<open>simp_all add: token_def mem_dtb_words const_defs flat_nodes_Nil\<close>)
  then have child: "flat_nodes mem_dtb 0x1088 0x1048 [DtNode 0x104C [0x1050, 0x1064] []] 0x1080" by simp
  have "flat_nodes mem_dtb 0x1088 0x1028 [DtNode (0x1028 + 4) [0x1030] [DtNode 0x104C [0x1050, 0x1064] []]] 0x1084"
    by (rule flat_nodes_Cons [where n = 0 and ?l1.0 = "0x1048" and ?l2.0 = "0x1080"])
      (use root child len in \<open>simp_all add: token_def mem_dtb_words const_defs flat_nodes_Nil\<close>)
  then show ?thesis
    by (auto simp: holds_tree_def fdt_header_ok_def read_fdt_header_def mem_dtb_words mem_dtb_strings token_def const_defs
        intro!: exI [of _ "0x1084"])
qed

lemma mem_tree_names:
  "prop_name_at mem_dtb 0x1088 0x1030 = 0x1088" "prop_name_at mem_dtb 0x1088 0x1050 = 0x1093" "prop_name_at mem_dtb 0x1088 0x1064 = 0x109F"
  by (simp_all add: prop_name_at_def prop_at_def mem_dtb_words)

lemma mem_tree_no_cells: "lx \<in> {0x1088, 0x1093, 0x109F} \<Longrightarrow> \<not> cstr_at mem_dtb lx (bytes_of (CHR ''#'' # t))"
proof -
  have "mem_dtb 0x1088 = byte_of CHR ''c''" "mem_dtb 0x1093 = byte_of CHR ''d''" "mem_dtb 0x109F = byte_of CHR ''r''"
    using mem_dtb_cstr(1-3) by (simp_all add: bytes_of_def)
  moreover assume "lx \<in> {0x1088, 0x1093, 0x109F}"
  ultimately show ?thesis by (auto simp: bytes_of_def byte_of_def)
qed

lemma mem_tree_cells: "lx \<in> {0x1030, 0x1050, 0x1064} \<Longrightarrow> cells_step mem_dtb 0x1088 lx n = n"
proof -
  assume "lx \<in> {0x1030, 0x1050, 0x1064}"
  then have "prop_name_at mem_dtb 0x1088 lx \<in> {0x1088, 0x1093, 0x109F}" by (auto simp: mem_tree_names)
  note no = mem_tree_no_cells [OF this]
  have "0 \<notin> set (bytes_of ''#address-cells'')" "0 \<notin> set (bytes_of ''#size-cells'')"
    by (simp_all add: bytes_of_def byte_of_def)
  then show ?thesis
    using no by (simp add: cells_step_def set_cells_def strcmp_lit_eq_0_iff)
qed

lemma mem_tree_memory:
  "node_memory mem_dtb 0x1088 [0x1030] no_memory = no_memory"
  "node_memory mem_dtb 0x1088 [0x1050, 0x1064] no_memory = \<lparr>scan_memory = 1, reg_value = 0x1070, reg_len = 12\<rparr>"
  using cstr_at_other [OF mem_dtb_cstr(1), of "bytes_of ''device_type''"] cstr_at_other [OF mem_dtb_cstr(1), of "bytes_of ''reg''"]
    cstr_at_other [OF mem_dtb_cstr(3), of "bytes_of ''device_type''"] mem_dtb_cstr(2-4)
  by (simp_all add: node_memory_def memory_step_def prop_is_def mem_tree_names [unfolded prop_name_at_def] mem_tree_names mem_dtb_words no_memory_def)
    (simp_all add: bytes_of_def byte_of_def)

lemma mem_tree_size: "tree_ok mem_dtb 0x1088 None mem_tree new_child" "tree_size mem_dtb 0x1088 0x80000500 None mem_tree new_child 0 = 0x10000000"
proof -
  have c: "node_cells mem_dtb 0x1088 [0x1030] n = n" "node_cells mem_dtb 0x1088 [0x1050, 0x1064] n = n" for n
    by (simp_all add: node_cells_def mem_tree_cells)
  have r: "be_number mem_dtb 0x1070 2 = 0x80000000" "be_number mem_dtb 0x1078 1 = 0x10000000"
    using mem_dtb_bytes [of 112 8] mem_dtb_bytes [of 120 4]
    by (simp_all add: be_number_def) (simp_all add: mem_blob_def bytes_of_def)
  have none: "scan_memory no_memory = 0" by (simp add: no_memory_def)
  show "tree_ok mem_dtb 0x1088 None mem_tree new_child"
    by (simp add: c mem_tree_memory ranges_ok_def none new_child_def)
  show "tree_size mem_dtb 0x1088 0x80000500 None mem_tree new_child 0 = 0x10000000"
    using r by (simp add: c mem_tree_memory node_size_def range_count_def none new_child_def)
qed

theorem query_mem_correct_witness:
  "query_mem sample_env no_memory 0x1000 (sample_state\<lparr>mem := mem_dtb\<rparr>) = Ret () (sample_state\<lparr>mem := mem_dtb, g_mem_size := 0x10000000\<rparr>)"
  using query_mem_correct [of "sample_state\<lparr>mem := mem_dtb\<rparr>" "0x1000" mem_tree _ sample_env no_memory] mem_tree_held mem_tree_size
  by (simp add: mem_dtb_strings sample_env_def)

end
