(* ===== verification/PowerOn.thy ===== *)
theory PowerOn
  imports Boot DtsMem
begin

text \<open>
  From the first instruction of the machine to the running application: \<^verbatim>\<open>_mentry\<close>, \<^verbatim>\<open>m_start\<close> with the device
  tree, \<^verbatim>\<open>mret\<close> into \<^verbatim>\<open>s_start\<close>, and the application it starts.
\<close>

subsection \<open>The device tree\<close>

text \<open>A device tree with the host interface and memory that holds the kernel.\<close>

definition good_tree :: "env \<Rightarrow> memory \<Rightarrow> uint64 \<Rightarrow> uint64 \<Rightarrow> bool" where
  "good_tree E m dtb sz \<longleftrightarrow> (\<exists>ns. holds_tree m dtb ns
     \<and> (\<exists>n\<in>set ns. has_prop m (blob_strings m dtb) ''compatible'' ''ucb,htif0'' n)
     \<and> tree_ok m (blob_strings m dtb) None ns new_child
     \<and> sz = tree_size m (blob_strings m dtb) (mem_done_addr E) None ns new_child 0 \<and> 0 < sz)"

definition memory_message :: "uint64 \<Rightarrow> string" where
  "memory_message sz = ''(Emulated) memory size: '' @ expand_d (drop_bit 20 sz) @ '' MB\<newline>''"

definition htif_message :: string where
  "htif_message = ''HTIF is available!'' @ [CHR 0x0D, CHR 0x0A]"

lemma init_dtb_eq:
  assumes "fs_lock s = 0" and "good_tree E (mem s) dtb sz"
  shows "init_dtb E hs ms dtb s =
    Ret () (emit (memory_message sz) ((emit htif_message (s\<lparr>htif := 1\<rparr>))\<lparr>g_mem_size := sz\<rparr>))"
proof -
  obtain ns where t: "holds_tree (mem s) dtb ns" "\<exists>n\<in>set ns. has_prop (mem s) (blob_strings (mem s) dtb) ''compatible'' ''ucb,htif0'' n"
    "tree_ok (mem s) (blob_strings (mem s) dtb) None ns new_child"
    "sz = tree_size (mem s) (blob_strings (mem s) dtb) (mem_done_addr E) None ns new_child 0" "0 < sz"
    using assms(2) by (auto simp: good_tree_def)
  let ?u = "emit htif_message (s\<lparr>htif := 1\<rparr>)"
  have q: "query_htif hs E dtb s = Ret () (s\<lparr>htif := 1\<rparr>)"
    using query_htif_eq [OF t(1), of hs E] t(2) by auto
  have h: "sprint E (''HTIF is available!'' @ [CHR 0x0D, CHR 0x0A]) [] (s\<lparr>htif := 1\<rparr>) = Ret () ?u"
    unfolding htif_message_def using assms(1) by (intro con.print_literal) simp_all
  have m: "query_mem E ms dtb ?u = Ret () (?u\<lparr>g_mem_size := sz\<rparr>)"
    using query_mem_eq [of ?u dtb ns sz E ms] t by simp
  have e: "expand 256 0 False False ''(Emulated) memory size: %ld MB\<newline>'' [VaWord (drop_bit 20 sz)] = Inr (memory_message sz)"
    by (simp add: memory_message_def)
  show ?thesis
    using con.print_ok [OF _ e, of "?u\<lparr>g_mem_size := sz\<rparr>" E] assms(1)
    by (simp add: init_dtb_def seq_def q h [unfolded append.simps] m)
qed

subsection \<open>Machine mode\<close>

lemma m_final_more [simp]:
  "spike_files (m_final h s) = spike_files s" "spike_fds (m_final h s) = spike_fds s" "fs_lock (m_final h s) = fs_lock s"
  "htif (m_final h s) = htif s" "g_mem_size (m_final h s) = g_mem_size s"
  by (simp_all add: m_final_def timerinit_def Let_def mret_def)

lemma m_armed_more [simp]:
  "spike_files (m_armed E s) = spike_files s" "spike_fds (m_armed E s) = spike_fds s" "g_mem_size (m_armed E s) = g_mem_size s"
  by (simp_all add: m_armed_def)

lemma delegated_more [simp]:
  "spike_files (delegated E s) = spike_files s" "spike_fds (delegated E s) = spike_fds s" "fs_lock (delegated E s) = fs_lock s"
  "htif (delegated E s) = htif s" "g_mem_size (delegated E s) = g_mem_size s" "mem (delegated E s) = mem s"
  "console (delegated E s) = console s" "mtime (delegated E s) = mtime s" "mepc (csr (delegated E s)) = mepc (csr s)"
  "mstatus (csr (delegated E s)) = mstatus (csr s)" "mscratch (csr (delegated E s)) = mscratch (csr s)"
  "mtvec (csr (delegated E s)) = mtvec (csr s)" "mideleg (csr (delegated E s)) = mideleg_legal E deleg_interrupts"
  "medeleg (csr (delegated E s)) = medeleg_legal E deleg_exceptions"
  by (simp_all add: delegated_def)

text \<open>The hart has supervisor mode and implements the delegations.\<close>

definition hart_ok :: "env \<Rightarrow> csrs \<Rightarrow> bool" where
  "hart_ok E c \<longleftrightarrow> supports_extension CHR ''S'' c \<noteq> 0 \<and> mideleg_legal E deleg_interrupts = deleg_interrupts
     \<and> medeleg_legal E deleg_exceptions = deleg_exceptions"

text \<open>The console when machine mode is left.\<close>

definition m_console :: "uint64 \<Rightarrow> string" where
  "m_console sz = ''In m_start, hartid:0\<newline>'' @ htif_message @ clip (memory_message sz)"

definition supervisor_entered :: "env \<Rightarrow> uint64 \<Rightarrow> kstate \<Rightarrow> kstate \<Rightarrow> bool" where
  "supervisor_entered E sz s t \<longleftrightarrow> priv t = S_mode \<and> pc t = s_start_addr E \<and> mem t = mem s \<and> fs_lock t = 0 \<and> std_files t
     \<and> htif t = 1 \<and> g_mem_size t = sz \<and> mtvec (csr t) = mtrapvec E \<and> mscratch (csr t) = g_itrframe E
     \<and> mideleg (csr t) = deleg_interrupts \<and> medeleg (csr t) = deleg_exceptions \<and> mtimecmp t = mtime s + TIMER_INTERVAL
     \<and> console t = console s @ m_console sz"

lemma m_start_eq:
  assumes "fs_lock s = 0" and "spike_files s = replicate 128 \<lparr>kfd = - 1, refcnt = 0\<rparr>" and "spike_fds s = replicate 128 None"
    and "good_tree E (mem s) dtb sz" and "hart_ok E (csr s)"
  shows "\<exists>t. m_start E hs ms stack0 mhartid 0 dtb s = Resume t \<and> supervisor_entered E sz s t"
proof -
  define s1 where "s1 = s\<lparr>
    spike_files := [\<lparr>kfd = 0, refcnt = 4\<rparr>, \<lparr>kfd = 1, refcnt = 4\<rparr>, \<lparr>kfd = 2, refcnt = 4\<rparr>] @ replicate 125 \<lparr>kfd = - 1, refcnt = 0\<rparr>,
    spike_fds := [Some 0, Some 1, Some 2] @ replicate 125 None\<rparr>"
  have init: "spike_file_init E s = Ret () s1"
    using spike_file_init_eq [OF assms(2,3), of E] by (simp add: s1_def)
  have e: "expand 256 0 False False ''In m_start, hartid:%d\<newline>'' [VaWord 0] = Inr ''In m_start, hartid:0\<newline>''"
    using count_digits_small [of 0] by (simp add: expand_d_def char_of_def)
  let ?u = "emit ''In m_start, hartid:0\<newline>'' s1"
  have "fs_lock s1 = 0" using assms(1) by (simp add: s1_def)
  then have p: "sprint E ''In m_start, hartid:%d\<newline>'' [VaWord 0] s1 = Ret () ?u" using e by (rule con.print_ok)
  define v where "v = emit (memory_message sz) ((emit htif_message (?u\<lparr>htif := 1\<rparr>))\<lparr>g_mem_size := sz\<rparr>)"
  have d: "init_dtb E hs ms dtb ?u = Ret () v"
    unfolding v_def using assms(1,4) by (intro init_dtb_eq) (simp_all add: s1_def)
  have v: "csr v = csr s" "mem v = mem s" "fs_lock v = 0" "std_files v" "htif v = 1" "g_mem_size v = sz" "mtime v = mtime s"
    "console v = console s @ m_console sz"
    using assms(1) by (simp_all add: v_def s1_def std_files_def m_console_def htif_message_def) (simp add: emit_def console_def)
  have "delegate_traps E (m_armed E v) = Ret () (delegated E (m_armed E v))"
    using assms(5) v(1) by (intro delegate_traps_ok) (simp_all add: hart_ok_def supports_extension_def)
  moreover have "supports_extension CHR ''S'' (csr (delegated E (m_armed E v))) \<noteq> 0"
    using assms(5) v(1) by (simp add: hart_ok_def delegated_extension) (simp add: supports_extension_def)
  ultimately have "m_start E hs ms stack0 mhartid 0 dtb s = Resume (m_final 0 (delegated E (m_armed E v)))"
    by (simp add: m_start_def seq_def init p d m_setup_eq)
  moreover have "supervisor_entered E sz s (m_final 0 (delegated E (m_armed E v)))"
    using v assms(5) m_armed_priv [of E v] by (simp add: supervisor_entered_def m_final_fields std_files_def hart_ok_def)
  ultimately show ?thesis by blast
qed

subsection \<open>The whole machine\<close>

text \<open>A host with an application, and an application that fits the machine.\<close>

definition host_serves_app :: "env \<Rightarrow> string \<Rightarrow> uint8 list \<Rightarrow> bool" where
  "host_serves_app E name file \<longleftrightarrow> (\<exists>argc fd. reports_name E argc name \<and> 2 \<le> argc \<and> argc \<le> 63
     \<and> answers_open E name fd \<and> fd < 128 \<and> serves E (ucast fd) file)"

definition app_fits :: "env \<Rightarrow> uint8 list \<Rightarrow> bool" where
  "app_fits E file \<longleftrightarrow> tables_sound file (load_verdict file) \<and> boot_layout E (app_headers file)
     \<and> user_app E \<noteq> 0 \<and> unat (user_app E) + 20512 < 2 ^ 64
     \<and> apart (g_itrframe E) 248 (user_app E) 20512 \<and> apart (g_itrframe E) 248 USER_TRAP_FRAME 272"

lemma power_on_runs:
  assumes "g A0 = 0" and "good_tree E m (g A1) sz" and "hart_ok E c" and "host_serves_app E name file" and "app_fits E file"
  shows "\<exists>t u. (mentry_code E hs ms stack0 mhartid (boot_state m c g now cmp) :: (kstate, unit) outcome) = Resume t
    \<and> supervisor_entered E sz (boot_state m c g now cmp) t
    \<and> s_start E t = Resume u \<and> app_started E file name t u
    \<and> console u = m_console sz @ ''Enter supervisor mode...\<newline>'' @ clip (app_message name)
        @ clip (entry_message (eh_entry (elf_header_of file))) @ ''Switch to user mode...\<newline>''
    \<and> (\<forall>v cause tval. runs E (user_app E) stack0 mhartid u v \<longrightarrow>
        running E (user_app E) v \<and> symbols_in E file (mem t) (mem v)
        \<and> settled (mtrapvec_code E stack0 mhartid (trap_to_m cause tval v) :: (kstate, unit) outcome)
        \<and> (if unprintable cause tval v
            then smode_trap_handler E (handler_entry cause tval v) =
              (case print_text tval v of None \<Rightarrow> Diverge | Some msg \<Rightarrow> Undef VaArgs)
            else settled (smode_trap_handler E (handler_entry cause tval v))))"
proof -
  let ?b = "boot_state m c g now cmp"
  let ?g = "((gpr ?b)(Sp := stack0, A3 := 4096, A4 := mhartid + 1))(A3 := 4096 * (mhartid + 1))"
  let ?s = "?b\<lparr>csr := (csr ?b)\<lparr>mscratch := 0\<rparr>, gpr := ?g(Sp := stack0 + 4096 * (mhartid + 1))\<rparr>"
  have entry: "mentry_code E hs ms stack0 mhartid ?b = (m_start E hs ms stack0 mhartid 0 (g A1) ?s :: (kstate, unit) outcome)"
    using assms(1) by (simp add: mentry_code_def boot_state_def)
  have hart: "hart_ok E (csr ?s)"
    using assms(3) by (simp add: hart_ok_def supports_extension_def boot_state_def)
  obtain t where t: "(m_start E hs ms stack0 mhartid 0 (g A1) ?s :: (kstate, unit) outcome) = Resume t" "supervisor_entered E sz ?s t"
    using m_start_eq [where ?'a = unit, of ?s E "g A1" sz hs ms stack0 mhartid] assms(2) hart by (auto simp: boot_state_def)
  have t': "supervisor_entered E sz ?b t"
    using t(2) by (simp add: supervisor_entered_def)
  have con: "console t = m_console sz" "fs_lock t = 0" "std_files t"
    using t' by (simp_all add: supervisor_entered_def boot_state_def console_def)
  have ready: "m_mode_ready E t"
    using t' assms(5) by (simp add: supervisor_entered_def m_mode_ready_def app_fits_def bit_deleg_interrupts)
  obtain argc fd where h: "reports_name E argc name" "2 \<le> argc" "argc \<le> 63" "answers_open E name fd" "fd < 128" "serves E (ucast fd) file"
    using assms(4) by (auto simp: host_serves_app_def)
  have f: "tables_sound file (load_verdict file)" "boot_layout E (app_headers file)" "user_app E \<noteq> 0"
    "unat (user_app E) + 20512 < 2 ^ 64"
    using assms(5) by (simp_all add: app_fits_def)
  obtain u where u: "s_start E t = Resume u" "app_started E file name t u"
    and runs: "\<forall>v cause tval. runs E (user_app E) stack0 mhartid u v \<longrightarrow>
        running E (user_app E) v \<and> symbols_in E file (mem t) (mem v)
        \<and> settled (mtrapvec_code E stack0 mhartid (trap_to_m cause tval v) :: (kstate, unit) outcome)
        \<and> (if unprintable cause tval v
            then smode_trap_handler E (handler_entry cause tval v) =
              (case print_text tval v of None \<Rightarrow> Diverge | Some msg \<Rightarrow> Undef VaArgs)
            else settled (smode_trap_handler E (handler_entry cause tval v)))"
    using boot_system [OF con(2,3) f(3) h(1-4) f(2) h(5,6) f(1,4) ready] by blast
  have "console u = m_console sz @ ''Enter supervisor mode...\<newline>'' @ clip (app_message name)
      @ clip (entry_message (eh_entry (elf_header_of file))) @ ''Switch to user mode...\<newline>''"
    using u(2) con(1) by (simp add: app_started_def boot_console_def)
  with entry t(1) t' u runs show ?thesis by (intro exI [of _ t] exI [of _ u]) simp
qed

text \<open>
  C4.  The machine from power-on, for hart 0 with a good device tree and a host that serves an application: \<^verbatim>\<open>_mentry\<close> and
  \<^verbatim>\<open>m_start\<close> enter \<^verbatim>\<open>s_start\<close> in supervisor mode with the host interface and the memory size found, traps delegated and the timer set;
  \<^verbatim>\<open>s_start\<close> starts the application at its entry point, with the messages of both on the console; and however the computations of the
  process and the traps of both modes follow each other from there, every trap goes back to the process or stops the
  machine, but for a print system call whose text is unterminated (it runs forever) or, as a format string, takes
  an argument (undefined behaviour).
\<close>

theorem power_on_correct:
  assumes "g A0 = 0" and "good_tree E m (g A1) sz" and "hart_ok E c" and "host_serves_app E name file" and "app_fits E file"
  shows "\<exists>t u. (mentry_code E hs ms stack0 mhartid (boot_state m c g now cmp) :: (kstate, unit) outcome) = Resume t
    \<and> supervisor_entered E sz (boot_state m c g now cmp) t
    \<and> s_start E t = Resume u \<and> app_started E file name t u
    \<and> console u = m_console sz @ ''Enter supervisor mode...\<newline>'' @ clip (app_message name)
        @ clip (entry_message (eh_entry (elf_header_of file))) @ ''Switch to user mode...\<newline>''
    \<and> (\<forall>v cause tval. runs E (user_app E) stack0 mhartid u v \<longrightarrow>
        running E (user_app E) v \<and> symbols_in E file (mem t) (mem v)
        \<and> settled (mtrapvec_code E stack0 mhartid (trap_to_m cause tval v) :: (kstate, unit) outcome)
        \<and> (if unprintable cause tval v
            then smode_trap_handler E (handler_entry cause tval v) =
              (case print_text tval v of None \<Rightarrow> Diverge | Some msg \<Rightarrow> Undef VaArgs)
            else settled (smode_trap_handler E (handler_entry cause tval v))))"
  using assms by (rule power_on_runs)

text \<open>The sample hosts on a machine with the sample device tree.\<close>

lemma host_machine:
  "good_tree (host_env file) mem_dtb 0x1000 0x10000000" "hart_ok (host_env file) sample_csrs"
  "host_serves_app (host_env file) ''app'' file"
proof -
  have self: "mem_done_addr (host_env file) = 0x80000500" "mideleg_legal (host_env file) w = w" "medeleg_legal (host_env file) w = w" for w
    by (simp_all add: host_env_def) (simp_all add: file_env_def sample_env_def)
  have "prop_is mem_dtb 0x1088 ''compatible'' ''ucb,htif0'' 0x1030"
    using mem_dtb_cstr(1,5) mem_tree_names(1) by (simp add: prop_is_def prop_name_at_def)
  then show "good_tree (host_env file) mem_dtb 0x1000 0x10000000"
    unfolding good_tree_def using mem_tree_held mem_tree_size
    by (intro exI [of _ mem_tree]) (simp add: mem_dtb_strings self)
  show "hart_ok (host_env file) sample_csrs"
    by (simp add: hart_ok_def self supports_extension_def sample_csrs_def)
  show "host_serves_app (host_env file) ''app'' file"
    unfolding host_serves_app_def using host_env_args host_env_opens host_env_serves
    by (intro exI [of _ 2] exI [of _ 3]) simp
qed

theorem power_on_correct_witness:
  "\<exists>t u. (mentry_code boot_env \<lparr>compat = 0\<rparr> no_memory 0x80011000 0
      (boot_state mem_dtb sample_csrs ((\<lambda>_. 0)(A1 := 0x1000)) 0 0) :: (kstate, unit) outcome) = Resume t
    \<and> s_start boot_env t = Resume u \<and> pc u = 0x81400000 \<and> running boot_env 0x80020000 u
    \<and> settled (smode_trap_handler boot_env (handler_entry CAUSE_BREAKPOINT 0 u))"
proof -
  have fits: "app_fits boot_env boot_file"
    using boot_file_verdict(2) boot_env_layout by (simp add: app_fits_def USER_TRAP_FRAME_def apart_def)
  obtain t u where tu: "(mentry_code boot_env \<lparr>compat = 0\<rparr> no_memory 0x80011000 0
      (boot_state mem_dtb sample_csrs ((\<lambda>_. 0)(A1 := 0x1000)) 0 0) :: (kstate, unit) outcome) = Resume t"
      "s_start boot_env t = Resume u" "app_started boot_env boot_file ''app'' t u"
    and r: "\<forall>v cause tval. runs boot_env (user_app boot_env) 0x80011000 0 u v \<longrightarrow> running boot_env (user_app boot_env) v
        \<and> (\<not> unprintable cause tval v \<longrightarrow> settled (smode_trap_handler boot_env (handler_entry cause tval v)))"
    using power_on_correct [of "(\<lambda>_. 0)(A1 := 0x1000)", OF _ _ host_machine(2,3) fits, of mem_dtb "0x10000000" "\<lparr>compat = 0\<rparr>" no_memory
        "0x80011000" 0 0 0] host_machine(1) by auto
  have "\<not> unprintable CAUSE_BREAKPOINT 0 u" by (simp add: unprintable_def const_defs)
  then show ?thesis
    using tu r [THEN spec, of u] by (intro exI [of _ t] exI [of _ u]) (auto simp: app_started_def boot_file_header)
qed

end
