(* ===== verification/Run.thy ===== *)
theory Run
  imports App PowerOn
begin

text \<open>
  The whole run of the machine: power-on, the boot, and the application \<^verbatim>\<open>user/app_print_backtrace.c\<close> up to its
  exit, put together from Boot, PowerOn and App.  The names that the backtrace shows are those of the
  file's own symbol table, read here from the bytes of the file.
\<close>

subsection \<open>Function names in an ELF file\<close>

definition symbol_of_bytes :: "uint8 list \<Rightarrow> elf_symbol" where
  "symbol_of_bytes bs = \<lparr>st_name = le_word (take 4 bs), st_info = bs ! 4, st_other = bs ! 5,
     st_shndx = le_word (take 2 (drop 6 bs)), st_value = le_word (take 8 (drop 8 bs)), st_size = le_word (take 8 (drop 16 bs))\<rparr>"

definition file_symbols :: "uint8 list \<Rightarrow> elf_section_header \<Rightarrow> elf_symbol list" where
  "file_symbols file sy = map (\<lambda>i. symbol_of_bytes (file_bytes file (unat (sh_off sy) + 24 * i) 24))
     [0..<unat (sh_size sy div 24)]"

definition file_string :: "uint8 list \<Rightarrow> elf_section_header \<Rightarrow> nat \<Rightarrow> string" where
  "file_string file str off = map char_of_byte
     (takeWhile (\<lambda>b. b \<noteq> 0) (drop off (file_bytes file (unat (sh_off str)) (unat (sh_size str)))))"

text \<open>The name a file gives to an address: that of the first function symbol that covers it.\<close>

definition file_label :: "uint8 list \<Rightarrow> uint64 \<Rightarrow> string" where
  "file_label file a = (case load_verdict file of
       Tables sy str \<Rightarrow>
         (case find (covers (sh_size str) a) (file_symbols file sy) of
            Some e \<Rightarrow> file_string file str (unat (st_name e))
          | None \<Rightarrow> ''0x'' @ hex_chars 16 a)
     | _ \<Rightarrow> ''0x'' @ hex_chars 16 a)"

lemma read_symbol_of_bytes: "read_symbol m a = symbol_of_bytes (read_bytes m a 24)"
proof -
  have part: "take k (drop i (read_bytes m a 24)) = read_bytes m (a + of_nat i) k" if "i + k \<le> 24" for i k
    using that by (simp add: drop_read_bytes take_read_bytes)
  show ?thesis
    using part [of 0 4] part [of 6 2] part [of 8 8] part [of 16 8]
    by (simp add: read_symbol_def symbol_of_bytes_def read16_def read32_def read64_def)
qed

lemma loaded_symbols:
  assumes "tables_loaded file p sy str m"
  shows "symbols m p = file_symbols file sy"
proof -
  let ?n = "unat (sh_size sy div 24)"
  have tab: "read_bytes m (p + p_symtab) (24 * ?n) = file_bytes file (unat (sh_off sy)) (24 * ?n)"
    and n: "read64 m (p + p_sym_count) = sh_size sy div 24"
    using assms by (simp_all add: tables_loaded_def)
  have "read_bytes m (p + p_symtab + of_nat (24 * i)) 24 = file_bytes file (unat (sh_off sy) + 24 * i) 24" if "i < ?n" for i
  proof -
    have le: "24 * i + 24 \<le> 24 * ?n" using that by simp
    have "read_bytes m (p + p_symtab + of_nat (24 * i)) 24 = take 24 (drop (24 * i) (read_bytes m (p + p_symtab) (24 * ?n)))"
      using le by (simp add: drop_read_bytes take_read_bytes)
    also have "\<dots> = file_bytes file (unat (sh_off sy) + 24 * i) 24"
      unfolding tab using le by (simp add: file_bytes_def drop_take take_take add.commute)
    finally show ?thesis .
  qed
  then show ?thesis
    by (simp add: symbols_def file_symbols_def n read_symbol_of_bytes)
qed

lemma loaded_string:
  assumes "tables_loaded file p sy str m" and "sh_size sy \<le> 12288" and "cstr_at m (p + p_strtab + off) bs"
    and "unat off + length bs < unat (sh_size str)"
  shows "file_string file str (unat off) = map char_of_byte bs"
proof -
  let ?n = "unat (sh_size str)"
  have "file_bytes file (unat (sh_off str)) ?n = read_bytes m (p + p_strtab) ?n"
    using tables_loaded_strings [OF assms(1,2)] by simp
  then have "drop (unat off) (file_bytes file (unat (sh_off str)) ?n) = read_bytes m (p + p_strtab + off) (?n - unat off)"
    by (simp add: drop_read_bytes)
  also have "?n - unat off = Suc (length bs) + (?n - unat off - Suc (length bs))"
    using assms(4) by linarith
  also have "read_bytes m (p + p_strtab + off) (Suc (length bs) + (?n - unat off - Suc (length bs))) =
      bs @ 0 # read_bytes m (p + p_strtab + off + of_nat (Suc (length bs))) (?n - unat off - Suc (length bs))"
    using assms(3) unfolding cstr_at_iff read_bytes_add by simp
  finally show ?thesis
    using assms(3) unfolding file_string_def cstr_at_iff by (simp add: takeWhile_append)
qed

lemma label_of_file:
  assumes "tables_sound file (load_verdict file)" and "symbols_in E file m m'" and "unat (user_app E) + 20512 < 2 ^ 64"
  shows "label m' (user_app E) a = file_label file a"
proof -
  let ?p = "user_app E"
  obtain sy str where v: "load_verdict file = Tables sy str" using assms(1) by (cases "load_verdict file") simp_all
  have l: "tables_loaded file ?p sy str m'" and sz: "sh_size sy \<le> 12288"
    using assms(1,2) v by (simp_all add: symbols_in_def)
  have len: "read64 m' (?p + p_strtab_sz) = sh_size str" "sh_size str \<le> 8192"
    using l verdict_bounds(2) [OF v] by (simp_all add: tables_loaded_def)
  have look: "lookup_symbol m' ?p a = (case find (covers (sh_size str) a) (file_symbols file sy) of
      None \<Rightarrow> 0 | Some e \<Rightarrow> ?p + p_strtab + ucast (st_name e))"
    by (simp add: lookup_symbol_def len(1) loaded_symbols [OF l])
  show ?thesis
  proof (cases "find (covers (sh_size str) a) (file_symbols file sy)")
    case None
    then show ?thesis by (simp add: label_def file_label_def v look)
  next
    case (Some e)
    let ?o = "ucast (st_name e) :: uint64"
    have lt: "?o < sh_size str" using Some by (auto simp: find_Some_iff covers_def)
    have o: "unat ?o = unat (st_name e)"
      using unsigned_less [where 'a = nat, of "st_name e"] by (intro unat_ucast_small) simp
    have small: "unat ?o < 8192" using lt len(2) by (simp add: word_less_nat_alt word_le_nat_alt)
    then have "unat (?p + of_nat (12312 + unat ?o)) = unat ?p + (12312 + unat ?o)"
      using assms(3) by (intro unat_add_small) simp
    then have "?p + of_nat (12312 + unat ?o) \<noteq> 0" by auto
    then have nz: "?p + p_strtab + ?o \<noteq> 0" by (simp add: add.assoc p_strtab_def)
    then have q: "lookup_symbol m' ?p a = ?p + p_strtab + ?o" by (simp add: look Some)
    obtain bs off where b: "lookup_symbol m' ?p a = ?p + p_strtab + off" "unat off + length bs < unat (sh_size str)"
        "cstr_at m' (lookup_symbol m' ?p a) bs"
      using lookup_symbol_string [OF tables_sound_ok(1) [OF assms]] q nz unfolding len(1) by metis
    then have "off = ?o" using q by simp
    with b loaded_string [OF l sz, of ?o bs] q have "file_string file str (unat ?o) = map char_of_byte bs" by simp
    moreover have "c_string m' (?p + p_strtab + ?o) = Some (map char_of_byte bs)"
      using b(3) c_string_cstr unfolding q by blast
    ultimately show ?thesis
      using nz by (simp add: label_def file_label_def v q Some o)
  qed
qed

subsection \<open>From power-on to the exit of the application\<close>

text \<open>The compiled application: its calls return into the functions the file names, and its frames have room
  on the stack.  \<open>out\<close> is the place of the buffer of \<^verbatim>\<open>printu\<close>, below the frame of \<^verbatim>\<open>main\<close>.\<close>

definition compiled :: "uint8 list \<Rightarrow> frames \<Rightarrow> uint64 \<Rightarrow> bool" where
  "compiled file L out \<longleftrightarrow>
     list_all (\<lambda>f. ret_addr L f \<noteq> 0 \<and> file_label file (ret_addr L f) = f) app_names
     \<and> frame_sizes L \<and> 16 \<le> frame_size L ''main'' \<and> frame_size L ''main'' \<le> 2048
     \<and> stack_low \<le> out \<and> unat out + 256 + unat (frame_size L ''main'') \<le> unat USER_STACK"

text \<open>The first instructions of \<^verbatim>\<open>main\<close>, which no function has called, make its frame.\<close>

lemma main_entered:
  assumes "app_started E file name s u" and "compiled file L out" and "tables_sound file (load_verdict file)"
    and "unat (user_app E) + 20512 < 2 ^ 64" and "apart stack_low 4096 (user_app E) 20512"
  defines "v \<equiv> enter 0 (frame_size L ''main'') u"
  shows "app_ready E L (user_app E) v" and "gpr v Sp = USER_STACK - frame_size L ''main''" and "console v = console u"
proof -
  let ?p = "user_app E" and ?n = "frame_size L ''main''"
  note u = assms(1) [unfolded app_started_def]
  have sym: "symbols_in E file (mem s) (mem u)" using u by simp
  have "app_ready E L ?p u"
    using u assms(2,5) tables_sound_ok [OF assms(3) sym assms(4)] label_of_file [OF assms(3) sym assms(4)]
    by (simp add: app_ready_def compiled_def frame_above_stack_def USER_STACK_def USER_TRAP_FRAME_def)
  moreover have "v = u\<lparr>mem := write64 (write64 (mem u) (USER_STACK - 8) 0) (USER_STACK - 16) (gpr u S0),
      gpr := (gpr u)(Ra := 0, S0 := USER_STACK, Sp := USER_STACK - ?n)\<rparr>"
    using u by (simp add: v_def enter_def)
  moreover have "only_changes (USER_STACK - of_nat 16) 16 (mem u) (write64 (write64 (mem u) (USER_STACK - 8) 0) (USER_STACK - 16) (gpr u S0))"
    using enter_mem(1) [of USER_STACK "mem u"] by simp
  moreover have "unat stack_low + 16 \<le> unat USER_STACK" by (simp add: const_defs)
  ultimately show "app_ready E L ?p v"
    using inside_change(1) [of E L ?p u USER_STACK 16] by simp
  show "gpr v Sp = USER_STACK - ?n" "console v = console u"
    using u by (simp_all add: v_def enter_def Let_def)
qed

text \<open>
  C1.  The whole run.  For hart 0 with a good device tree and a host that serves the application, compiled as the build
  compiles it and with the symbol table of its functions, the machine goes from power-on through \<^verbatim>\<open>m_start\<close> and \<^verbatim>\<open>s_start\<close> to
  the application's \<^verbatim>\<open>main\<close> and ends with exit code 0; the console has shown the messages of both starts, the headline, the eight
  lines of the backtrace with the names from the file, and the messages of the exit, and nothing else.
\<close>

theorem whole_run_correct:
  assumes "g A0 = 0" and "good_tree E m (g A1) sz" and "hart_ok E c" and "host_serves_app E name file" and "app_fits E file"
    and "apart stack_low 4096 (user_app E) 20512" and "compiled file L out"
  shows "\<exists>t u v. (mentry_code E hs ms stack0 mhartid (boot_state m c g now cmp) :: (kstate, unit) outcome) = Resume t
    \<and> s_start E t = Resume u \<and> pc u = eh_entry (elf_header_of file) \<and> priv u = U_mode
    \<and> main E L out (enter 0 (frame_size L ''main'') u) = Halt (Exit 0) v
    \<and> console v = m_console sz @ ''Enter supervisor mode...\<newline>'' @ clip (app_message name)
        @ clip (entry_message (eh_entry (elf_header_of file))) @ ''Switch to user mode...\<newline>''
        @ ''back trace the user app in the following:\<newline>''
        @ ''f8\<newline>f7\<newline>f6\<newline>f5\<newline>f4\<newline>f3\<newline>f2\<newline>f1\<newline>''
        @ ''User exit with code:0.\<newline>'' @ clip (shutdown_message 0)"
proof -
  let ?n = "frame_size L ''main''"
  obtain t u where t: "(mentry_code E hs ms stack0 mhartid (boot_state m c g now cmp) :: (kstate, unit) outcome) = Resume t"
    and u: "s_start E t = Resume u" "app_started E file name t u"
      "console u = m_console sz @ ''Enter supervisor mode...\<newline>'' @ clip (app_message name)
        @ clip (entry_message (eh_entry (elf_header_of file))) @ ''Switch to user mode...\<newline>''"
    using power_on_runs [OF assms(1-5), of hs ms stack0 mhartid now cmp] by blast
  have fit: "tables_sound file (load_verdict file)" "unat (user_app E) + 20512 < 2 ^ 64"
    using assms(5) by (simp_all add: app_fits_def)
  note enter = main_entered [OF u(2) assms(7) fit assms(6)]
  have n: "16 \<le> unat ?n" "unat ?n \<le> 2048" and out: "unat stack_low \<le> unat out" "unat out + 256 + unat ?n \<le> unat USER_STACK"
    and sizes: "frame_sizes L"
    using assms(7) by (simp_all add: compiled_def word_le_nat_alt)
  have sp: "unat (USER_STACK - ?n) = unat USER_STACK - unat ?n"
    using n by (intro unat_minus_const) (simp add: USER_STACK_def)
  have "USER_STACK - ?n < USER_STACK" "unat stack_low + 1024 \<le> unat (USER_STACK - ?n)" "unat out + 256 \<le> unat (USER_STACK - ?n)"
    using n out unfolding word_less_nat_alt sp by (simp_all add: const_defs)
  then obtain v where "main E L out (enter 0 ?n u) = Halt (Exit 0) v"
    "console v = console u @ ''back trace the user app in the following:\<newline>''
        @ ''f8\<newline>f7\<newline>f6\<newline>f5\<newline>f4\<newline>f3\<newline>f2\<newline>f1\<newline>''
        @ ''User exit with code:0.\<newline>'' @ clip (shutdown_message 0)"
    using main_runs [OF enter(1) sizes, of out] out(1) unfolding enter(2,3) by blast
  with t u show ?thesis
    by (intro exI [of _ t] exI [of _ u] exI [of _ v]) (simp add: app_started_def user_ready_def)
qed

subsection \<open>An instance\<close>

text \<open>The application as an ELF file with the symbols of its nine functions.\<close>

definition app_syms :: "uint8 list" where
  "app_syms = concat (map (\<lambda>(name, addr). symbol_bytes name addr) app_table)"

definition app_strs :: "uint8 list" where
  "app_strs = bytes_of (concat (map (\<lambda>f. f @ [CHR 0x00]) app_names))"

definition app_file :: "uint8 list" where
  "app_file = elf_image 0x81000000 app_syms app_strs [0x13, 0, 0, 0]"

lemma app_strs_eq: "app_strs = [109, 97, 105, 110, 0, 102, 49, 0, 102, 50, 0, 102, 51, 0, 102, 52, 0, 102, 53, 0, 102, 54, 0,
    102, 55, 0, 102, 56, 0]"
  unfolding app_strs_def by (rule app_strings)

lemma app_lengths [simp]: "length app_syms = 216" "length app_strs = 29"
  by (simp_all add: app_syms_def app_strs_eq)

lemma app_image_ok: "image_ok 0x81000000 app_syms app_strs [0x13, 0, 0, 0]"
  by (simp add: image_ok_def) (simp add: app_strs_eq)

lemmas app_file_verdict = elf_image_verdict [OF app_image_ok, folded app_file_def]

lemma app_file_sections:
  "sh_off (section_header app_file (elf_header_of app_file) 0) = 248" "sh_size (section_header app_file (elf_header_of app_file) 0) = 216"
  "sh_off (section_header app_file (elf_header_of app_file) 1) = 464" "sh_size (section_header app_file (elf_header_of app_file) 1) = 29"
  by (simp_all add: app_file_def elf_image_sections)

lemma app_file_bytes:
  "i < 9 \<Longrightarrow> file_bytes app_file (248 + 24 * i) 24 = symbol_bytes (fst (app_table ! i)) (snd (app_table ! i))"
  "file_bytes app_file 464 29 = app_strs"
proof -
  have at: "file_bytes app_file (248 + j) n = take n (drop j (app_syms @ app_strs @ [0x13, 0, 0, 0]))" for j n
    by (simp add: file_bytes_def app_file_def elf_image_def)
  from at [of 216 29] show "file_bytes app_file 464 29 = app_strs" by simp
  assume i: "i < 9"
  then have "file_bytes app_file (248 + 24 * i) 24 = take 24 (drop (24 * i) app_syms)"
    unfolding at by simp
  also have "\<dots> = symbol_bytes (fst (app_table ! i)) (snd (app_table ! i))"
    unfolding app_syms_def using i by (subst concat_chunk) (simp_all add: case_prod_unfold)
  finally show "file_bytes app_file (248 + 24 * i) 24 = symbol_bytes (fst (app_table ! i)) (snd (app_table ! i))" .
qed

lemma symbol_of_symbol_bytes:
  "symbol_of_bytes (symbol_bytes name addr) = \<lparr>st_name = name, st_info = 2, st_other = 0, st_shndx = 0, st_value = addr, st_size = 64\<rparr>"
  by (simp add: symbol_of_bytes_def symbol_bytes_def le_word_le_bytes nth_append take_bit_word_eq_self)

lemma app_file_symbols:
  "file_symbols app_file (section_header app_file (elf_header_of app_file) 0) =
    map (\<lambda>(name, addr). \<lparr>st_name = name, st_info = 2, st_other = 0, st_shndx = 0, st_value = addr, st_size = 64\<rparr>) app_table"
  by (rule nth_equalityI)
    (simp_all add: file_symbols_def app_file_sections app_file_bytes symbol_of_symbol_bytes case_prod_unfold)

lemma app_file_label:
  assumes "i < 9"
  shows "file_label app_file (snd (app_table ! i) + 16) = app_names ! i"
proof -
  let ?str = "section_header app_file (elf_header_of app_file) 1"
  have "i \<in> {0, 1, 2, 3, 4, 5, 6, 7, 8}" using assms by auto
  then have "find (covers 29 (snd (app_table ! i) + 16))
      (map (\<lambda>(name, addr). \<lparr>st_name = name, st_info = 2, st_other = 0, st_shndx = 0, st_value = addr, st_size = 64\<rparr>) app_table)
      = Some \<lparr>st_name = fst (app_table ! i), st_info = 2, st_other = 0, st_shndx = 0, st_value = snd (app_table ! i), st_size = 64\<rparr>"
    by (elim insertE emptyE) (simp_all add: app_table_def covers_def ELF64_ST_TYPE_def STT_FUNC_def)
  moreover have "takeWhile (\<lambda>b. b \<noteq> 0) (drop (unat (fst (app_table ! i))) app_strs) = bytes_of (app_names ! i)"
    using \<open>i \<in> _\<close> by (elim insertE emptyE) (simp_all add: app_table_def app_names_def app_strs_eq bytes_of_def byte_of_def)
  then have "file_string app_file ?str (unat (fst (app_table ! i))) = app_names ! i"
    by (simp add: file_string_def app_file_sections app_file_bytes bytes_of_def comp_def)
  ultimately show ?thesis
    by (simp add: file_label_def app_file_verdict(1) app_file_symbols app_file_sections)
qed

lemma app_file_compiled: "compiled app_file app_frames 0x810ffe00"
proof -
  have "ret_addr app_frames f \<noteq> 0 \<and> file_label app_file (ret_addr app_frames f) = f" if "f \<in> set app_names" for f
    using app_frames_ret [OF that] app_file_label by metis
  then show ?thesis
    by (simp add: compiled_def list_all_iff frame_sizes_def)
      (simp add: app_names_def app_frames_def const_defs)
qed

theorem whole_run_correct_witness:
  "\<exists>t u v. (mentry_code (host_env app_file) \<lparr>compat = 0\<rparr> no_memory 0x80011000 0
      (boot_state mem_dtb sample_csrs ((\<lambda>_. 0)(A1 := 0x1000)) 0 0) :: (kstate, unit) outcome) = Resume t
    \<and> s_start (host_env app_file) t = Resume u \<and> pc u = 0x81000000
    \<and> main (host_env app_file) app_frames 0x810ffe00 (enter 0 16 u) = Halt (Exit 0) v"
proof -
  have layout: "boot_layout (host_env app_file) (app_headers app_file)"
    by (simp add: app_file_def elf_image_segments boot_layout_def kept_regions_def scratch_regions_def seg_regions_def is_load_def
        ELF_PROG_LOAD_def USER_TRAP_FRAME_def apart_def)
  have fits: "app_fits (host_env app_file) app_file"
    using app_file_verdict(2) layout by (simp add: app_fits_def USER_TRAP_FRAME_def apart_def)
  have "apart stack_low 4096 (user_app (host_env app_file)) 20512" "frame_size app_frames ''main'' = 16"
    "eh_entry (elf_header_of app_file) = 0x81000000"
    by (simp_all add: stack_low_def apart_def app_frames_def app_file_def)
  then show ?thesis
    using whole_run_correct [of "(\<lambda>_. 0)(A1 := 0x1000)", OF _ _ host_machine(2,3) fits _ app_file_compiled, of mem_dtb "0x10000000"
        "\<lparr>compat = 0\<rparr>" no_memory "0x80011000" 0 0 0] host_machine(1) by auto
qed

end
