(* ===== verification/Htif.thy ===== *)
theory Htif
  imports Atomic
begin

text \<open>
  The host-target interface (second part of \<^verbatim>\<open>spike_interface/spike_htif.c\<close>).  The kernel and the host
  talk through two words of memory, \<^verbatim>\<open>tohost\<close> and \<^verbatim>\<open>fromhost\<close>, which the host reads and writes at any
  time: the C variables are volatile, and a call waits for the host in busy loops.  The model is a
  state machine.  A kernel step does at most one access to one of the two words, at the point the
  call has reached; a host step takes a command out of \<^verbatim>\<open>tohost\<close>, finishes a console word (a key is
  typed some time after it was asked for) or puts a finished word into an empty \<^verbatim>\<open>fromhost\<close>.  What the
  host answers to a command is a parameter.
\<close>

subsection \<open>Words of the protocol (spike\_interface/spike\_htif.h)\<close>

definition TOHOST_CMD :: "uint64 \<Rightarrow> uint64 \<Rightarrow> uint64 \<Rightarrow> uint64" where
  "TOHOST_CMD dev cmd payload = push_bit 56 dev OR push_bit 48 cmd OR payload"

definition FROMHOST_DEV :: "uint64 \<Rightarrow> uint64" where
  "FROMHOST_DEV w = drop_bit 56 w"

definition FROMHOST_CMD :: "uint64 \<Rightarrow> uint64" where
  "FROMHOST_CMD w = drop_bit 56 (push_bit 8 w)"

definition FROMHOST_DATA :: "uint64 \<Rightarrow> uint64" where
  "FROMHOST_DATA w = drop_bit 16 (push_bit 16 w)"

subsection \<open>Control points\<close>

text \<open>What follows \<^verbatim>\<open>__set_tohost\<close>: wait for the answer, or give the lock back and return.\<close>

datatype after_set = ThenWait | ThenReturn int32

text \<open>The points of a call: taking the lock, the two halves of \<^verbatim>\<open>__check_fromhost\<close> (the read and, for
  a word that is not zero, the write and the rest) in each of its three uses, the loop and the
  store of \<^verbatim>\<open>__set_tohost\<close>, the loop of \<^verbatim>\<open>do_tohost_fromhost\<close>, giving the lock back, the end, a failed
  assertion, and the two writes of \<^verbatim>\<open>htif_poweroff\<close>.\<close>

datatype hpc =
    PLock hpc
  | PSet uint64 uint64 uint64 after_set
  | PSetCheck uint64 uint64 uint64 after_set
  | PSetClear uint64 uint64 uint64 after_set uint64
  | PStore uint64 uint64 uint64 after_set
  | PWait uint64 uint64
  | PWaitTake
  | PWaitCheck uint64 uint64
  | PWaitClear uint64 uint64 uint64
  | PGetCheck
  | PGetClear uint64
  | PGetBuf
  | PUnlock int32
  | PDone int32
  | PAssert
  | POffFrom
  | POffTo

record hstate =
  tohost :: uint64
  fromhost :: uint64
  htif_console_buf :: int32
  htif_lock :: int32
  at :: hpc
  pending :: "uint64 list"          \<comment> \<open>words the console has yet to make, for the requests it has taken\<close>
  waiting :: "uint64 list"          \<comment> \<open>words the host has not put into \<^verbatim>\<open>fromhost\<close> yet\<close>
  taken :: "uint64 list"            \<comment> \<open>commands the host has taken\<close>
  answered :: "uint64 list"         \<comment> \<open>every word the host has made for the kernel\<close>

text \<open>The rest of \<^verbatim>\<open>__check_fromhost\<close> for the word it read: the buffer, or a failed assertion.\<close>

definition check_word :: "uint64 \<Rightarrow> int32 \<Rightarrow> int32 option" where
  "check_word fh buf =
     (if FROMHOST_DEV fh \<noteq> 1 then None
      else if FROMHOST_CMD fh = 0 then Some (1 + ucast (ucast (FROMHOST_DATA fh) :: uint8))
      else if FROMHOST_CMD fh = 1 then Some buf
      else None)"

definition check_clear :: "uint64 \<Rightarrow> hpc \<Rightarrow> hstate \<Rightarrow> hstate" where
  "check_clear fh k s =
     (case check_word fh (htif_console_buf s) of
        None \<Rightarrow> s\<lparr>fromhost := 0, at := PAssert\<rparr>
      | Some b \<Rightarrow> s\<lparr>fromhost := 0, htif_console_buf := b, at := k\<rparr>)"

fun kernel_step :: "hstate \<Rightarrow> hstate" where
  "kernel_step s =
     (case at s of
        PLock k \<Rightarrow>
          if htif_lock s \<noteq> 0 then s
          else (case spinlock_trylock (htif_lock s) of (res, l) \<Rightarrow>
            if res \<noteq> 0 then s\<lparr>htif_lock := l\<rparr> else s\<lparr>htif_lock := l, at := k\<rparr>)
      | PSet d c x k \<Rightarrow> if tohost s \<noteq> 0 then s\<lparr>at := PSetCheck d c x k\<rparr> else s\<lparr>at := PStore d c x k\<rparr>
      | PSetCheck d c x k \<Rightarrow>
          if fromhost s = 0 then s\<lparr>at := PSet d c x k\<rparr> else s\<lparr>at := PSetClear d c x k (fromhost s)\<rparr>
      | PSetClear d c x k fh \<Rightarrow> check_clear fh (PSet d c x k) s
      | PStore d c x k \<Rightarrow>
          s\<lparr>tohost := TOHOST_CMD d c x, at := (case k of ThenWait \<Rightarrow> PWait d c | ThenReturn r \<Rightarrow> PUnlock r)\<rparr>
      | PWait d c \<Rightarrow>
          let fh = fromhost s in
          if fh = 0 then s
          else if FROMHOST_DEV fh = d \<and> FROMHOST_CMD fh = c then s\<lparr>at := PWaitTake\<rparr>
          else s\<lparr>at := PWaitCheck d c\<rparr>
      | PWaitTake \<Rightarrow> s\<lparr>fromhost := 0, at := PUnlock 0\<rparr>
      | PWaitCheck d c \<Rightarrow>
          if fromhost s = 0 then s\<lparr>at := PWait d c\<rparr> else s\<lparr>at := PWaitClear d c (fromhost s)\<rparr>
      | PWaitClear d c fh \<Rightarrow> check_clear fh (PWait d c) s
      | PGetCheck \<Rightarrow> if fromhost s = 0 then s\<lparr>at := PGetBuf\<rparr> else s\<lparr>at := PGetClear (fromhost s)\<rparr>
      | PGetClear fh \<Rightarrow> check_clear fh PGetBuf s
      | PGetBuf \<Rightarrow>
          let ch = htif_console_buf s in
          if 0 \<le> sint ch then s\<lparr>htif_console_buf := - 1, at := PSet 1 0 0 (ThenReturn (ch - 1))\<rparr>
          else s\<lparr>at := PUnlock (ch - 1)\<rparr>
      | PUnlock r \<Rightarrow> s\<lparr>htif_lock := spinlock_unlock (htif_lock s), at := PDone r\<rparr>
      | POffFrom \<Rightarrow> s\<lparr>fromhost := 0, at := POffTo\<rparr>
      | POffTo \<Rightarrow> s\<lparr>tohost := 1, at := POffFrom\<rparr>
      | PDone r \<Rightarrow> s
      | PAssert \<Rightarrow> s)"

subsection \<open>Calls\<close>

definition do_tohost_fromhost :: "uint64 \<Rightarrow> uint64 \<Rightarrow> uint64 \<Rightarrow> hpc" where
  "do_tohost_fromhost dev cmd data = PLock (PSet dev cmd data ThenWait)"

definition htif_syscall :: "uint64 \<Rightarrow> hpc" where
  "htif_syscall arg = do_tohost_fromhost 0 0 arg"

definition htif_console_putchar :: "uint8 \<Rightarrow> hpc" where
  "htif_console_putchar ch = PLock (PSet 1 1 (ucast ch) (ThenReturn 0))"

definition htif_console_getchar :: hpc where
  "htif_console_getchar = PLock PGetCheck"

definition htif_poweroff :: hpc where
  "htif_poweroff = POffFrom"

subsection \<open>The host\<close>

type_synonym host = "uint64 list \<Rightarrow> uint64 \<Rightarrow> uint64 list"

text \<open>The words with which the host answers a command, given the commands it has taken before.  A system call is
  answered at once.  What the console answers comes whenever the console has it, after any number of other
  steps and answers, or never: each word is pending until a step of its own makes it.\<close>

definition host_take :: "host \<Rightarrow> hstate \<Rightarrow> hstate" where
  "host_take answer s =
     (let a = answer (taken s) (tohost s);
          s1 = s\<lparr>tohost := 0, taken := taken s @ [tohost s]\<rparr>
      in if FROMHOST_DEV (tohost s) = 1 then s1\<lparr>pending := pending s @ a\<rparr>
         else s1\<lparr>waiting := waiting s @ a, answered := answered s @ a\<rparr>)"

definition host_make :: "nat \<Rightarrow> hstate \<Rightarrow> hstate" where
  "host_make i s = s\<lparr>pending := take i (pending s) @ drop (Suc i) (pending s),
     waiting := waiting s @ [pending s ! i], answered := answered s @ [pending s ! i]\<rparr>"

definition host_put :: "hstate \<Rightarrow> hstate" where
  "host_put s = s\<lparr>fromhost := hd (waiting s), waiting := tl (waiting s)\<rparr>"

inductive htif_step :: "host \<Rightarrow> hstate \<Rightarrow> hstate \<Rightarrow> bool" for answer where
  kernel: "htif_step answer s (kernel_step s)"
| host_takes: "tohost s \<noteq> 0 \<Longrightarrow> htif_step answer s (host_take answer s)"
| host_makes: "i < length (pending s) \<Longrightarrow> htif_step answer s (host_make i s)"
| host_puts: "fromhost s = 0 \<Longrightarrow> waiting s \<noteq> [] \<Longrightarrow> htif_step answer s (host_put s)"

inductive_cases htif_stepE: "htif_step answer s t"

abbreviation htif_reach :: "host \<Rightarrow> hstate \<Rightarrow> hstate \<Rightarrow> bool" where
  "htif_reach answer \<equiv> (htif_step answer)\<^sup>*\<^sup>*"

declare kernel_step.simps [simp del]

subsection \<open>Words\<close>

lemma bit_tohost:
  "bit (TOHOST_CMD d c x) n \<longleftrightarrow> n < 64 \<and> (56 \<le> n \<and> bit d (n - 56) \<or> 48 \<le> n \<and> bit c (n - 48) \<or> bit x n)"
  by (auto simp: TOHOST_CMD_def bit_or_iff bit_push_bit_iff dest: bit_imp_le_length)

lemma small_word_bit: "unat (w :: uint64) < 2 ^ k \<Longrightarrow> bit w n \<Longrightarrow> n < k"
proof -
  assume "unat w < 2 ^ k"
  then have "take_bit k w = w"
    by (simp add: word_unat_eq_iff unsigned_take_bit_eq take_bit_nat_eq_self)
  moreover assume "bit w n"
  ultimately show "n < k" by (metis bit_take_bit_iff)
qed

lemma tohost_fields:
  assumes "unat d < 2 ^ 8" and "unat c < 2 ^ 8" and "unat x < 2 ^ 48"
  shows "FROMHOST_DEV (TOHOST_CMD d c x) = d" and "FROMHOST_CMD (TOHOST_CMD d c x) = c"
    and "FROMHOST_DATA (TOHOST_CMD d c x) = x"
proof -
  note b = small_word_bit [OF assms(1)] small_word_bit [OF assms(2)] small_word_bit [OF assms(3)]
  note f = FROMHOST_DEV_def FROMHOST_CMD_def FROMHOST_DATA_def bit_drop_bit_eq comp_apply bit_push_bit_iff bit_tohost
  show "FROMHOST_DEV (TOHOST_CMD d c x) = d"
  proof (rule bit_word_eqI)
    show "bit (FROMHOST_DEV (TOHOST_CMD d c x)) n \<longleftrightarrow> bit d n" for n
      unfolding f using b(1) [of n] b(2) [of "8 + n"] b(3) [of "56 + n"] by auto
  qed
  show "FROMHOST_CMD (TOHOST_CMD d c x) = c"
  proof (rule bit_word_eqI)
    show "bit (FROMHOST_CMD (TOHOST_CMD d c x)) n \<longleftrightarrow> bit c n" for n
      unfolding f using b(2) [of n] b(3) [of "48 + n"] by auto
  qed
  show "FROMHOST_DATA (TOHOST_CMD d c x) = x"
  proof (rule bit_word_eqI)
    show "bit (FROMHOST_DATA (TOHOST_CMD d c x)) n \<longleftrightarrow> bit x n" for n
      unfolding f using b(3) [of n] by auto
  qed
qed

subsection \<open>What the host does\<close>

definition console_word :: "uint64 \<Rightarrow> bool" where
  "console_word w \<longleftrightarrow> FROMHOST_DEV w = 1 \<and> (FROMHOST_CMD w = 0 \<or> FROMHOST_CMD w = 1)"

definition is_answer :: "uint64 \<Rightarrow> bool" where
  "is_answer w \<longleftrightarrow> w \<noteq> 0 \<and> FROMHOST_DEV w = 0 \<and> FROMHOST_CMD w = 0"

text \<open>Device 1, command 0: from the kernel the request for a character, from the host the character.\<close>

definition is_char :: "uint64 \<Rightarrow> bool" where
  "is_char w \<longleftrightarrow> FROMHOST_DEV w = 1 \<and> FROMHOST_CMD w = 0"

text \<open>The documented behaviour of the front-end server: a system call is answered by one word of the
  same device and command, the console only ever sends console words, and it sends a character only
  when it was asked for one, one for each request at most.\<close>

definition host_answers :: "host \<Rightarrow> bool" where
  "host_answers answer \<longleftrightarrow>
     (\<forall>h w. FROMHOST_DEV w = 0 \<and> FROMHOST_CMD w = 0 \<longrightarrow> (\<exists>r. answer h w = [r] \<and> is_answer r))
     \<and> (\<forall>h w. FROMHOST_DEV w = 1 \<longrightarrow> (\<forall>r\<in>set (answer h w). console_word r)
          \<and> length (filter is_char (answer h w)) \<le> of_bool (is_char w))"

text \<open>The words on their way to the kernel; between calls only console traffic is under way.\<close>

definition queue :: "hstate \<Rightarrow> uint64 list" where
  "queue s = (if fromhost s = 0 then [] else [fromhost s]) @ waiting s"

definition pending_ok :: "hstate \<Rightarrow> bool" where
  "pending_ok s \<longleftrightarrow> (\<forall>r\<in>set (pending s). console_word r)"

definition calm :: "hstate \<Rightarrow> bool" where
  "calm s \<longleftrightarrow> (tohost s = 0 \<or> FROMHOST_DEV (tohost s) = 1) \<and> (\<forall>r\<in>set (queue s). console_word r) \<and> pending_ok s"

text \<open>The commands given to the host so far, whether it has taken the last one or not.\<close>

definition sent :: "hstate \<Rightarrow> uint64 list" where
  "sent s = taken s @ (if tohost s = 0 then [] else [tohost s])"

lemma console_word_nonzero [simp]: "\<not> console_word 0"
  by (simp add: console_word_def FROMHOST_DEV_def)

lemma is_answer_zero [simp]: "\<not> is_answer 0"
  by (simp add: is_answer_def)

lemma console_not_answer: "console_word w \<Longrightarrow> \<not> is_answer w"
  by (simp add: console_word_def is_answer_def)

lemma check_word_console: "console_word w \<Longrightarrow> \<exists>b. check_word w buf = Some b"
  by (auto simp: console_word_def check_word_def)

lemma host_answers_syscall:
  assumes "host_answers answer" and "FROMHOST_DEV w = 0" and "FROMHOST_CMD w = 0"
  obtains r where "answer h w = [r]" and "is_answer r"
  using assms unfolding host_answers_def by blast

lemma host_answers_console:
  assumes "host_answers answer" and "FROMHOST_DEV w = 1"
  shows "\<forall>r\<in>set (answer h w). console_word r"
    and "length (filter is_char (answer h w)) \<le> of_bool (is_char w)"
  using assms unfolding host_answers_def by blast+

lemma host_put_fields [simp]:
  "tohost (host_put s) = tohost s" "htif_lock (host_put s) = htif_lock s" "at (host_put s) = at s"
  "taken (host_put s) = taken s" "htif_console_buf (host_put s) = htif_console_buf s"
  "answered (host_put s) = answered s" "sent (host_put s) = sent s" "pending (host_put s) = pending s"
  "pending_ok (host_put s) = pending_ok s"
  by (simp_all add: host_put_def sent_def pending_ok_def)

lemma host_make_fields [simp]:
  "tohost (host_make i s) = tohost s" "fromhost (host_make i s) = fromhost s" "htif_lock (host_make i s) = htif_lock s"
  "at (host_make i s) = at s" "taken (host_make i s) = taken s" "htif_console_buf (host_make i s) = htif_console_buf s"
  "sent (host_make i s) = sent s" "queue (host_make i s) = queue s @ [pending s ! i]"
  "answered (host_make i s) = answered s @ [pending s ! i]" "pending (host_make i s) = take i (pending s) @ drop (Suc i) (pending s)"
  by (simp_all add: host_make_def sent_def queue_def)

lemma host_take_fields [simp]:
  "fromhost (host_take answer s) = fromhost s" "htif_lock (host_take answer s) = htif_lock s"
  "at (host_take answer s) = at s" "taken (host_take answer s) = taken s @ [tohost s]"
  "tohost (host_take answer s) = 0" "htif_console_buf (host_take answer s) = htif_console_buf s"
  by (simp_all add: host_take_def Let_def)

lemma host_take_console:
  assumes "FROMHOST_DEV (tohost s) = 1"
  shows "queue (host_take answer s) = queue s" and "answered (host_take answer s) = answered s"
    and "pending (host_take answer s) = pending s @ answer (taken s) (tohost s)"
  using assms by (simp_all add: host_take_def queue_def Let_def)

lemma host_take_other:
  assumes "FROMHOST_DEV (tohost s) \<noteq> 1"
  shows "queue (host_take answer s) = queue s @ answer (taken s) (tohost s)"
    and "answered (host_take answer s) = answered s @ answer (taken s) (tohost s)"
    and "pending (host_take answer s) = pending s"
  using assms by (simp_all add: host_take_def queue_def Let_def)

lemma host_take_sent: "tohost s \<noteq> 0 \<Longrightarrow> sent (host_take answer s) = sent s"
  by (simp add: sent_def)

lemma host_put_queue:
  assumes "fromhost s = 0" and "waiting s \<noteq> []" and "\<forall>r\<in>set (queue s). r \<noteq> 0"
  shows "queue (host_put s) = queue s"
proof -
  obtain r rs where rs: "waiting s = r # rs" using assms(2) by (cases "waiting s") auto
  then have "r \<noteq> 0" using assms(3) by (simp add: queue_def)
  with rs assms(1) show ?thesis
    unfolding queue_def host_put_def by (simp only: list.sel if_True append.simps) simp
qed

text \<open>Updates that touch neither word nor queue.\<close>

lemma at_update [simp]:
  "queue (s\<lparr>at := k\<rparr>) = queue s" "queue (s\<lparr>htif_lock := l\<rparr>) = queue s" "queue (s\<lparr>htif_console_buf := b\<rparr>) = queue s"
  "sent (s\<lparr>at := k\<rparr>) = sent s" "sent (s\<lparr>htif_lock := l\<rparr>) = sent s" "sent (s\<lparr>htif_console_buf := b\<rparr>) = sent s"
  "calm (s\<lparr>at := k\<rparr>) = calm s" "calm (s\<lparr>htif_lock := l\<rparr>) = calm s" "calm (s\<lparr>htif_console_buf := b\<rparr>) = calm s"
  "sent (s\<lparr>fromhost := f\<rparr>) = sent s" "queue (s\<lparr>tohost := w\<rparr>) = queue s"
  "queue (s\<lparr>fromhost := 0\<rparr>) = waiting s"
  "pending_ok (s\<lparr>at := k\<rparr>) = pending_ok s" "pending_ok (s\<lparr>htif_console_buf := b\<rparr>) = pending_ok s"
  "pending_ok (s\<lparr>fromhost := f\<rparr>) = pending_ok s" "pending_ok (s\<lparr>tohost := f\<rparr>) = pending_ok s"
  by (simp_all add: queue_def sent_def calm_def pending_ok_def)

lemma queue_front: "fromhost s \<noteq> 0 \<Longrightarrow> queue s = fromhost s # waiting s"
  by (simp add: queue_def)

lemma calm_waiting: "calm s \<Longrightarrow> r \<in> set (waiting s) \<Longrightarrow> console_word r"
  by (simp add: calm_def queue_def)

lemma calm_front: "calm s \<Longrightarrow> fromhost s \<noteq> 0 \<Longrightarrow> console_word (fromhost s)"
  by (simp add: calm_def queue_front)

lemma calm_clear [simp]: "calm s \<Longrightarrow> calm (s\<lparr>fromhost := 0\<rparr>)"
  using calm_waiting [of s] by (simp add: calm_def)

lemma host_take_calm:
  assumes "host_answers answer" and "calm s" and "tohost s \<noteq> 0"
  shows "calm (host_take answer s)"
proof -
  have d: "FROMHOST_DEV (tohost s) = 1" using assms(2,3) by (simp add: calm_def)
  show ?thesis
    using assms(2) host_answers_console(1) [OF assms(1) d] by (auto simp: calm_def pending_ok_def host_take_console [OF d])
qed

lemma pending_ok_make:
  assumes "pending_ok s" and "i < length (pending s)"
  shows "console_word (pending s ! i)" and "pending_ok (host_make i s)"
  using assms by (auto simp: pending_ok_def dest: in_set_takeD in_set_dropD)

lemma host_make_calm: "calm s \<Longrightarrow> i < length (pending s) \<Longrightarrow> calm (host_make i s)"
  using pending_ok_make [of s i] by (auto simp: calm_def)

lemma queue_words_nonzero: "\<forall>r\<in>set (queue s). console_word r \<or> is_answer r \<Longrightarrow> \<forall>r\<in>set (queue s). r \<noteq> 0"
  using console_word_nonzero is_answer_zero by blast

lemma calm_nonzero: "calm s \<Longrightarrow> \<forall>r\<in>set (queue s). r \<noteq> 0"
  by (rule queue_words_nonzero) (simp add: calm_def)

lemma host_put_calm: "calm s \<Longrightarrow> fromhost s = 0 \<Longrightarrow> waiting s \<noteq> [] \<Longrightarrow> calm (host_put s)"
  using host_put_queue [of s] calm_nonzero [of s] unfolding calm_def by simp

subsection \<open>An answer on its way\<close>

text \<open>The command \<open>w\<close> of a system call is in \<^verbatim>\<open>tohost\<close>, or the host has taken it and its one answer is
  on the way.\<close>

definition outstanding :: "uint64 \<Rightarrow> hstate \<Rightarrow> bool" where
  "outstanding w s \<longleftrightarrow> pending_ok s \<and> (\<forall>r\<in>set (queue s). console_word r \<or> is_answer r)
     \<and> (if tohost s = 0 then length (filter is_answer (queue s)) = 1
        else tohost s = w \<and> (\<forall>r\<in>set (queue s). console_word r))"

lemma outstanding_at [simp]:
  "outstanding w (s\<lparr>at := k\<rparr>) = outstanding w s"
  "outstanding w (s\<lparr>htif_console_buf := b\<rparr>) = outstanding w s"
  by (simp_all add: outstanding_def)

lemma outstanding_nonzero: "outstanding w s \<Longrightarrow> \<forall>r\<in>set (queue s). r \<noteq> 0"
  by (rule queue_words_nonzero) (simp add: outstanding_def)

lemma host_put_outstanding:
  assumes "outstanding w s" and "fromhost s = 0" and "waiting s \<noteq> []"
  shows "outstanding w (host_put s)"
  using assms(1) by (simp add: outstanding_def host_put_queue [OF assms(2,3) outstanding_nonzero [OF assms(1)]])

lemma host_take_outstanding:
  assumes "host_answers answer" and "FROMHOST_DEV w = 0" and "FROMHOST_CMD w = 0"
    and "outstanding w s" and "tohost s \<noteq> 0"
  shows "outstanding w (host_take answer s)"
proof -
  have w: "tohost s = w" "\<forall>r\<in>set (queue s). console_word r"
    using assms(4,5) by (simp_all add: outstanding_def)
  obtain r where "answer (taken s) w = [r]" "is_answer r"
    using host_answers_syscall [OF assms(1-3)] .
  moreover have "filter is_answer (queue s) = []"
    using w(2) console_not_answer by (simp add: filter_empty_conv)
  moreover have "pending_ok s" using assms(4) by (simp add: outstanding_def)
  ultimately show ?thesis
    using w assms(2) by (simp add: outstanding_def host_take_other pending_ok_def)
qed

lemma host_make_outstanding: "outstanding w s \<Longrightarrow> i < length (pending s) \<Longrightarrow> outstanding w (host_make i s)"
  using pending_ok_make [of s i] console_not_answer [of "pending s ! i"] by (auto simp: outstanding_def)

lemma outstanding_clear:
  assumes "outstanding w s" and "console_word (fromhost s)"
  shows "outstanding w (s\<lparr>fromhost := 0\<rparr>)"
proof -
  have "fromhost s \<noteq> 0" using assms(2) by (metis console_word_nonzero)
  then show ?thesis
    using assms console_not_answer [OF assms(2)] by (auto simp: outstanding_def queue_front)
qed

lemma outstanding_store: "calm s \<Longrightarrow> w \<noteq> 0 \<Longrightarrow> outstanding w (s\<lparr>tohost := w\<rparr>)"
  by (simp add: calm_def outstanding_def)

lemma outstanding_front:
  "outstanding w s \<Longrightarrow> fromhost s \<noteq> 0 \<Longrightarrow> console_word (fromhost s) \<or> is_answer (fromhost s)"
  by (simp add: outstanding_def queue_front)

text \<open>Once the answer is taken only console traffic is left.\<close>

lemma outstanding_taken:
  assumes "outstanding w s" and "is_answer (fromhost s)"
  shows "tohost s = 0" and "calm (s\<lparr>fromhost := 0\<rparr>)"
proof -
  have nz: "fromhost s \<noteq> 0" using assms(2) by (metis is_answer_zero)
  then show 0: "tohost s = 0"
    using assms console_not_answer by (auto simp: outstanding_def queue_front split: if_splits)
  then have "filter is_answer (waiting s) = []"
    using assms nz by (simp add: outstanding_def queue_front)
  then show "calm (s\<lparr>fromhost := 0\<rparr>)"
    using assms(1) 0 nz by (auto simp: outstanding_def calm_def queue_front filter_empty_conv)
qed

subsection \<open>Calls of the driver\<close>

datatype call = Syscall uint64 | Putchar uint8 | Getchar

primrec call_start :: "call \<Rightarrow> hpc" where
  "call_start (Syscall x) = htif_syscall x"
| "call_start (Putchar ch) = htif_console_putchar ch"
| "call_start Getchar = htif_console_getchar"

text \<open>A system call passes a pointer to its arguments, which is not zero and has 48 bits.\<close>

definition syscall_word :: "uint64 \<Rightarrow> bool" where
  "syscall_word x \<longleftrightarrow> x \<noteq> 0 \<and> unat x < 2 ^ 48"

primrec call_ok :: "call \<Rightarrow> bool" where
  "call_ok (Syscall x) = syscall_word x"
| "call_ok (Putchar ch) = True"
| "call_ok Getchar = True"

text \<open>The commands a call sends, given what it returns: asking for a character is the only call that
  may send nothing, when an earlier request is still open, and then it returns -2.\<close>

fun sends :: "call \<Rightarrow> int32 \<Rightarrow> uint64 list" where
  "sends (Syscall x) r = [TOHOST_CMD 0 0 x]"
| "sends (Putchar ch) r = [TOHOST_CMD 1 1 (ucast ch)]"
| "sends Getchar r = (if r = - 2 then [] else [TOHOST_CMD 1 0 0])"

text \<open>What a call hands to \<^verbatim>\<open>__set_tohost\<close>.\<close>

fun stores :: "call \<Rightarrow> uint64 \<Rightarrow> uint64 \<Rightarrow> uint64 \<Rightarrow> after_set \<Rightarrow> bool" where
  "stores (Syscall y) d c x k \<longleftrightarrow> d = 0 \<and> c = 0 \<and> x = y \<and> k = ThenWait"
| "stores (Putchar ch) d c x k \<longleftrightarrow> d = 1 \<and> c = 1 \<and> x = ucast ch \<and> k = ThenReturn 0"
| "stores Getchar d c x k \<longleftrightarrow> d = 1 \<and> c = 0 \<and> x = 0 \<and> (case k of ThenWait \<Rightarrow> False | ThenReturn r \<Rightarrow> - 1 \<le> sint r \<and> sint r < 256)"

primrec returns :: "call \<Rightarrow> int32 \<Rightarrow> hstate \<Rightarrow> bool" where
  "returns (Syscall x) r s \<longleftrightarrow> r = 0 \<and> tohost s = 0"
| "returns (Putchar ch) r s \<longleftrightarrow> r = 0"
| "returns Getchar r s \<longleftrightarrow> - 2 \<le> sint r \<and> sint r < 256"

lemma syscall_cmd:
  assumes "syscall_word x"
  shows "FROMHOST_DEV (TOHOST_CMD 0 0 x) = 0" and "FROMHOST_CMD (TOHOST_CMD 0 0 x) = 0" and "TOHOST_CMD 0 0 x \<noteq> 0"
  using tohost_fields [of 0 0 x] assms by (auto simp: syscall_word_def FROMHOST_DATA_def)

lemma byte_less: "unat (c :: uint8) < 256"
  using unsigned_less [where 'a = nat, of c] by simp

lemma byte_le [simp]: "uint (c :: uint8) \<le> 255"
  using unsigned_less [where 'a = int, of c] by simp

lemma console_cmd:
  "FROMHOST_DEV (TOHOST_CMD 1 1 (ucast (ch :: uint8))) = 1" "FROMHOST_CMD (TOHOST_CMD 1 1 (ucast ch)) = 1"
  "FROMHOST_DATA (TOHOST_CMD 1 1 (ucast ch)) = ucast ch"
  "FROMHOST_DEV (TOHOST_CMD 1 0 0) = 1" "FROMHOST_CMD (TOHOST_CMD 1 0 0) = 0"
proof -
  have "unat (ucast ch :: uint64) < 2 ^ 48"
    using byte_less [of ch] by (simp add: unat_ucast_small)
  then show "FROMHOST_DEV (TOHOST_CMD 1 1 (ucast (ch :: uint8))) = 1" "FROMHOST_CMD (TOHOST_CMD 1 1 (ucast ch)) = 1"
    "FROMHOST_DATA (TOHOST_CMD 1 1 (ucast ch)) = ucast ch"
    by (simp_all add: tohost_fields)
qed (simp_all add: tohost_fields)

lemma device_one_nonzero: "FROMHOST_DEV w = 1 \<Longrightarrow> w \<noteq> 0"
  by (auto simp: FROMHOST_DEV_def)

text \<open>The buffer of \<^verbatim>\<open>htif_console_getchar\<close>: -1 while a request is open, 0 when nothing was ever asked
  for, otherwise one more than the character.\<close>

definition buf_ok :: "hstate \<Rightarrow> bool" where
  "buf_ok s \<longleftrightarrow> - 1 \<le> sint (htif_console_buf s) \<and> sint (htif_console_buf s) \<le> 256"

lemma sint_buf_char: "sint (1 + ucast (c :: uint8) :: int32) = 1 + int (unat c)"
proof -
  have u: "unat (ucast c :: int32) = unat c"
    using byte_less [of c] by (intro unat_ucast_small) simp
  then have "unat (1 + ucast c :: int32) = Suc (unat c)"
    using byte_less [of c] by (subst unat_add_lem [THEN iffD1]) simp_all
  then show ?thesis
    using byte_less [of c] sint_small [of "1 + ucast c :: int32"] by simp
qed

lemma sint_pred: "- (2 ^ 31) < sint w \<Longrightarrow> sint (w - 1 :: int32) = sint w - 1"
  using sint_less [of w] by (simp add: sint_word_ariths signed_take_bit_int_eq_self)

text \<open>The invariant of a call at each of its points; \<open>B\<close> are the commands sent before it.\<close>

fun call_inv :: "call \<Rightarrow> uint64 list \<Rightarrow> hstate \<Rightarrow> bool" where
  "call_inv cl B s \<longleftrightarrow> buf_ok s \<and>
     (let fresh = (calm s \<and> sent s = B);
          asked = (\<exists>x. cl = Syscall x \<and> outstanding (TOHOST_CMD 0 0 x) s \<and> sent s = B @ [TOHOST_CMD 0 0 x]);
          over = (\<lambda>r. calm s \<and> sent s = B @ sends cl r \<and> returns cl r s)
      in case at s of
        PLock k \<Rightarrow> fresh \<and> call_start cl = PLock k \<and> htif_lock s = 0
      | PSet d c x k \<Rightarrow> fresh \<and> stores cl d c x k
      | PSetCheck d c x k \<Rightarrow> fresh \<and> stores cl d c x k
      | PSetClear d c x k fh \<Rightarrow> fresh \<and> stores cl d c x k \<and> fh = fromhost s \<and> fh \<noteq> 0
      | PStore d c x k \<Rightarrow> fresh \<and> stores cl d c x k \<and> tohost s = 0
      | PWait d c \<Rightarrow> asked \<and> d = 0 \<and> c = 0
      | PWaitTake \<Rightarrow> asked \<and> is_answer (fromhost s)
      | PWaitCheck d c \<Rightarrow> asked \<and> d = 0 \<and> c = 0 \<and> console_word (fromhost s)
      | PWaitClear d c fh \<Rightarrow> asked \<and> d = 0 \<and> c = 0 \<and> console_word fh \<and> fh = fromhost s
      | PGetCheck \<Rightarrow> fresh \<and> cl = Getchar
      | PGetClear fh \<Rightarrow> fresh \<and> cl = Getchar \<and> fh = fromhost s \<and> fh \<noteq> 0
      | PGetBuf \<Rightarrow> fresh \<and> cl = Getchar
      | PUnlock r \<Rightarrow> over r
      | PDone r \<Rightarrow> over r \<and> htif_lock s = 0
      | _ \<Rightarrow> False)"

declare call_inv.simps [simp del]

lemma returns_host [simp]:
  "returns cl r (host_put s) = returns cl r s" "returns cl r (s\<lparr>at := k\<rparr>) = returns cl r s"
  "returns cl r (s\<lparr>htif_lock := l\<rparr>) = returns cl r s" "returns cl r (host_make i s) = returns cl r s" "returns cl r s \<Longrightarrow> returns cl r (host_take answer s)"
  by (cases cl; simp)+

lemma call_inv_host_take:
  assumes "host_answers answer" and "call_ok cl" and "call_inv cl B s" and "tohost s \<noteq> 0"
  shows "call_inv cl B (host_take answer s)"
proof -
  have "outstanding (TOHOST_CMD 0 0 x) (host_take answer s)"
    if "cl = Syscall x" "outstanding (TOHOST_CMD 0 0 x) s" for x
    using host_take_outstanding [OF assms(1) syscall_cmd(1,2)] assms(2,4) that by simp
  then show ?thesis
    using assms host_take_calm [OF assms(1) _ assms(4)]
    by (cases "at s") (auto simp: call_inv.simps host_take_sent buf_ok_def)
qed

lemma call_inv_host_put:
  assumes "call_inv cl B s" and "fromhost s = 0" and "waiting s \<noteq> []"
  shows "call_inv cl B (host_put s)"
  using assms host_put_calm [OF _ assms(2,3)] host_put_outstanding [OF _ assms(2,3)]
  by (cases "at s") (auto simp: call_inv.simps buf_ok_def)

lemma call_inv_host_make:
  assumes "call_inv cl B s" and "i < length (pending s)"
  shows "call_inv cl B (host_make i s)"
  using assms host_make_calm [OF _ assms(2)] host_make_outstanding [OF _ assms(2)]
  by (cases "at s") (auto simp: call_inv.simps buf_ok_def)

lemma check_clear_console:
  assumes "console_word fh" and "buf_ok s"
  obtains b where "check_clear fh k s = s\<lparr>fromhost := 0, htif_console_buf := b, at := k\<rparr>"
    and "buf_ok (s\<lparr>fromhost := 0, htif_console_buf := b, at := k\<rparr>)"
proof -
  obtain b where b: "check_word fh (htif_console_buf s) = Some b"
    using check_word_console [OF assms(1)] by blast
  then have "buf_ok (s\<lparr>fromhost := 0, htif_console_buf := b, at := k\<rparr>)"
    using assms(2) by (auto simp: buf_ok_def check_word_def sint_buf_char split: if_splits)
  with b that show ?thesis by (simp add: check_clear_def)
qed

text \<open>The point a \<^verbatim>\<open>__check_fromhost\<close> that has read a word goes back to.\<close>

fun clears :: "hpc \<Rightarrow> (uint64 \<times> hpc) option" where
  "clears (PSetClear d c x k fh) = Some (fh, PSet d c x k)"
| "clears (PWaitClear d c fh) = Some (fh, PWait d c)"
| "clears (PGetClear fh) = Some (fh, PGetBuf)"
| "clears _ = None"

lemma kernel_step_clears: "clears (at s) = Some (fh, k) \<Longrightarrow> kernel_step s = check_clear fh k s"
  by (cases "at s") (auto simp: kernel_step.simps)

lemma call_inv_clears:
  assumes "call_inv cl B s" and "clears (at s) = Some (fh, k)"
  shows "fh = fromhost s" and "console_word fh" and "buf_ok s"
  using assms calm_front [of s] by (cases "at s"; auto simp: call_inv.simps)+

lemma call_inv_check:
  assumes "call_inv cl B s" and "clears (at s) = Some (fh, k)"
  shows "call_inv cl B (kernel_step s)"
proof -
  note fh = call_inv_clears [OF assms]
  obtain b where b: "kernel_step s = s\<lparr>fromhost := 0, htif_console_buf := b, at := k\<rparr>"
    "buf_ok (s\<lparr>fromhost := 0, htif_console_buf := b, at := k\<rparr>)"
    using check_clear_console [OF fh(2,3)] kernel_step_clears [OF assms(2)] by metis
  have "outstanding w (s\<lparr>fromhost := 0\<rparr>)" if "outstanding w s" for w
    using outstanding_clear [OF that] fh by simp
  then show ?thesis
    unfolding b(1) using assms b(2) by (cases "at s") (auto simp: call_inv.simps)
qed

lemma call_inv_store:
  assumes "call_ok cl" and "call_inv cl B s" and "at s = PStore d c x k"
  shows "call_inv cl B (kernel_step s)"
proof -
  have s: "buf_ok s" "calm s" "sent s = B" "stores cl d c x k" "tohost s = 0"
    using assms(2,3) by (auto simp: call_inv.simps)
  have sent: "sent (s\<lparr>tohost := w\<rparr>) = B @ [w]" if "w \<noteq> 0" for w
    using s(3,5) that by (simp add: sent_def)
  have calm: "calm (s\<lparr>tohost := w\<rparr>)" if "FROMHOST_DEV w = 1" for w
    using s(2) that by (simp add: calm_def)
  show ?thesis
  proof (cases cl)
    case (Syscall y)
    then show ?thesis
      using s assms(1,3) syscall_cmd(3) [of y]
      by (simp add: kernel_step.simps call_inv.simps sent outstanding_store buf_ok_def)
  next
    case (Putchar ch)
    then show ?thesis
      using s assms(3) device_one_nonzero [OF console_cmd(1) [of ch]]
      by (simp add: kernel_step.simps call_inv.simps sent calm console_cmd buf_ok_def)
  next
    case Getchar
    then show ?thesis
      using s assms(3) device_one_nonzero [OF console_cmd(4)]
      by (auto simp: kernel_step.simps call_inv.simps sent calm console_cmd buf_ok_def split: after_set.splits)
  qed
qed

lemma call_inv_kernel:
  assumes "call_ok cl" and "call_inv cl B s"
  shows "call_inv cl B (kernel_step s)"
proof (cases "clears (at s)")
  case (Some p)
  then show ?thesis using call_inv_check [OF assms(2)] by (cases p) simp
next
  case None
  show ?thesis
  proof (cases "at s")
    case (PStore d c x k)
    then show ?thesis using call_inv_store [OF assms] by blast
  next
    case (PWait d c)
    then show ?thesis
      using assms outstanding_front [of _ s]
      by (auto simp: kernel_step.simps call_inv.simps Let_def console_word_def is_answer_def buf_ok_def)
  next
    case PWaitTake
    then obtain x where x: "cl = Syscall x" "outstanding (TOHOST_CMD 0 0 x) s" "is_answer (fromhost s)"
      using assms(2) by (auto simp: call_inv.simps)
    then show ?thesis
      using PWaitTake assms outstanding_taken [OF x(2,3)]
      by (simp add: kernel_step.simps call_inv.simps buf_ok_def)
  next
    case (PLock k)
    then show ?thesis
      using assms(2)
      by (cases cl) (auto simp: kernel_step.simps call_inv.simps spinlock_trylock_def atomic_defs buf_ok_def
          htif_syscall_def do_tohost_fromhost_def htif_console_putchar_def htif_console_getchar_def)
  next
    case PGetBuf
    moreover have "htif_console_buf s - 1 = - 2" if "sint (htif_console_buf s) = - 1"
    proof -
      have "sint (htif_console_buf s) = sint (- 1 :: int32)" using that by simp
      then have "htif_console_buf s = - 1" by (simp only: signed_word_eqI)
      then show ?thesis by simp
    qed
    ultimately show ?thesis
      using assms(2) by (auto simp: kernel_step.simps call_inv.simps Let_def buf_ok_def sint_pred)
  qed (use assms None in \<open>auto simp: kernel_step.simps call_inv.simps spinlock_unlock_def buf_ok_def\<close>)
qed

lemma call_inv_step:
  assumes "host_answers answer" and "call_ok cl" and "htif_step answer s t" and "call_inv cl B s"
  shows "call_inv cl B t"
  using assms(3,4)
  by (cases rule: htif_step.cases)
    (simp_all add: call_inv_kernel [OF assms(2)] call_inv_host_take [OF assms(1,2)] call_inv_host_put call_inv_host_make)

lemma call_inv_reach:
  assumes "host_answers answer" and "call_ok cl" and "htif_reach answer s t" and "call_inv cl B s"
  shows "call_inv cl B t"
  using assms(3,4) by (induction rule: rtranclp_induct) (auto intro: call_inv_step [OF assms(1,2)])

subsection \<open>A call ends\<close>

lemma reach_kernel: "htif_reach answer (kernel_step s) t \<Longrightarrow> htif_reach answer s t"
  by (blast intro: converse_rtranclp_into_rtranclp htif_step.kernel)

lemma reach_take: "tohost s \<noteq> 0 \<Longrightarrow> htif_reach answer (host_take answer s) t \<Longrightarrow> htif_reach answer s t"
  by (blast intro: converse_rtranclp_into_rtranclp htif_step.host_takes)

lemma reach_put: "fromhost s = 0 \<Longrightarrow> waiting s \<noteq> [] \<Longrightarrow> htif_reach answer (host_put s) t \<Longrightarrow> htif_reach answer s t"
  by (blast intro: converse_rtranclp_into_rtranclp htif_step.host_puts)

definition ends :: "host \<Rightarrow> hstate \<Rightarrow> bool" where
  "ends answer s \<longleftrightarrow> (\<exists>t r. htif_reach answer s t \<and> at t = PDone r)"

lemma ends_kernel: "ends answer (kernel_step s) \<Longrightarrow> ends answer s"
  and ends_take: "tohost s \<noteq> 0 \<Longrightarrow> ends answer (host_take answer s) \<Longrightarrow> ends answer s"
  and ends_put: "fromhost s = 0 \<Longrightarrow> waiting s \<noteq> [] \<Longrightarrow> ends answer (host_put s) \<Longrightarrow> ends answer s"
  unfolding ends_def by (blast intro: reach_kernel reach_take reach_put)+

lemma ends_unlock: "at s = PUnlock r \<Longrightarrow> ends answer s"
  by (rule ends_kernel) (auto simp: ends_def kernel_step.simps intro!: exI [of _ r])

lemma ends_take_answer: "at s = PWaitTake \<Longrightarrow> ends answer s"
  by (rule ends_kernel, rule ends_unlock [where r = 0]) (simp add: kernel_step.simps)

text \<open>Waiting for an answer that is in the queue: each word ahead of it costs a few steps.\<close>

lemma ends_front_answer:
  assumes "at s = PWait 0 0" and "is_answer (fromhost s)"
  shows "ends answer s"
  by (rule ends_kernel, rule ends_take_answer)
    (use assms in \<open>simp add: kernel_step.simps is_answer_def\<close>)

lemma ends_front_console:
  assumes "at s = PWait 0 0" and "console_word (fromhost s)"
    and "\<And>b. ends answer (s\<lparr>fromhost := 0, htif_console_buf := b, at := PWait 0 0\<rparr>)"
  shows "ends answer s"
proof -
  have nz: "fromhost s \<noteq> 0" using assms(2) by (metis console_word_nonzero)
  have 1: "kernel_step s = s\<lparr>at := PWaitCheck 0 0\<rparr>"
    using assms(1,2) nz by (simp add: kernel_step.simps console_word_def)
  have 2: "kernel_step (s\<lparr>at := PWaitCheck 0 0\<rparr>) = s\<lparr>at := PWaitClear 0 0 (fromhost s)\<rparr>"
    using nz by (simp add: kernel_step.simps)
  obtain b where "check_word (fromhost s) (htif_console_buf s) = Some b"
    using check_word_console [OF assms(2)] by blast
  then have 3: "kernel_step (s\<lparr>at := PWaitClear 0 0 (fromhost s)\<rparr>) = s\<lparr>fromhost := 0, htif_console_buf := b, at := PWait 0 0\<rparr>"
    by (simp add: kernel_step.simps check_clear_def)
  show ?thesis
    using assms(3) [of b] ends_kernel [of answer "s\<lparr>at := PWaitClear 0 0 (fromhost s)\<rparr>"]
      ends_kernel [of answer "s\<lparr>at := PWaitCheck 0 0\<rparr>"] ends_kernel [of answer s]
    unfolding 1 2 3 by blast
qed

lemma ends_wait_queue:
  assumes "at s = PWait 0 0" and "outstanding w s" and "tohost s = 0"
  shows "ends answer s"
  using assms
proof (induction "length (queue s)" arbitrary: s rule: less_induct)
  case less
  have front: "ends answer t"
    if t: "at t = PWait 0 0" "outstanding w t" "tohost t = 0" "fromhost t \<noteq> 0" "length (queue t) = length (queue s)" for t
    using outstanding_front [OF t(2,4)]
  proof
    assume c: "console_word (fromhost t)"
    show ?thesis
    proof (rule ends_front_console [OF t(1) c], rule less.hyps)
      show "length (queue (t\<lparr>fromhost := 0, htif_console_buf := b, at := PWait 0 0\<rparr>)) < length (queue s)" for b
        unfolding t(5) [symmetric] using t(4) by (simp add: queue_def)
    qed (use t c outstanding_clear [OF t(2) c] in simp_all)
  qed (use t ends_front_answer in blast)
  show ?case
  proof (cases "fromhost s = 0")
    case True
    have "filter is_answer (queue s) \<noteq> []"
      using less.prems(2,3) by (auto simp: outstanding_def)
    then have ne: "waiting s \<noteq> []"
      using True by (auto simp: queue_def)
    have nz: "\<forall>r\<in>set (queue s). r \<noteq> 0"
      by (rule outstanding_nonzero [OF less.prems(2)])
    have q: "queue (host_put s) = queue s"
      using True ne nz by (rule host_put_queue)
    have "hd (waiting s) \<in> set (queue s)"
      using ne by (simp add: queue_def)
    with nz have "fromhost (host_put s) \<noteq> 0"
      unfolding host_put_def by (metis hstate.select_convs(2) hstate.surjective hstate.update_convs(2,7))
    then have "ends answer (host_put s)"
      by (intro front host_put_outstanding [OF less.prems(2) True ne])
        (simp_all only: q host_put_fields less.prems not_False_eq_True)
    then show ?thesis by (rule ends_put [OF True ne])
  qed (use less.prems front in blast)
qed

lemma ends_wait:
  assumes "host_answers answer" and "call_ok cl" and "call_inv cl B s" and "at s = PWait d c"
  shows "ends answer s"
proof -
  obtain x where x: "cl = Syscall x" "outstanding (TOHOST_CMD 0 0 x) s" and at: "at s = PWait 0 0"
    using assms(3,4) by (auto simp: call_inv.simps)
  show ?thesis
  proof (cases "tohost s = 0")
    case False
    show ?thesis
    proof (rule ends_take [OF False], rule ends_wait_queue)
      show "outstanding (TOHOST_CMD 0 0 x) (host_take answer s)"
        using host_take_outstanding [OF assms(1) syscall_cmd(1,2) x(2) False] assms(2) x(1) by simp
    qed (simp_all add: at)
  qed (use at x ends_wait_queue in blast)
qed

lemma ends_store:
  assumes "host_answers answer" and "call_ok cl" and "call_inv cl B s" and "at s = PStore d c x k"
  shows "ends answer s"
proof (rule ends_kernel, cases k)
  case ThenWait
  then show "ends answer (kernel_step s)"
    using assms(4) by (intro ends_wait [OF assms(1,2) call_inv_kernel [OF assms(2,3)]])
      (simp add: kernel_step.simps)
next
  case (ThenReturn r)
  then show "ends answer (kernel_step s)"
    using assms(4) by (intro ends_unlock) (simp add: kernel_step.simps)
qed

lemma ends_set:
  assumes "host_answers answer" and "call_ok cl" and "call_inv cl B s" and "at s = PSet d c x k"
  shows "ends answer s"
proof -
  have go: "ends answer t" if "call_inv cl B t" "at t = PSet d c x k" "tohost t = 0" for t
    by (rule ends_kernel, rule ends_store [OF assms(1,2) call_inv_kernel [OF assms(2) that(1)]])
      (use that in \<open>simp add: kernel_step.simps\<close>)
  show ?thesis
  proof (cases "tohost s = 0")
    case False
    with assms show ?thesis
      by (intro ends_take [OF False] go call_inv_host_take [OF assms(1,2)]) simp_all
  qed (use assms go in blast)
qed

lemma call_inv_ends:
  assumes "host_answers answer" and "call_ok cl" and "call_inv cl B s"
  shows "ends answer s"
proof -
  note kern = call_inv_kernel [OF assms(2)]
  note set = ends_set [OF assms(1,2)] and wait = ends_wait [OF assms(1,2)]
  have clear: "ends answer t" if "call_inv cl B t" "clears (at t) = Some (fh, k)" "at (kernel_step t) = k \<Longrightarrow> ends answer (kernel_step t)" for t fh k
    using that(3) call_inv_clears(2) [OF that(1,2)] check_word_console [of fh "htif_console_buf t"]
    by (intro ends_kernel [of answer t]) (auto simp: kernel_step_clears [OF that(2)] check_clear_def)
  have getbuf: "ends answer t" if "call_inv cl B t" "at t = PGetBuf" for t
  proof (cases "0 \<le> sint (htif_console_buf t)")
    case True
    then show ?thesis
      using that(2) by (intro ends_kernel [of answer t] set [OF kern [OF that(1)]]) (simp add: kernel_step.simps)
  next
    case False
    then show ?thesis
      using that(2) by (intro ends_kernel [of answer t] ends_unlock) (simp add: kernel_step.simps)
  qed
  have cleared: "ends answer t" if "call_inv cl B t" "clears (at t) = Some (fh, k)" for t fh k
  proof (rule clear [OF that])
    assume k: "at (kernel_step t) = k"
    show "ends answer (kernel_step t)"
      using that(2) k set [OF kern [OF that(1)]] wait [OF kern [OF that(1)]] getbuf [OF kern [OF that(1)]]
      by (cases "at t") auto
  qed
  have getcheck: "ends answer t" if "call_inv cl B t" "at t = PGetCheck" for t
    using that getbuf [OF kern [OF that(1)]] cleared [OF kern [OF that(1)]]
    by (cases "fromhost t = 0") (auto intro!: ends_kernel [of answer t] simp: kernel_step.simps)
  show ?thesis
  proof (cases "at s")
    case (PLock k)
    then have "at (kernel_step s) = k" "call_start cl = PLock k"
      using assms(3) by (auto simp: call_inv.simps kernel_step.simps spinlock_trylock_def atomic_defs)
    then have "at (kernel_step s) = PGetCheck \<or> (\<exists>d c x j. at (kernel_step s) = PSet d c x j)"
      by (cases cl) (simp_all add: htif_syscall_def do_tohost_fromhost_def
          htif_console_putchar_def htif_console_getchar_def, metis+)
    then show ?thesis
      using set [OF kern [OF assms(3)]] getcheck [OF kern [OF assms(3)]] ends_kernel by blast
  next
    case (PSetCheck d c y k)
    then show ?thesis
      using set [OF kern [OF assms(3)]] cleared [OF kern [OF assms(3)]]
      by (cases "fromhost s = 0") (auto intro!: ends_kernel [of answer s] simp: kernel_step.simps)
  next
    case (PWaitCheck d c)
    then show ?thesis
      using wait [OF kern [OF assms(3)]] cleared [OF kern [OF assms(3)]]
      by (cases "fromhost s = 0") (auto intro!: ends_kernel [of answer s] simp: kernel_step.simps)
  next
    case (PDone r)
    then show ?thesis unfolding ends_def by blast
  qed (use assms ends_unlock ends_take_answer ends_store set wait cleared getcheck getbuf in \<open>auto simp: call_inv.simps\<close>)
qed

end
