(* ===== verification/Console.thy ===== *)
theory Console
  imports Htif Snprintf
begin

text \<open>
  The driver as its client uses it: calls of \<^verbatim>\<open>htif_syscall\<close>, \<^verbatim>\<open>htif_console_putchar\<close> and
  \<^verbatim>\<open>htif_console_getchar\<close> (\<^verbatim>\<open>spike_interface/spike_htif.c\<close>) one after the other, each started when
  the one before has returned, with the host at work all the time; and the messages of machine mode
  that are made of such calls (\<^verbatim>\<open>putstring\<close> and \<^verbatim>\<open>vprintm\<close> of \<^verbatim>\<open>spike_interface/spike_utils.c\<close>).
\<close>

subsection \<open>Sequences of calls\<close>

record session =
  dev :: hstate
  todo :: "call list"
  cur :: "call option"
  log :: "(call \<times> int32) list"     \<comment> \<open>calls that have returned, with their results\<close>

inductive session_step :: "host \<Rightarrow> session \<Rightarrow> session \<Rightarrow> bool" for answer where
  device: "htif_step answer (dev S) h \<Longrightarrow> session_step answer S (S\<lparr>dev := h\<rparr>)"
| call: "cur S = None \<Longrightarrow> todo S = c # cs \<Longrightarrow>
    session_step answer S (S\<lparr>dev := (dev S)\<lparr>at := call_start c\<rparr>, cur := Some c, todo := cs\<rparr>)"
| return: "cur S = Some c \<Longrightarrow> at (dev S) = PDone r \<Longrightarrow>
    session_step answer S (S\<lparr>cur := None, log := log S @ [(c, r)]\<rparr>)"

abbreviation session_reach :: "host \<Rightarrow> session \<Rightarrow> session \<Rightarrow> bool" where
  "session_reach answer \<equiv> (session_step answer)\<^sup>*\<^sup>*"

text \<open>The driver's variables as the program image has them.\<close>

definition htif_boot :: hstate where
  "htif_boot = \<lparr>tohost = 0, fromhost = 0, htif_console_buf = 0, htif_lock = 0, at = PDone 0,
     pending = [], waiting = [], taken = [], answered = []\<rparr>"

definition session_start :: "call list \<Rightarrow> session" where
  "session_start cs = \<lparr>dev = htif_boot, todo = cs, cur = None, log = []\<rparr>"

text \<open>What the log says was sent, and which characters were returned.\<close>

definition log_sends :: "(call \<times> int32) list \<Rightarrow> uint64 list" where
  "log_sends l = concat (map (\<lambda>(c, r). sends c r) l)"

definition result_char :: "int32 \<Rightarrow> uint8 list" where
  "result_char r = (if 0 \<le> sint r then [ucast r] else [])"

fun got :: "call \<Rightarrow> int32 \<Rightarrow> uint8 list" where
  "got Getchar r = result_char r"
| "got c r = []"

definition log_chars :: "(call \<times> int32) list \<Rightarrow> uint8 list" where
  "log_chars l = concat (map (\<lambda>(c, r). got c r) l)"

lemma log_append [simp]:
  "log_sends [] = []" "log_sends (l @ l') = log_sends l @ log_sends l'" "log_sends [(c, r)] = sends c r"
  "log_chars [] = []" "log_chars (l @ l') = log_chars l @ log_chars l'" "log_chars [(c, r)] = got c r"
  by (simp_all add: log_sends_def log_chars_def)

subsection \<open>Every call keeps the protocol\<close>

text \<open>Between two calls: the lock is free and only console traffic is under way.\<close>

definition idle :: "uint64 list \<Rightarrow> hstate \<Rightarrow> bool" where
  "idle B s \<longleftrightarrow> (\<exists>r. at s = PDone r) \<and> buf_ok s \<and> calm s \<and> htif_lock s = 0 \<and> sent s = B"

text \<open>The last call that returned was a system call.\<close>

fun ends_syscall :: "(call \<times> int32) list \<Rightarrow> bool" where
  "ends_syscall l \<longleftrightarrow> (l \<noteq> [] \<and> (\<exists>x r. last l = (Syscall x, r)))"

declare ends_syscall.simps [simp del]

fun returned_ok :: "call \<times> int32 \<Rightarrow> bool" where
  "returned_ok (Getchar, r) \<longleftrightarrow> - 2 \<le> sint r \<and> sint r < 256"
| "returned_ok (c, r) \<longleftrightarrow> r = 0"

definition session_inv :: "call list \<Rightarrow> session \<Rightarrow> bool" where
  "session_inv calls S \<longleftrightarrow>
     map fst (log S) @ (case cur S of None \<Rightarrow> [] | Some c \<Rightarrow> [c]) @ todo S = calls
     \<and> (\<forall>e\<in>set (log S). returned_ok e)
     \<and> (case cur S of
          None \<Rightarrow> idle (log_sends (log S)) (dev S) \<and> (ends_syscall (log S) \<longrightarrow> tohost (dev S) = 0)
        | Some c \<Rightarrow> call_inv c (log_sends (log S)) (dev S))"

lemma idle_step:
  assumes "host_answers answer" and "htif_step answer s t" and "idle B s"
  shows "idle B t" and "tohost s = 0 \<Longrightarrow> tohost t = 0"
  using assms(2,3) host_take_calm [OF assms(1)] host_put_calm [of s] host_make_calm [of s]
  by (cases rule: htif_step.cases; auto simp: idle_def kernel_step.simps host_take_sent buf_ok_def)+

lemma call_begins: "idle B s \<Longrightarrow> call_inv c B (s\<lparr>at := call_start c\<rparr>)"
  by (cases c) (auto simp: idle_def call_inv.simps buf_ok_def
      htif_syscall_def do_tohost_fromhost_def htif_console_putchar_def htif_console_getchar_def)

lemma call_over:
  "call_inv c B s \<Longrightarrow> at s = PDone r \<Longrightarrow> idle (B @ sends c r) s \<and> returns c r s"
  by (auto simp: idle_def call_inv.simps)

lemma session_inv_step:
  assumes "host_answers answer" and "\<forall>c\<in>set calls. call_ok c" and "session_step answer S T" and "session_inv calls S"
  shows "session_inv calls T"
  using assms(3)
proof cases
  case (device h)
  show ?thesis
  proof (cases "cur S")
    case None
    with device assms(4) idle_step [OF assms(1) device(2)] show ?thesis
      by (auto simp: session_inv_def)
  next
    case (Some c)
    then have "call_ok c" using assms(2,4) by (auto simp: session_inv_def)
    with Some device assms(4) call_inv_step [OF assms(1) _ device(2)] show ?thesis
      by (simp add: session_inv_def)
  qed
next
  case (call c cs)
  with assms(4) show ?thesis by (simp add: session_inv_def call_begins)
next
  case (return c r)
  then have "idle (log_sends (log S) @ sends c r) (dev S)" "returns c r (dev S)"
    using assms(4) call_over by (auto simp: session_inv_def)
  with return assms(4) show ?thesis
    by (cases c) (simp_all add: session_inv_def ends_syscall.simps)
qed

lemma session_inv_start: "session_inv cs (session_start cs)"
  by (simp add: session_inv_def session_start_def idle_def htif_boot_def buf_ok_def calm_def queue_def pending_ok_def sent_def
      ends_syscall.simps)

lemma session_inv_reach:
  assumes "host_answers answer" and "\<forall>c\<in>set calls. call_ok c" and "session_reach answer (session_start calls) T"
  shows "session_inv calls T"
  using assms(3)
  by (induction rule: rtranclp_induct) (auto intro: session_inv_start session_inv_step [OF assms(1,2)])

subsection \<open>No character is lost\<close>

definition reads :: "hstate \<Rightarrow> nat" where
  "reads s = length (filter is_char (tohost s # queue s @ pending s))"

text \<open>A call that has taken the character out of the buffer and is about to ask for the next one.\<close>

fun asking :: "hpc \<Rightarrow> bool" where
  "asking (PSet d c x k) \<longleftrightarrow> d = 1 \<and> c = 0"
| "asking (PSetCheck d c x k) \<longleftrightarrow> d = 1 \<and> c = 0"
| "asking (PSetClear d c x k fh) \<longleftrightarrow> d = 1 \<and> c = 0"
| "asking (PStore d c x k) \<longleftrightarrow> d = 1 \<and> c = 0"
| "asking _ \<longleftrightarrow> False"

fun held :: "after_set \<Rightarrow> uint8 list" where
  "held ThenWait = []"
| "held (ThenReturn r) = result_char r"

fun in_hand :: "call \<Rightarrow> hpc \<Rightarrow> uint8 list" where
  "in_hand Getchar (PSet d c x k) = held k"
| "in_hand Getchar (PSetCheck d c x k) = held k"
| "in_hand Getchar (PSetClear d c x k fh) = held k"
| "in_hand Getchar (PStore d c x k) = held k"
| "in_hand Getchar (PUnlock r) = result_char r"
| "in_hand Getchar (PDone r) = result_char r"
| "in_hand _ _ = []"

definition buffered :: "hstate \<Rightarrow> uint8 list" where
  "buffered s = (if 0 < sint (htif_console_buf s) then [ucast (htif_console_buf s - 1)] else [])"

definition input :: "uint64 list \<Rightarrow> uint8 list" where
  "input ws = map (\<lambda>w. ucast (FROMHOST_DATA w)) (filter is_char ws)"

text \<open>There is at most one open request, and none while the buffer waits to be read; the characters the
  host has sent are those returned (\<open>A\<close>), the one a call is about to return (\<open>H\<close>), the one in the
  buffer and the one on its way.\<close>

definition requests_ok :: "int32 \<Rightarrow> nat \<Rightarrow> bool \<Rightarrow> bool" where
  "requests_ok buf n asks \<longleftrightarrow> (if 0 \<le> sint buf then n = 0 \<and> \<not> asks else n + of_bool asks \<le> 1)"

definition chars_inv :: "uint8 list \<Rightarrow> uint8 list \<Rightarrow> hstate \<Rightarrow> bool" where
  "chars_inv A H s \<longleftrightarrow>
     requests_ok (htif_console_buf s) (reads s) (asking (at s))
     \<and> input (answered s) = A @ H @ buffered s @ input (queue s)"

lemma input_append [simp]: "input (xs @ ys) = input xs @ input ys" "input [] = []"
  "input (w # ws) = (if is_char w then [ucast (FROMHOST_DATA w)] else []) @ input ws"
  by (simp_all add: input_def)

lemma is_char_zero [simp]: "\<not> is_char 0"
  by (simp add: is_char_def FROMHOST_DEV_def)

lemma is_char_answer: "is_answer w \<Longrightarrow> \<not> is_char w"
  by (simp add: is_char_def is_answer_def)

lemma reads_at [simp]: "reads (s\<lparr>at := k\<rparr>) = reads s" "reads (s\<lparr>htif_lock := l\<rparr>) = reads s"
  "buffered (s\<lparr>at := k\<rparr>) = buffered s" "buffered (s\<lparr>htif_lock := l\<rparr>) = buffered s"
  "buffered (s\<lparr>tohost := w\<rparr>) = buffered s" "buffered (s\<lparr>fromhost := w\<rparr>) = buffered s"
  "reads (s\<lparr>htif_console_buf := b\<rparr>) = reads s"
  by (simp_all add: reads_def buffered_def)

lemma chars_inv_at:
  "chars_inv A H s \<Longrightarrow> asking k = asking (at s) \<Longrightarrow> chars_inv A H (s\<lparr>at := k\<rparr>)"
  by (simp add: chars_inv_def)

lemma chars_inv_lock: "chars_inv A H (s\<lparr>htif_lock := l, at := k\<rparr>) = chars_inv A H (s\<lparr>at := k\<rparr>)"
  by (simp add: chars_inv_def)

lemma requests_ok_less: "requests_ok b n a \<Longrightarrow> m \<le> n \<Longrightarrow> requests_ok b m a"
  by (auto simp: requests_ok_def split: if_splits)

lemma buf_char_pos: "0 < sint (1 + ucast (c :: uint8) :: int32)"
  by (simp only: sint_buf_char)

lemma buf_char: "(ucast (ucast (c :: uint8) :: int32) :: uint8) = c"
  using byte_less [of c] by (simp add: word_unat_eq_iff unat_ucast_small)

text \<open>The two states of traffic a host step can find.\<close>

definition orderly :: "hstate \<Rightarrow> bool" where
  "orderly s \<longleftrightarrow> calm s \<or> (\<exists>x. syscall_word x \<and> outstanding (TOHOST_CMD 0 0 x) s)"

lemma idle_orderly: "idle B s \<Longrightarrow> orderly s"
  by (simp add: orderly_def idle_def)

lemma call_inv_orderly: "call_ok c \<Longrightarrow> call_inv c B s \<Longrightarrow> orderly s"
  by (cases "at s") (auto simp: orderly_def call_inv.simps)

lemma orderly_nonzero: "orderly s \<Longrightarrow> \<forall>r\<in>set (queue s). r \<noteq> 0"
  using calm_nonzero outstanding_nonzero unfolding orderly_def by blast

lemma chars_inv_take:
  assumes "host_answers answer" and "orderly s" and "tohost s \<noteq> 0" and "chars_inv A H s"
  shows "chars_inv A H (host_take answer s)"
proof (cases "FROMHOST_DEV (tohost s) = 1")
  case True
  note h = host_take_console [OF True, of answer]
  have "length (filter is_char (answer (taken s) (tohost s))) \<le> of_bool (is_char (tohost s))"
    by (rule host_answers_console(2) [OF assms(1) True])
  then have "reads (host_take answer s) \<le> reads s"
    by (auto simp: reads_def h)
  with assms(4) show ?thesis
    by (auto simp: chars_inv_def buffered_def h intro: requests_ok_less)
next
  case False
  note h = host_take_other [OF False, of answer]
  obtain x where x: "syscall_word x" "tohost s = TOHOST_CMD 0 0 x"
    using False assms(2,3) by (auto simp: orderly_def calm_def outstanding_def)
  obtain r where "answer (taken s) (tohost s) = [r]" "is_answer r"
    using host_answers_syscall [OF assms(1) syscall_cmd(1,2) [OF x(1)], folded x(2)] .
  with False assms(4) show ?thesis
    by (simp add: chars_inv_def reads_def buffered_def h is_char_answer is_char_def [of "tohost s"])
qed

lemma chars_inv_make:
  assumes "i < length (pending s)" and "chars_inv A H s"
  shows "chars_inv A H (host_make i s)"
proof -
  have "pending s = take i (pending s) @ pending s ! i # drop (Suc i) (pending s)"
    by (rule id_take_nth_drop [OF assms(1)])
  then have "length (filter is_char (pending s)) =
      length (filter is_char (take i (pending s) @ pending s ! i # drop (Suc i) (pending s)))"
    by (rule arg_cong)
  then have "reads (host_make i s) = reads s"
    by (simp add: reads_def)
  with assms(2) show ?thesis
    by (simp add: chars_inv_def buffered_def)
qed

lemma chars_inv_put:
  assumes "orderly s" and "fromhost s = 0" and "waiting s \<noteq> []" and "chars_inv A H s"
  shows "chars_inv A H (host_put s)"
  using assms(4) host_put_queue [OF assms(2,3) orderly_nonzero [OF assms(1)]]
  by (simp add: chars_inv_def reads_def buffered_def)

lemma chars_inv_clear:
  assumes "chars_inv A H s" and "console_word (fromhost s)" and "buf_ok s" and "asking k = asking (at s)"
  shows "chars_inv A H (check_clear (fromhost s) k s)"
proof -
  have nz: "fromhost s \<noteq> 0" using assms(2) by (metis console_word_nonzero)
  show ?thesis
  proof (cases "is_char (fromhost s)")
    case True
    then have buf: "\<not> 0 \<le> sint (htif_console_buf s)" and one: "reads s = 1" "\<not> asking (at s)"
      using assms(1) nz by (auto simp: chars_inv_def reads_def queue_front requests_ok_def split: if_splits)
    then have none: "filter is_char (waiting s) = []" "filter is_char (pending s) = []" "\<not> is_char (tohost s)" and "buffered s = []"
      using True nz by (auto simp: reads_def queue_front buffered_def split: if_splits)
    then have chars: "input (answered s) = A @ H @ [ucast (FROMHOST_DATA (fromhost s))]" "input (waiting s) = []"
      using assms(1) True nz by (simp_all add: chars_inv_def queue_front input_def)
    define b where "b = (1 + ucast (ucast (FROMHOST_DATA (fromhost s)) :: uint8) :: int32)"
    have "check_clear (fromhost s) k s = s\<lparr>fromhost := 0, htif_console_buf := b, at := k\<rparr>"
      using True by (simp add: check_clear_def check_word_def is_char_def b_def)
    moreover have "0 < sint b" "ucast (b - 1) = (ucast (FROMHOST_DATA (fromhost s)) :: uint8)"
      by (simp_all add: b_def buf_char_pos buf_char)
    ultimately show ?thesis
      using none chars one(2) assms(4) by (simp add: chars_inv_def requests_ok_def reads_def buffered_def)
  next
    case False
    then have "check_word (fromhost s) (htif_console_buf s) = Some (htif_console_buf s)"
      using assms(2) by (auto simp: console_word_def check_word_def is_char_def)
    with False assms(1,4) nz show ?thesis
      by (auto simp: chars_inv_def check_clear_def reads_def queue_front buffered_def split: if_splits)
  qed
qed

lemma clears_keeps: "clears p = Some (fh, k) \<Longrightarrow> asking k = asking p \<and> in_hand c k = in_hand c p"
  by (cases p; cases c) auto

lemma chars_inv_store:
  assumes "call_ok c" and "call_inv c B s" and "at s = PStore d i x k" and "chars_inv A (in_hand c (at s)) s"
  shows "chars_inv A (in_hand c (at (kernel_step s))) (kernel_step s)"
proof -
  have s: "stores c d i x k" "tohost s = 0"
    using assms(2,3) by (auto simp: call_inv.simps)
  show ?thesis
  proof (cases c)
    case (Syscall y)
    then have "\<not> is_char (TOHOST_CMD 0 0 y)"
      using assms(1) syscall_cmd(1) [of y] by (simp add: is_char_def)
    with Syscall s assms(3,4) show ?thesis
      by (simp add: kernel_step.simps chars_inv_def reads_def)
  next
    case (Putchar ch)
    then have "\<not> is_char (TOHOST_CMD 1 1 (ucast ch))"
      by (simp add: is_char_def console_cmd)
    with Putchar s assms(3,4) show ?thesis
      by (simp add: kernel_step.simps chars_inv_def reads_def)
  next
    case Getchar
    then have "is_char (TOHOST_CMD 1 0 0)"
      by (simp add: is_char_def console_cmd)
    with Getchar s assms(3,4) show ?thesis
      by (cases k) (auto simp: kernel_step.simps chars_inv_def reads_def requests_ok_def split: if_splits)
  qed
qed

lemma chars_inv_kernel:
  assumes "call_ok c" and "call_inv c B s" and "chars_inv A (in_hand c (at s)) s"
  shows "chars_inv A (in_hand c (at (kernel_step s))) (kernel_step s)"
proof (cases "clears (at s)")
  case (Some p)
  then obtain fh k where k: "clears (at s) = Some (fh, k)" by (cases p) auto
  note fh = call_inv_clears [OF assms(2) k]
  have "chars_inv A (in_hand c (at s)) (kernel_step s)" "at (kernel_step s) = k"
    using chars_inv_clear [OF assms(3), of k] fh clears_keeps [OF k] check_word_console [OF fh(2), of "htif_console_buf s"]
    by (auto simp: kernel_step_clears [OF k] check_clear_def)
  then show ?thesis using clears_keeps [OF k] by simp
next
  case None
  have keep: "chars_inv A (in_hand c k) (s\<lparr>at := k\<rparr>)" if "asking k = asking (at s)" "in_hand c k = in_hand c (at s)" for k
    using chars_inv_at [OF assms(3) that(1)] that(2) by simp
  show ?thesis
  proof (cases "at s")
    case (PStore d i x k)
    then show ?thesis by (rule chars_inv_store [OF assms(1,2) _ assms(3)])
  next
    case (PLock k)
    then have k: "call_start c = PLock k" "htif_lock s = 0"
      using assms(2) by (auto simp: call_inv.simps)
    then have "asking k = False" "in_hand c k = []"
      by (cases c; auto simp: htif_syscall_def do_tohost_fromhost_def htif_console_putchar_def htif_console_getchar_def)+
    moreover have "kernel_step s = s\<lparr>htif_lock := - 1, at := k\<rparr>"
      using PLock k(2) by (simp add: kernel_step.simps spinlock_trylock_def atomic_defs)
    moreover have "in_hand c (at s) = []"
      using PLock by (cases c) simp_all
    ultimately show ?thesis
      using PLock keep [of k] by (simp add: chars_inv_lock)
  next
    case (PWait d i)
    then show ?thesis
      using keep assms(3) by (cases c) (auto simp: kernel_step.simps Let_def)
  next
    case PWaitTake
    then have "is_answer (fromhost s)" "\<exists>x. c = Syscall x"
      using assms(2) by (auto simp: call_inv.simps)
    moreover from this have "fromhost s \<noteq> 0" by (metis is_answer_zero)
    ultimately show ?thesis
      using PWaitTake assms(3)
      by (auto simp: kernel_step.simps chars_inv_def reads_def queue_front is_char_answer split: if_splits)
  next
    case PGetBuf
    then have "c = Getchar" "sint (htif_console_buf s - 1) = sint (htif_console_buf s) - 1"
      using assms(2) by (auto simp: call_inv.simps buf_ok_def sint_pred)
    with PGetBuf assms(3) show ?thesis
      by (auto simp: kernel_step.simps Let_def chars_inv_def requests_ok_def buffered_def
          result_char_def split: if_splits)
  next
    case (PUnlock r)
    then show ?thesis
      using keep [of "PDone r"] by (cases c) (simp_all add: kernel_step.simps chars_inv_lock spinlock_unlock_def)
  qed (use None assms keep in \<open>cases c; auto simp: kernel_step.simps call_inv.simps\<close>)+
qed

definition session_chars :: "session \<Rightarrow> bool" where
  "session_chars S \<longleftrightarrow>
     chars_inv (log_chars (log S)) (case cur S of None \<Rightarrow> [] | Some c \<Rightarrow> in_hand c (at (dev S))) (dev S)"

lemma chars_inv_step:
  assumes "host_answers answer" and "call_ok c" and "htif_step answer s t" and "call_inv c B s"
    and "chars_inv A (in_hand c (at s)) s"
  shows "chars_inv A (in_hand c (at t)) t"
  using assms(3)
proof cases
  case kernel
  then show ?thesis using chars_inv_kernel [OF assms(2,4,5)] by simp
next
  case host_takes
  then show ?thesis using chars_inv_take [OF assms(1) call_inv_orderly [OF assms(2,4)] _ assms(5)] by simp
next
  case (host_makes i)
  then show ?thesis using chars_inv_make [OF _ assms(5)] by simp
next
  case host_puts
  then show ?thesis using chars_inv_put [OF call_inv_orderly [OF assms(2,4)] _ _ assms(5)] by simp
qed

lemma chars_inv_idle_step:
  assumes "host_answers answer" and "htif_step answer s t" and "idle B s" and "chars_inv A H s"
  shows "chars_inv A H t"
  using assms(2)
proof cases
  case kernel
  with assms(3,4) show ?thesis by (auto simp: idle_def kernel_step.simps)
next
  case host_takes
  then show ?thesis using chars_inv_take [OF assms(1) idle_orderly [OF assms(3)] _ assms(4)] by simp
next
  case (host_makes i)
  then show ?thesis using chars_inv_make [OF _ assms(4)] by simp
next
  case host_puts
  then show ?thesis using chars_inv_put [OF idle_orderly [OF assms(3)] _ _ assms(4)] by simp
qed

lemma session_chars_step:
  assumes "host_answers answer" and "\<forall>c\<in>set calls. call_ok c" and "session_step answer S T"
    and "session_inv calls S" and "session_chars S"
  shows "session_chars T"
  using assms(3)
proof cases
  case (device h)
  show ?thesis
  proof (cases "cur S")
    case None
    with device assms(4,5) chars_inv_idle_step [OF assms(1) device(2)] show ?thesis
      by (auto simp: session_inv_def session_chars_def)
  next
    case (Some c)
    then have "call_ok c" using assms(2,4) by (auto simp: session_inv_def)
    with Some device assms(4,5) chars_inv_step [OF assms(1) _ device(2)] show ?thesis
      by (auto simp: session_inv_def session_chars_def)
  qed
next
  case (call c cs)
  have "\<not> asking (call_start c)" "in_hand c (call_start c) = []"
    by (cases c; simp add: htif_syscall_def do_tohost_fromhost_def htif_console_putchar_def htif_console_getchar_def)+
  moreover obtain r where "at (dev S) = PDone r"
    using call(2) assms(4) by (auto simp: session_inv_def idle_def)
  ultimately show ?thesis
    using call assms(5) by (simp add: session_chars_def chars_inv_at)
next
  case (return c r)
  then have "in_hand c (at (dev S)) = got c r"
    by (cases c) simp_all
  with return assms(5) show ?thesis
    by (simp add: session_chars_def chars_inv_def)
qed

lemma session_chars_reach:
  assumes "host_answers answer" and "\<forall>c\<in>set calls. call_ok c" and "session_reach answer (session_start calls) T"
  shows "session_chars T"
  using assms(3)
proof (induction rule: rtranclp_induct)
  case base
  then show ?case
    by (simp add: session_chars_def session_start_def htif_boot_def chars_inv_def requests_ok_def reads_def queue_def
        buffered_def)
next
  case (step S T)
  then show ?case
    using session_chars_step [OF assms(1,2)] session_inv_reach [OF assms(1,2)] by blast
qed

subsection \<open>Every sequence of calls ends\<close>

lemma session_device: "htif_reach answer (dev S) h \<Longrightarrow> session_reach answer S (S\<lparr>dev := h\<rparr>)"
proof (induction rule: rtranclp_induct)
  case (step h h')
  then show ?case
    using session_step.device [of answer "S\<lparr>dev := h\<rparr>" h'] by (simp add: rtranclp.rtrancl_into_rtrancl)
qed simp

lemma session_call_ends:
  assumes "host_answers answer" and "\<forall>c\<in>set calls. call_ok c" and "session_inv calls S" and "cur S = Some c"
  obtains T where "session_reach answer S T" and "cur T = None" and "todo T = todo S"
proof -
  have c: "call_ok c" "call_inv c (log_sends (log S)) (dev S)"
    using assms(2-4) by (auto simp: session_inv_def)
  obtain h r where h: "htif_reach answer (dev S) h" "at h = PDone r"
    using call_inv_ends [OF assms(1) c] unfolding ends_def by blast
  let ?T = "S\<lparr>dev := h, cur := None, log := log S @ [(c, r)]\<rparr>"
  have "session_step answer (S\<lparr>dev := h\<rparr>) ?T"
    using session_step.return [of "S\<lparr>dev := h\<rparr>" c r answer] assms(4) h(2) by simp
  with session_device [OF h(1)] have "session_reach answer S ?T"
    by (rule rtranclp.rtrancl_into_rtrancl)
  then show ?thesis using that by simp
qed

lemma session_ends:
  assumes "host_answers answer" and "\<forall>c\<in>set calls. call_ok c" and "session_inv calls S"
  shows "\<exists>T. session_reach answer S T \<and> todo T = [] \<and> cur T = None"
  using assms(3)
proof (induction "todo S" arbitrary: S)
  case Nil
  show ?case
  proof (cases "cur S")
    case (Some c)
    then show ?thesis using session_call_ends [OF assms(1,2) Nil(2)] Nil(1) by metis
  qed (use Nil in auto)
next
  case (Cons c cs)
  have inv: "session_inv calls T" if "session_reach answer S T" for T
    using that Cons.prems by (induction rule: rtranclp_induct) (auto intro: session_inv_step [OF assms(1,2)])
  obtain T where T: "session_reach answer S T" "cur T = None" "todo T = c # cs"
  proof (cases "cur S")
    case (Some d)
    then show ?thesis using session_call_ends [OF assms(1,2) Cons.prems] Cons.hyps(2) that by metis
  qed (use Cons.hyps(2) that [of S] in auto)
  let ?U = "T\<lparr>dev := (dev T)\<lparr>at := call_start c\<rparr>, cur := Some c, todo := cs\<rparr>"
  have U: "session_reach answer S ?U"
    using T by (auto intro: rtranclp.rtrancl_into_rtrancl session_step.call)
  then obtain V where "session_reach answer ?U V" "todo V = []" "cur V = None"
    using Cons.hyps(1) [of ?U] inv [OF U] by auto
  with U show ?case by (blast intro: rtranclp_trans)
qed

subsection \<open>Messages of machine mode\<close>

definition mcall_console_putchar :: "uint64 \<Rightarrow> uint8 \<Rightarrow> call list" where
  "mcall_console_putchar htif ch = (if htif \<noteq> 0 then [Putchar ch] else [])"

text \<open>The calls \<^verbatim>\<open>putstring\<close> makes for the bytes that start at its argument; without a terminator it runs
  past the end of the array.\<close>

fun putstring :: "uint64 \<Rightarrow> string \<Rightarrow> undef + call list" where
  "putstring htif [] = Inl BufOverflow"
| "putstring htif (c # cs) =
     (if c = CHR 0x00 then Inr []
      else map_ok (\<lambda>calls. mcall_console_putchar htif (byte_of c) @ calls) (putstring htif cs))"

text \<open>\<^verbatim>\<open>vprintm\<close>, with the contents of its uninitialised 256-byte array \<^verbatim>\<open>buf\<close>.\<close>

definition vprintm :: "uint64 \<Rightarrow> string \<Rightarrow> string \<Rightarrow> va list \<Rightarrow> undef + call list" where
  "vprintm htif buf fmt vl =
     (case vsnprintf buf 256 fmt vl of
        Inl u \<Rightarrow> Inl u
      | Inr (res, out) \<Rightarrow> putstring htif out)"

lemma putstring_eq:
  "CHR 0x00 \<in> set cs \<Longrightarrow>
    putstring htif cs = Inr (if htif \<noteq> 0 then map (\<lambda>c. Putchar (byte_of c)) (c_text cs) else [])"
  by (induction cs) (auto simp: mcall_console_putchar_def c_text_def)

lemma c_text_terminated: "c_text (t @ CHR 0x00 # rest) = c_text t"
  by (induction t) (simp_all add: c_text_def)

lemma vprintm_eq:
  assumes "length buf = 256" and "expand 256 0 False False fmt vl = Inr e"
  shows "vprintm htif buf fmt vl =
    Inr (if htif \<noteq> 0 then map (\<lambda>c. Putchar (byte_of c)) (c_text (take 255 e)) else [])"
  unfolding vprintm_def using assms by (subst vsnprintf_expand) (simp_all add: putstring_eq c_text_terminated)

lemma log_sends_putchars:
  "map fst l = map (\<lambda>c. Putchar (f c)) t \<Longrightarrow> log_sends l = map (\<lambda>c. TOHOST_CMD 1 1 (ucast (f c))) t"
proof (induction l arbitrary: t)
  case (Cons p l)
  then obtain c t' where "t = c # t'" "fst p = Putchar (f c)" "map fst l = map (\<lambda>c. Putchar (f c)) t'"
    by (cases t) auto
  with Cons.IH [of t'] show ?case by (cases p) (simp add: log_sends_def)
qed (simp add: log_sends_def)

subsection \<open>Properties\<close>

text \<open>
  C23.  The driver under every interleaving with the host.  Whatever calls are made one after the other
  and however the host answers, no word from the host fails an assertion; the calls return in order,
  system calls and output with 0 and input with a character, -1 or -2; between calls the lock is free
  and the commands given to the host are exactly those of the calls, in order, none lost, doubled or
  overwritten; and when a system call has returned the host has taken all of them.
\<close>

theorem htif_calls_correct:
  assumes "host_answers answer" and "\<forall>c\<in>set calls. call_ok c" and "session_reach answer (session_start calls) T"
  shows "at (dev T) \<noteq> PAssert \<and> (\<exists>rest. calls = map fst (log T) @ rest) \<and> (\<forall>e\<in>set (log T). returned_ok e)
    \<and> (cur T = None \<longrightarrow> calls = map fst (log T) @ todo T \<and> htif_lock (dev T) = 0
         \<and> sent (dev T) = log_sends (log T) \<and> (ends_syscall (log T) \<longrightarrow> taken (dev T) = log_sends (log T)))"
proof -
  have inv: "session_inv calls T" by (rule session_inv_reach [OF assms])
  then show ?thesis
    by (auto simp: session_inv_def idle_def call_inv.simps sent_def split: option.splits)
qed

text \<open>
  C24.  The driver is never stuck: from every state that a sequence of calls can get to there are further
  steps of kernel and host with which all calls return.
\<close>

theorem htif_calls_end:
  assumes "host_answers answer" and "\<forall>c\<in>set calls. call_ok c" and "session_reach answer (session_start calls) T"
  shows "\<exists>U. session_reach answer T U \<and> map fst (log U) = calls \<and> cur U = None"
proof -
  obtain U where U: "session_reach answer T U" "todo U = []" "cur U = None"
    using session_ends [OF assms(1,2) session_inv_reach [OF assms]] by blast
  moreover have "session_inv calls U"
    by (rule session_inv_reach [OF assms(1,2)]) (use assms(3) U(1) in \<open>rule rtranclp_trans\<close>)
  ultimately show ?thesis by (auto simp: session_inv_def)
qed


text \<open>
  C26.  A message of machine mode: if the arguments fit the format string \<^verbatim>\<open>vprintm\<close> makes calls that can
  always be completed, and once they are, the commands the host was given put the first 255
  characters of the formatted text on its console, up to a zero character; without HTIF nothing is
  sent.  Otherwise the message is undefined behaviour.
\<close>

theorem vprintm_correct:
  assumes "host_answers answer" and "length buf = 256"
  shows "case expand 256 0 False False fmt vl of
      Inl u \<Rightarrow> vprintm htif buf fmt vl = Inl u
    | Inr e \<Rightarrow> \<exists>calls. vprintm htif buf fmt vl = Inr calls
        \<and> (\<exists>T. session_reach answer (session_start calls) T \<and> todo T = [] \<and> cur T = None)
        \<and> (\<forall>T. session_reach answer (session_start calls) T \<and> todo T = [] \<and> cur T = None \<longrightarrow>
             sent (dev T) = (if htif \<noteq> 0 then map (\<lambda>c. TOHOST_CMD 1 1 (ucast (byte_of c))) (c_text (take 255 e)) else []))"
proof (cases "expand 256 0 False False fmt vl")
  case (Inl u)
  then show ?thesis
    using assms(2) by (simp add: vprintm_def vsnprintf_expand)
next
  case (Inr e)
  define calls where "calls = (if htif \<noteq> 0 then map (\<lambda>c. Putchar (byte_of c)) (c_text (take 255 e)) else [])"
  have ok: "\<forall>c\<in>set calls. call_ok c" by (auto simp: calls_def)
  have "sent (dev T) = (if htif \<noteq> 0 then map (\<lambda>c. TOHOST_CMD 1 1 (ucast (byte_of c))) (c_text (take 255 e)) else [])"
    if T: "session_reach answer (session_start calls) T" "todo T = []" "cur T = None" for T
  proof -
    have "map fst (log T) = calls" "sent (dev T) = log_sends (log T)"
      using session_inv_reach [OF assms(1) ok T(1)] T(2,3) by (simp_all add: session_inv_def idle_def)
    then show ?thesis
      using log_sends_putchars [of "log T" byte_of "c_text (take 255 e)"] by (auto simp: calls_def)
  qed
  moreover have "\<exists>T. session_reach answer (session_start calls) T \<and> todo T = [] \<and> cur T = None"
    by (rule session_ends [OF assms(1) ok session_inv_start])
  ultimately show ?thesis
    using Inr vprintm_eq [OF assms(2) Inr, of htif] by (auto simp: calls_def)
qed

subsection \<open>Instances\<close>

text \<open>A host that answers every system call, and every request for a character with the letter A.\<close>

definition sample_answer :: host where
  "sample_answer h w =
     (if FROMHOST_DEV w = 0 then [1] else if is_char w then [TOHOST_CMD 1 0 65] else [])"

lemma sample_answer_ok: "host_answers sample_answer"
  by (auto simp: host_answers_def sample_answer_def is_answer_def is_char_def console_word_def
      FROMHOST_DEV_def FROMHOST_CMD_def TOHOST_CMD_def)

definition sample_calls :: "call list" where
  "sample_calls = [Getchar, Putchar 72, Getchar, Syscall 0x80010000]"

lemma sample_calls_ok: "\<forall>c\<in>set sample_calls. call_ok c"
  by (simp add: sample_calls_def syscall_word_def)

lemma sample_session:
  obtains T where "session_reach sample_answer (session_start sample_calls) T" and "todo T = []" and "cur T = None"
  using session_ends [OF sample_answer_ok sample_calls_ok session_inv_start] by blast

theorem htif_calls_correct_witness:
  "\<exists>T. session_reach sample_answer (session_start sample_calls) T \<and> htif_lock (dev T) = 0
    \<and> map fst (log T) = [Getchar, Putchar 72, Getchar, Syscall 0x80010000] \<and> taken (dev T) = log_sends (log T)"
proof -
  obtain T where T: "session_reach sample_answer (session_start sample_calls) T" "todo T = []" "cur T = None"
    using sample_session .
  have "map fst (log T) = sample_calls" "htif_lock (dev T) = 0" "ends_syscall (log T) \<longrightarrow> taken (dev T) = log_sends (log T)"
    using htif_calls_correct [OF sample_answer_ok sample_calls_ok T(1)] T(2,3) by auto
  moreover from this(1) have "ends_syscall (log T)"
    by (cases "log T" rule: rev_cases) (auto simp: ends_syscall.simps sample_calls_def)
  ultimately show ?thesis using T(1) by (auto simp: sample_calls_def)
qed

theorem htif_calls_end_witness:
  "\<exists>U. session_reach sample_answer (session_start sample_calls) U \<and> map fst (log U) = sample_calls \<and> cur U = None"
  using htif_calls_end [OF sample_answer_ok sample_calls_ok rtranclp.rtrancl_refl] .


theorem vprintm_correct_witness:
  "\<exists>calls T. vprintm 1 (replicate 256 (CHR ''?'')) ''hi'' [] = Inr calls
    \<and> session_reach sample_answer (session_start calls) T \<and> sent (dev T) = [TOHOST_CMD 1 1 104, TOHOST_CMD 1 1 105]"
  using vprintm_correct [OF sample_answer_ok, of "replicate 256 (CHR ''?'')" 1 "''hi''" "[]"]
  by (auto simp: c_text_def byte_of_def)

end
