(* ===== verification/HostCall.thy ===== *)
theory HostCall
  imports Console Kstate
begin

text \<open>
  \<^verbatim>\<open>frontend_syscall\<close> of \<^verbatim>\<open>spike_interface/spike_utils.c\<close> statement by statement, on the HTIF driver and with the host at
  work all the time: taking the lock, filling \<^verbatim>\<open>magic_mem\<close>, the call of \<^verbatim>\<open>htif_syscall\<close>, reading the answer and giving the lock
  back.  The host serves the request when it takes the command that points to \<^verbatim>\<open>magic_mem\<close>: it reads the eight words, may
  read and write memory, and leaves its answer in the first word.  Kstate has the same call as one step of
  the kernel; the refinement proved here is what allows that.
\<close>

subsection \<open>The call in detail\<close>

datatype fpc = FLock | FStore nat | FCall | FRead | FUnlock uint64 | FDone uint64

record fstate =
  hdev :: hstate
  magic_mem :: "uint64 list"
  ram :: memory
  lock :: int32
  fpoint :: fpc
  requests :: "uint64 list list"    \<comment> \<open>the requests the host has served\<close>

text \<open>One step of the kernel; \<open>p\<close> is the address of \<^verbatim>\<open>magic_mem\<close> and \<open>req\<close> are the arguments.\<close>

definition frontend_kernel :: "uint64 \<Rightarrow> uint64 list \<Rightarrow> fstate \<Rightarrow> fstate" where
  "frontend_kernel p req F =
     (case fpoint F of
        FLock \<Rightarrow>
          if lock F \<noteq> 0 then F
          else (case spinlock_trylock (lock F) of (res, l) \<Rightarrow>
            if res \<noteq> 0 then F\<lparr>lock := l\<rparr> else F\<lparr>lock := l, fpoint := FStore 0\<rparr>)
      | FStore i \<Rightarrow>
          if i < 8 then F\<lparr>magic_mem := (magic_mem F)[i := req ! i], fpoint := FStore (Suc i)\<rparr>
          else F\<lparr>hdev := (hdev F)\<lparr>at := htif_syscall p\<rparr>, fpoint := FCall\<rparr>
      | FCall \<Rightarrow>
          (case at (hdev F) of
             PDone r \<Rightarrow> F\<lparr>fpoint := FRead\<rparr>
           | _ \<Rightarrow> F\<lparr>hdev := kernel_step (hdev F)\<rparr>)
      | FRead \<Rightarrow> F\<lparr>fpoint := FUnlock (magic_mem F ! 0)\<rparr>
      | FUnlock r \<Rightarrow> F\<lparr>lock := spinlock_unlock (lock F), fpoint := FDone r\<rparr>
      | FDone r \<Rightarrow> F)"

definition host_serve :: "env \<Rightarrow> uint64 \<Rightarrow> fstate \<Rightarrow> fstate" where
  "host_serve E p F =
     (if tohost (hdev F) = TOHOST_CMD 0 0 p then
        (let (r, m) = fesvr E (magic_mem F) (ram F)
         in F\<lparr>magic_mem := (magic_mem F)[0 := r], ram := m, requests := requests F @ [magic_mem F]\<rparr>)
      else F)"

inductive frontend_step :: "env \<Rightarrow> host \<Rightarrow> uint64 \<Rightarrow> uint64 list \<Rightarrow> fstate \<Rightarrow> fstate \<Rightarrow> bool" for E answer p req where
  kernel: "frontend_step E answer p req F (frontend_kernel p req F)"
| host_takes: "tohost (hdev F) \<noteq> 0 \<Longrightarrow>
    frontend_step E answer p req F ((host_serve E p F)\<lparr>hdev := host_take answer (hdev F)\<rparr>)"
| host_makes: "i < length (pending (hdev F)) \<Longrightarrow>
    frontend_step E answer p req F (F\<lparr>hdev := host_make i (hdev F)\<rparr>)"
| host_puts: "fromhost (hdev F) = 0 \<Longrightarrow> waiting (hdev F) \<noteq> [] \<Longrightarrow>
    frontend_step E answer p req F (F\<lparr>hdev := host_put (hdev F)\<rparr>)"

abbreviation frontend_reach :: "env \<Rightarrow> host \<Rightarrow> uint64 \<Rightarrow> uint64 list \<Rightarrow> fstate \<Rightarrow> fstate \<Rightarrow> bool" where
  "frontend_reach E answer p req \<equiv> (frontend_step E answer p req)\<^sup>*\<^sup>*"

definition frontend_start :: "hstate \<Rightarrow> uint64 list \<Rightarrow> uint64 list list \<Rightarrow> kstate \<Rightarrow> fstate" where
  "frontend_start d mg R s = \<lparr>hdev = d, magic_mem = mg, ram = mem s, lock = fs_lock s, fpoint = FLock, requests = R\<rparr>"

subsection \<open>The invariant\<close>

text \<open>Everything but the device: before the host has served the request, and after.\<close>

definition unserved :: "memory \<Rightarrow> uint64 list list \<Rightarrow> fstate \<Rightarrow> bool" where
  "unserved m R F \<longleftrightarrow> ram F = m \<and> requests F = R"

definition served :: "env \<Rightarrow> uint64 list \<Rightarrow> memory \<Rightarrow> uint64 list list \<Rightarrow> fstate \<Rightarrow> bool" where
  "served E req m R F \<longleftrightarrow> magic_mem F = fst (fesvr E req m) # tl req \<and> ram F = snd (fesvr E req m) \<and> requests F = R @ [req]"

fun frontend_inv :: "env \<Rightarrow> uint64 \<Rightarrow> uint64 list \<Rightarrow> uint64 list \<Rightarrow> memory \<Rightarrow> uint64 list list \<Rightarrow> fstate \<Rightarrow> bool" where
  "frontend_inv E p req B m R F \<longleftrightarrow>
     (let B' = B @ [TOHOST_CMD 0 0 p] in
      length (magic_mem F) = 8 \<and>
      (case fpoint F of
         FLock \<Rightarrow> idle B (hdev F) \<and> unserved m R F \<and> lock F = 0
       | FStore i \<Rightarrow> idle B (hdev F) \<and> unserved m R F \<and> i \<le> 8 \<and> take i (magic_mem F) = take i req
       | FCall \<Rightarrow> call_inv (Syscall p) B (hdev F) \<and>
           (if taken (hdev F) = B' then served E req m R F else unserved m R F \<and> magic_mem F = req)
       | FRead \<Rightarrow> idle B' (hdev F) \<and> served E req m R F
       | FUnlock r \<Rightarrow> idle B' (hdev F) \<and> served E req m R F \<and> r = fst (fesvr E req m)
       | FDone r \<Rightarrow> idle B' (hdev F) \<and> served E req m R F \<and> r = fst (fesvr E req m) \<and> lock F = 0))"

declare frontend_inv.simps [simp del]

lemma kernel_step_taken [simp]: "taken (kernel_step s) = taken s"
  by (cases "at s") (auto simp: kernel_step.simps check_clear_def Let_def split: option.splits prod.splits)

lemma syscall_sent:
  assumes "syscall_word p" and "call_inv (Syscall p) B s"
  shows "sent s = B \<or> sent s = B @ [TOHOST_CMD 0 0 p]"
    and "tohost s = TOHOST_CMD 0 0 p \<Longrightarrow> taken s = B"
proof -
  let ?w = "TOHOST_CMD 0 0 p"
  show "sent s = B \<or> sent s = B @ [?w]"
    using assms(2) by (cases "at s") (auto simp: call_inv.simps)
  assume w: "tohost s = ?w"
  have "\<not> calm s"
    using w syscall_cmd(1,3) [OF assms(1)] by (simp add: calm_def)
  then have "sent s = B @ [?w]"
    using assms(2) by (cases "at s") (auto simp: call_inv.simps)
  then show "taken s = B"
    using w syscall_cmd(3) [OF assms(1)] by (simp add: sent_def)
qed

lemma idle_serve: "syscall_word p \<Longrightarrow> idle B (hdev F) \<Longrightarrow> host_serve E p F = F"
  using syscall_cmd(1,3) [of p] by (auto simp: host_serve_def idle_def calm_def)

lemma served_hdev [simp]:
  "served E req m R (F\<lparr>hdev := h\<rparr>) = served E req m R F" "served E req m R (F\<lparr>fpoint := k\<rparr>) = served E req m R F"
  "served E req m R (F\<lparr>lock := l\<rparr>) = served E req m R F"
  "unserved m R (F\<lparr>hdev := h\<rparr>) = unserved m R F" "unserved m R (F\<lparr>fpoint := k\<rparr>) = unserved m R F"
  "unserved m R (F\<lparr>lock := l\<rparr>) = unserved m R F" "unserved m R (F\<lparr>magic_mem := g\<rparr>) = unserved m R F"
  by (simp_all add: served_def unserved_def)

text \<open>The host takes the command of the call.\<close>

lemma frontend_inv_take_call:
  assumes "host_answers answer" and "syscall_word p" and "frontend_inv E p req B m R F" and "fpoint F = FCall"
    and "tohost (hdev F) \<noteq> 0"
  shows "frontend_inv E p req B m R ((host_serve E p F)\<lparr>hdev := host_take answer (hdev F)\<rparr>)"
proof -
  let ?w = "TOHOST_CMD 0 0 p" and ?h = "hdev F"
  have inv: "call_inv (Syscall p) B ?h" and len: "length (magic_mem F) = 8"
    and st: "if taken ?h = B @ [?w] then served E req m R F else unserved m R F \<and> magic_mem F = req"
    using assms(3,4) by (simp_all add: frontend_inv.simps)
  have next_inv: "call_inv (Syscall p) B (host_take answer ?h)"
    using call_inv_host_take [OF assms(1) _ inv assms(5)] assms(2) by simp
  have new: "taken ?h \<noteq> B @ [?w]"
    using syscall_sent(1) [OF assms(2) inv] assms(5) by (auto simp: sent_def)
  show ?thesis
  proof (cases "tohost ?h = ?w")
    case True
    have "served E req m R (host_serve E p F)"
      using st new True len by (cases req) (auto simp: host_serve_def served_def unserved_def case_prod_unfold Let_def)
    moreover have "length (magic_mem (host_serve E p F)) = 8" "fpoint (host_serve E p F) = FCall"
      using len assms(4) by (simp_all add: host_serve_def case_prod_unfold Let_def)
    moreover have "taken ?h = B" by (rule syscall_sent(2) [OF assms(2) inv True])
    ultimately show ?thesis
      using next_inv True by (simp add: frontend_inv.simps)
  next
    case False
    then show ?thesis
      using st new len assms(4) next_inv by (simp add: host_serve_def frontend_inv.simps)
  qed
qed

lemma frontend_inv_host:
  assumes "host_answers answer" and "syscall_word p" and "frontend_inv E p req B m R F"
  shows "tohost (hdev F) \<noteq> 0 \<Longrightarrow> frontend_inv E p req B m R ((host_serve E p F)\<lparr>hdev := host_take answer (hdev F)\<rparr>)"
    and "i < length (pending (hdev F)) \<Longrightarrow> frontend_inv E p req B m R (F\<lparr>hdev := host_make i (hdev F)\<rparr>)"
    and "fromhost (hdev F) = 0 \<Longrightarrow> waiting (hdev F) \<noteq> [] \<Longrightarrow> frontend_inv E p req B m R (F\<lparr>hdev := host_put (hdev F)\<rparr>)"
proof -
  assume t: "tohost (hdev F) \<noteq> 0"
  note idle = idle_step(1) [OF assms(1) htif_step.host_takes [where answer = answer, OF t]]
  show "frontend_inv E p req B m R ((host_serve E p F)\<lparr>hdev := host_take answer (hdev F)\<rparr>)"
    using assms(3) frontend_inv_take_call [OF assms _ t] idle idle_serve [OF assms(2)]
    by (cases "fpoint F") (auto simp: frontend_inv.simps)
next
  assume i: "i < length (pending (hdev F))"
  note idle = idle_step(1) [OF assms(1) htif_step.host_makes [where answer = answer, OF i]]
  show "frontend_inv E p req B m R (F\<lparr>hdev := host_make i (hdev F)\<rparr>)"
    using assms(3) idle call_inv_host_make [OF _ i]
    by (cases "fpoint F") (auto simp: frontend_inv.simps)
next
  assume w: "fromhost (hdev F) = 0" "waiting (hdev F) \<noteq> []"
  note idle = idle_step(1) [OF assms(1) htif_step.host_puts [where answer = answer, OF w]]
  show "frontend_inv E p req B m R (F\<lparr>hdev := host_put (hdev F)\<rparr>)"
    using assms(3) idle call_inv_host_put [OF _ w]
    by (cases "fpoint F") (auto simp: frontend_inv.simps)
qed

lemma frontend_inv_kernel:
  assumes "syscall_word p" and "length req = 8" and "frontend_inv E p req B m R F"
  shows "frontend_inv E p req B m R (frontend_kernel p req F)"
proof (cases "fpoint F")
  case (FStore i)
  show ?thesis
  proof (cases "i < 8")
    case True
    with FStore assms(2,3) show ?thesis
      by (simp add: frontend_kernel_def frontend_inv.simps take_Suc_list_update take_Suc_conv_app_nth)
  next
    case False
    then have i: "i = 8" and inv: "idle B (hdev F)" "magic_mem F = req" "unserved m R F"
      using FStore assms(2,3) by (auto simp: frontend_inv.simps)
    have "call_inv (Syscall p) B ((hdev F)\<lparr>at := htif_syscall p\<rparr>)"
      using call_begins [OF inv(1), of "Syscall p"] by simp
    moreover have "taken (hdev F) \<noteq> B @ [TOHOST_CMD 0 0 p]"
      using inv(1) by (auto simp: idle_def sent_def)
    ultimately show ?thesis
      using FStore i inv assms(2) by (simp add: frontend_kernel_def frontend_inv.simps)
  qed
next
  case FCall
  then have inv: "call_inv (Syscall p) B (hdev F)" using assms(3) by (simp add: frontend_inv.simps)
  show ?thesis
  proof (cases "\<exists>r. at (hdev F) = PDone r")
    case True
    then obtain r where r: "at (hdev F) = PDone r" by blast
    have "idle (B @ [TOHOST_CMD 0 0 p]) (hdev F)" "tohost (hdev F) = 0"
      using call_over [OF inv r] by simp_all
    then show ?thesis
      using FCall r assms(3) by (simp add: frontend_kernel_def frontend_inv.simps idle_def sent_def)
  next
    case False
    then have "frontend_kernel p req F = F\<lparr>hdev := kernel_step (hdev F)\<rparr>"
      using FCall by (simp add: frontend_kernel_def split: hpc.splits)
    then show ?thesis
      using FCall assms(1,3) call_inv_kernel [OF _ inv] by (simp add: frontend_inv.simps)
  qed
qed (use assms(3) in \<open>auto simp: frontend_kernel_def frontend_inv.simps spinlock_trylock_def atomic_defs spinlock_unlock_def
      served_def\<close>)

lemma frontend_inv_reach:
  assumes "host_answers answer" and "syscall_word p" and "length req = 8" and "frontend_reach E answer p req F G"
    and "frontend_inv E p req B m R F"
  shows "frontend_inv E p req B m R G"
  using assms(4,5)
proof (induction rule: rtranclp_induct)
  case (step G H)
  then have "frontend_inv E p req B m R G" by simp
  with step(2) show ?case
    by cases (simp_all add: frontend_inv_kernel [OF assms(2,3)] frontend_inv_host [OF assms(1,2)])
qed simp

subsection \<open>The call returns\<close>

lemma frontend_kernel_reach:
  "frontend_reach E answer p req F G \<Longrightarrow> frontend_reach E answer p req F (frontend_kernel p req G)"
  by (erule rtranclp.rtrancl_into_rtrancl) (rule frontend_step.kernel)

text \<open>While \<^verbatim>\<open>htif_syscall\<close> runs, every run of the device is a run of the call.\<close>

lemma frontend_device:
  assumes "htif_reach answer (hdev F) h" and "fpoint F = FCall"
  shows "\<exists>G. frontend_reach E answer p req F G \<and> fpoint G = FCall \<and> hdev G = h"
  using assms(1)
proof (induction rule: rtranclp_induct)
  case (step h h')
  then obtain G where G: "frontend_reach E answer p req F G" "fpoint G = FCall" "hdev G = h" by blast
  from step(2) show ?case
  proof cases
    case kernel
    show ?thesis
    proof (cases "\<exists>r. at h = PDone r")
      case True
      then have "h' = h" using kernel by (auto simp: kernel_step.simps)
      with G show ?thesis by blast
    next
      case False
      then have "frontend_kernel p req G = G\<lparr>hdev := h'\<rparr>"
        using G kernel by (simp add: frontend_kernel_def split: hpc.splits)
      then show ?thesis
        using frontend_kernel_reach [OF G(1)] G(2) by (intro exI [of _ "G\<lparr>hdev := h'\<rparr>"]) simp
    qed
  next
    case host_takes
    let ?H = "(host_serve E p G)\<lparr>hdev := host_take answer (hdev G)\<rparr>"
    have "frontend_step E answer p req G ?H"
      by (rule frontend_step.host_takes) (use host_takes G(3) in simp)
    moreover have "fpoint ?H = FCall" using G(2) by (simp add: host_serve_def case_prod_unfold Let_def)
    ultimately show ?thesis
      using G host_takes by (intro exI [of _ ?H]) (simp add: rtranclp.rtrancl_into_rtrancl)
  next
    case (host_makes i)
    then have "frontend_step E answer p req G (G\<lparr>hdev := host_make i (hdev G)\<rparr>)"
      using G(3) by (intro frontend_step.host_makes) simp_all
    then show ?thesis
      using G host_makes by (intro exI [of _ "G\<lparr>hdev := host_make i (hdev G)\<rparr>"]) (simp add: rtranclp.rtrancl_into_rtrancl)
  next
    case host_puts
    then have "frontend_step E answer p req G (G\<lparr>hdev := host_put (hdev G)\<rparr>)"
      using G(3) by (intro frontend_step.host_puts) simp_all
    then show ?thesis
      using G host_puts by (intro exI [of _ "G\<lparr>hdev := host_put (hdev G)\<rparr>"]) (simp add: rtranclp.rtrancl_into_rtrancl)
  qed
qed (use assms(2) in auto)

definition returns_from :: "env \<Rightarrow> host \<Rightarrow> uint64 \<Rightarrow> uint64 list \<Rightarrow> fstate \<Rightarrow> bool" where
  "returns_from E answer p req F \<longleftrightarrow> (\<exists>G r. frontend_reach E answer p req F G \<and> fpoint G = FDone r)"

lemma returns_from_done: "fpoint F = FDone r \<Longrightarrow> returns_from E answer p req F"
  unfolding returns_from_def by blast

lemma returns_from_kernel: "returns_from E answer p req (frontend_kernel p req F) \<Longrightarrow> returns_from E answer p req F"
  unfolding returns_from_def by (meson converse_rtranclp_into_rtranclp frontend_step.kernel)

lemma returns_from_unlock: "fpoint F = FUnlock r \<Longrightarrow> returns_from E answer p req F"
  by (rule returns_from_kernel, rule returns_from_done) (simp add: frontend_kernel_def)

lemma returns_from_read: "fpoint F = FRead \<Longrightarrow> returns_from E answer p req F"
  by (rule returns_from_kernel, rule returns_from_unlock) (simp add: frontend_kernel_def)

lemma returns_from_call:
  assumes "host_answers answer" and "syscall_word p" and "call_inv (Syscall p) B (hdev F)" and "fpoint F = FCall"
  shows "returns_from E answer p req F"
proof -
  obtain h r where h: "htif_reach answer (hdev F) h" "at h = PDone r"
    using call_inv_ends [OF assms(1) _ assms(3)] assms(2) unfolding ends_def by auto
  obtain G where G: "frontend_reach E answer p req F G" "fpoint G = FCall" "hdev G = h"
    using frontend_device [OF h(1) assms(4)] by blast
  have "returns_from E answer p req G"
    by (rule returns_from_kernel, rule returns_from_read) (use G h(2) in \<open>simp add: frontend_kernel_def\<close>)
  with G(1) show ?thesis unfolding returns_from_def by (blast intro: rtranclp_trans)
qed

lemma returns_from_store:
  assumes "host_answers answer" and "syscall_word p"
  shows "fpoint F = FStore i \<Longrightarrow> idle B (hdev F) \<Longrightarrow> returns_from E answer p req F"
proof (induction "8 - i" arbitrary: F i)
  case 0
  have "returns_from E answer p req (frontend_kernel p req F)"
    by (rule returns_from_call [OF assms, where B = B])
      (use 0 call_begins [OF 0(3), of "Syscall p"] in \<open>simp_all add: frontend_kernel_def\<close>)
  then show ?case by (rule returns_from_kernel)
next
  case (Suc k)
  have "returns_from E answer p req (frontend_kernel p req F)"
    by (rule Suc.hyps(1) [of "Suc i"]) (use Suc in \<open>auto simp: frontend_kernel_def\<close>)
  then show ?case by (rule returns_from_kernel)
qed

lemma frontend_returns:
  assumes "host_answers answer" and "syscall_word p" and "frontend_inv E p req B m R F"
  shows "returns_from E answer p req F"
proof (cases "fpoint F")
  case FLock
  have "returns_from E answer p req (frontend_kernel p req F)"
    by (rule returns_from_store [OF assms(1,2), of _ 0 B])
      (use FLock assms(3) in \<open>auto simp: frontend_kernel_def frontend_inv.simps spinlock_trylock_def atomic_defs\<close>)
  then show ?thesis by (rule returns_from_kernel)
qed (use assms in \<open>auto simp: frontend_inv.simps intro: returns_from_store returns_from_call returns_from_read
      returns_from_unlock returns_from_done\<close>)

text \<open>With the lock held the call spins.\<close>

lemma frontend_spins:
  assumes "host_answers answer" and "syscall_word p" and "frontend_reach E answer p req F G"
    and "fpoint F = FLock" and "lock F \<noteq> 0" and "idle B (hdev F)"
  shows "fpoint G = FLock \<and> lock G \<noteq> 0 \<and> requests G = requests F \<and> idle B (hdev G)"
  using assms(3)
proof (induction rule: rtranclp_induct)
  case (step G H)
  note idle = idle_step(1) [OF assms(1)]
  from step(2) show ?case
    by cases (use step(3) in \<open>auto simp: frontend_kernel_def idle_serve [OF assms(2)]
        dest: htif_step.host_takes htif_step.host_makes htif_step.host_puts intro: idle\<close>)
qed (use assms in auto)

subsection \<open>Properties\<close>

text \<open>
  C22.  \<^verbatim>\<open>frontend_syscall\<close> on the HTIF driver refines the single step the rest of the kernel is specified with.  Started
  when no other call is under way, under every interleaving with the host, and whatever \<^verbatim>\<open>magic_mem\<close> held before: no assertion
  of the driver fails; from every state it can get to it can be completed; and when it has returned, the
  result, the memory and the lock are those of the single step, the host has served exactly this
  request, with the arguments in order, and the driver is ready for the next call.  With the lock held it waits for ever and
  sends nothing.
\<close>

theorem frontend_syscall_refined:
  assumes "host_answers answer" and "syscall_word p" and "idle B d" and "length args = 7" and "length mg = 8"
    and "frontend_reach E answer p (n # args) (frontend_start d mg R s) F"
  shows "case frontend_syscall E n args s of
      Ret v t \<Rightarrow> at (hdev F) \<noteq> PAssert
        \<and> (\<exists>G r. frontend_reach E answer p (n # args) F G \<and> fpoint G = FDone r)
        \<and> (\<forall>r. fpoint F = FDone r \<longrightarrow>
             r = v \<and> ram F = mem t \<and> lock F = fs_lock t
             \<and> requests F = R @ [n # args] \<and> trace t = trace s @ [HostCall (n # args)]
             \<and> idle (B @ [TOHOST_CMD 0 0 p]) (hdev F))
    | Diverge \<Rightarrow> fpoint F = FLock \<and> requests F = R \<and> sent (hdev F) = B
    | _ \<Rightarrow> False"
proof (cases "fs_lock s = 0")
  case True
  let ?req = "n # args"
  have len: "length ?req = 8" using assms(4) by simp
  have "frontend_inv E p ?req B (mem s) R (frontend_start d mg R s)"
    using assms(3,5) True by (simp add: frontend_inv.simps frontend_start_def unserved_def)
  then have inv: "frontend_inv E p ?req B (mem s) R F"
    by (rule frontend_inv_reach [OF assms(1,2) len assms(6)])
  have safe: "at (hdev F) \<noteq> PAssert"
    using inv by (cases "fpoint F") (auto simp: frontend_inv.simps idle_def call_inv.simps)
  have over: "r = fst (fesvr E ?req (mem s)) \<and> ram F = snd (fesvr E ?req (mem s)) \<and> lock F = 0
      \<and> requests F = R @ [?req] \<and> idle (B @ [TOHOST_CMD 0 0 p]) (hdev F)" if "fpoint F = FDone r" for r
    using inv that by (simp add: frontend_inv.simps served_def)
  show ?thesis
    using frontend_returns [OF assms(1,2) inv] safe over True by (simp add: frontend_syscall_free returns_from_def)
next
  case False
  then have "frontend_syscall E n args s = Diverge"
    by (simp add: frontend_syscall_def with_fs_lock_held)
  then show ?thesis
    using frontend_spins [OF assms(1,2,6), where B = B] assms(3) False by (simp add: frontend_start_def idle_def)
qed

theorem frontend_syscall_refined_witness:
  "\<exists>F. frontend_reach sample_env sample_answer 0x80010000 [57, 3, 0, 0, 0, 0, 0, 0]
        (frontend_start htif_boot (replicate 8 7) [] sample_state) F
      \<and> fpoint F = FDone 0 \<and> lock F = 0 \<and> requests F = [[57, 3, 0, 0, 0, 0, 0, 0]]"
proof -
  let ?reach = "frontend_reach sample_env sample_answer 0x80010000 [57, 3, 0, 0, 0, 0, 0, 0]"
  let ?F = "frontend_start htif_boot (replicate 8 7) [] sample_state"
  have ok: "syscall_word 0x80010000" "idle [] htif_boot"
    by (simp_all add: syscall_word_def idle_def htif_boot_def buf_ok_def calm_def queue_def pending_ok_def sent_def)
  note call = frontend_syscall_refined [OF sample_answer_ok ok, of "[3, 0, 0, 0, 0, 0, 0]" "replicate 8 7" sample_env 57 "[]"
      sample_state]
  obtain G r where G: "?reach ?F G" "fpoint G = FDone r"
    using call [of ?F] by (auto simp: frontend_syscall_free)
  with call [of G] show ?thesis
    by (auto simp: frontend_syscall_free)
qed

end
