(* ===== verification/FileStat.thy ===== *)
theory FileStat
  imports SpikeFile
begin

text \<open>
  File status (\<^verbatim>\<open>copy_stat\<close> and \<^verbatim>\<open>spike_file_stat\<close> of \<^verbatim>\<open>spike_interface/spike_file.c\<close>).  The host fills
  a \<^verbatim>\<open>struct frontend_stat\<close>, whose members \<^verbatim>\<open>spike_file.h\<close> lays out; they are copied one by one into a
  \<^verbatim>\<open>struct stat\<close>, which the headers of the C library define.  The place of its members is a parameter:
  an offset and a width in bytes for each.
\<close>

datatype stat_member =
    St_dev | St_ino | St_mode | St_nlink | St_uid | St_gid | St_rdev | St_size | St_blksize | St_blocks
  | St_atime | St_mtime | St_ctime

type_synonym place = "nat \<times> nat"

text \<open>\<^verbatim>\<open>struct frontend_stat\<close>: 128 bytes, with padding after \<^verbatim>\<open>rdev\<close>, \<^verbatim>\<open>blksize\<close> and the times.\<close>

fun frontend_stat :: "stat_member \<Rightarrow> place" where
  "frontend_stat St_dev = (0, 8)"
| "frontend_stat St_ino = (8, 8)"
| "frontend_stat St_mode = (16, 4)"
| "frontend_stat St_nlink = (20, 4)"
| "frontend_stat St_uid = (24, 4)"
| "frontend_stat St_gid = (28, 4)"
| "frontend_stat St_rdev = (32, 8)"
| "frontend_stat St_size = (48, 8)"
| "frontend_stat St_blksize = (56, 4)"
| "frontend_stat St_blocks = (64, 8)"
| "frontend_stat St_atime = (72, 8)"
| "frontend_stat St_mtime = (88, 8)"
| "frontend_stat St_ctime = (104, 8)"

text \<open>Reading an unsigned member, and an assignment to a member: the value is cut to the member's width or
  filled with zeros.\<close>

definition load_member :: "memory \<Rightarrow> uint64 \<Rightarrow> place \<Rightarrow> uint64" where
  "load_member m p x = le_word (read_bytes m (p + of_nat (fst x)) (snd x))"

definition store_member :: "memory \<Rightarrow> uint64 \<Rightarrow> place \<Rightarrow> uint64 \<Rightarrow> memory" where
  "store_member m p x v = write_bytes m (p + of_nat (fst x)) (le_bytes (snd x) v)"

definition copy_member :: "(stat_member \<Rightarrow> place) \<Rightarrow> uint64 \<Rightarrow> uint64 \<Rightarrow> stat_member \<Rightarrow> memory \<Rightarrow> memory" where
  "copy_member stat dest src x m = store_member m dest (stat x) (load_member m src (frontend_stat x))"

definition copy_stat :: "(stat_member \<Rightarrow> place) \<Rightarrow> uint64 \<Rightarrow> uint64 \<Rightarrow> memory \<Rightarrow> memory" where
  "copy_stat stat dest src m =
     fold (copy_member stat dest src)
       [St_dev, St_ino, St_mode, St_nlink, St_uid, St_gid, St_rdev, St_size, St_blksize, St_blocks,
        St_atime, St_mtime, St_ctime] m"

text \<open>\<^verbatim>\<open>spike_file_stat\<close>; \<open>buf\<close> is the address of its local variable.  The buffer is copied whatever the
  host answers, and the answer is cut to an \<^verbatim>\<open>int\<close>.\<close>

definition spike_file_stat :: "env \<Rightarrow> (stat_member \<Rightarrow> place) \<Rightarrow> uint64 \<Rightarrow> file_ptr \<Rightarrow> uint64 \<Rightarrow> int32 op" where
  "spike_file_stat E stat buf fp dest =
     with_file fp (\<lambda>f s.
       and_then (frontend_syscall E HTIFSYS_fstat [scast (kfd (spike_files s ! f)), buf, 0, 0, 0, 0, 0])
         (\<lambda>r s1. Ret (ucast r) (s1\<lparr>mem := copy_stat stat dest buf (mem s1)\<rparr>)) s)"

subsection \<open>Copying\<close>

text \<open>A layout within \<open>n\<close> bytes whose members do not overlap.\<close>

definition stat_ok :: "nat \<Rightarrow> (stat_member \<Rightarrow> place) \<Rightarrow> bool" where
  "stat_ok n stat \<longleftrightarrow> n < 2 ^ 64 \<and> (\<forall>x. fst (stat x) + snd (stat x) \<le> n)
     \<and> (\<forall>x y. x \<noteq> y \<longrightarrow> fst (stat x) + snd (stat x) \<le> fst (stat y) \<or> fst (stat y) + snd (stat y) \<le> fst (stat x))"

lemma stat_ok_apart:
  assumes "stat_ok n stat" and "x \<noteq> y"
  shows "apart (p + of_nat (fst (stat x))) (snd (stat x)) (p + of_nat (fst (stat y))) (snd (stat y))"
proof -
  have bound: "fst (stat z) + snd (stat z) < 2 ^ 64" for z
    using assms(1) unfolding stat_ok_def by (meson le_less_trans)
  have place: "apart (of_nat (fst (stat a))) (snd (stat a)) (of_nat (fst (stat b))) (snd (stat b))"
    if "fst (stat a) + snd (stat a) \<le> fst (stat b)" for a b
    using that bound [of a] bound [of b] by (intro apart_const) (simp_all add: unat_of_nat_small)
  show ?thesis
    using assms place [of x y] place [of y x] by (auto simp: stat_ok_def apart_sym)
qed

lemma frontend_stat_bound: "fst (frontend_stat x) + snd (frontend_stat x) \<le> 128"
  by (cases x) simp_all

lemma load_member_only:
  assumes "only_changes a n m m'" and "apart a n b k" and "fst x + snd x \<le> k"
  shows "load_member m' b x = load_member m b x"
  using only_changes_read_bytes [OF assms(1)] apart_sub [OF assms(2), of 0 n "fst x" "snd x"] assms(3)
  by (simp add: load_member_def)

lemma load_store_member:
  "snd x < 2 ^ 64 \<Longrightarrow> load_member (store_member m p x v) p x = take_bit (8 * snd x) v"
  unfolding load_member_def store_member_def
  using read_write_bytes_same [of "le_bytes (snd x) v" m "p + of_nat (fst x)"] by (simp add: le_word_le_bytes)

lemma fold_copy:
  assumes "stat_ok n stat" and "apart dest n src 128" and "distinct xs"
  shows "only_changes dest n m (fold (copy_member stat dest src) xs m)"
    and "\<forall>x\<in>set xs. load_member (fold (copy_member stat dest src) xs m) dest (stat x) = take_bit (8 * snd (stat x)) (load_member m src (frontend_stat x))"
  using assms(3)
proof (induction xs rule: rev_induct)
  case Nil
  { case 1 show ?case by simp
  next case 2 show ?case by simp }
next
  case (snoc y xs)
  let ?m = "fold (copy_member stat dest src) xs m"
  let ?v = "load_member m src (frontend_stat y)"
  have bound: "fst (stat y) + snd (stat y) \<le> n" "n < 2 ^ 64"
    using assms(1) by (simp_all add: stat_ok_def)
  have step: "fold (copy_member stat dest src) (xs @ [y]) m =
      store_member ?m dest (stat y) (load_member ?m src (frontend_stat y))"
    by (simp add: copy_member_def [of stat dest src y])
  {
    case 1
    then have IH: "only_changes dest n m ?m" using snoc by simp
    have "only_changes (dest + of_nat (fst (stat y))) (snd (stat y)) ?m (store_member ?m dest (stat y) v)" for v
      unfolding store_member_def using only_changes_write_bytes [of _ "le_bytes (snd (stat y)) v"] by simp
    then have "only_changes dest n ?m (store_member ?m dest (stat y) v)" for v
      using bound(1) by (rule only_changes_mono)
    with IH show ?case unfolding step by (rule only_changes_trans)
  next
    case 2
    then have IH: "only_changes dest n m ?m"
      "\<forall>x\<in>set xs. load_member ?m dest (stat x) = take_bit (8 * snd (stat x)) (load_member m src (frontend_stat x))"
      using snoc by simp_all
    have src: "load_member ?m src (frontend_stat y) = ?v"
      by (rule load_member_only [OF IH(1) assms(2) frontend_stat_bound])
    have "load_member (store_member ?m dest (stat y) ?v) dest (stat x) = load_member ?m dest (stat x)" if "x \<in> set xs" for x
      using that 2 stat_ok_apart [OF assms(1), of y x dest]
      unfolding load_member_def store_member_def by (subst read_write_bytes_apart) auto
    moreover have "load_member (store_member ?m dest (stat y) ?v) dest (stat y) = take_bit (8 * snd (stat y)) ?v"
      using bound by (intro load_store_member) linarith
    ultimately show ?case
      using IH(2) unfolding step src by simp
  }
qed

text \<open>
  C34.  \<^verbatim>\<open>spike_file_stat\<close> asks the host for the status of the file's descriptor and returns its answer; the
  destination then has every member of the buffer, cut to the width the destination gives it, and
  nothing else in memory is changed.  This is so whatever the answer is: after a failure the
  destination has what the local buffer happened to hold.
\<close>

theorem spike_file_stat_correct:
  assumes "fs_lock s = 0" and "stat_ok n stat" and "apart dest n buf 128"
    and "fesvr E [HTIFSYS_fstat, scast (kfd (spike_files s ! f)), buf, 0, 0, 0, 0, 0] (mem s) = (r, m)"
  shows "\<exists>m'. spike_file_stat E stat buf (File f) dest s = Ret (ucast r) (s\<lparr>mem := m',
        trace := trace s @ [HostCall [HTIFSYS_fstat, scast (kfd (spike_files s ! f)), buf, 0, 0, 0, 0, 0]]\<rparr>)
    \<and> only_changes dest n m m'
    \<and> (\<forall>x. load_member m' dest (stat x) = take_bit (8 * snd (stat x)) (load_member m buf (frontend_stat x)))"
proof -
  let ?ms = "[St_dev, St_ino, St_mode, St_nlink, St_uid, St_gid, St_rdev, St_size, St_blksize, St_blocks,
    St_atime, St_mtime, St_ctime]"
  have all: "x \<in> set ?ms" for x by (cases x) simp_all
  have "distinct ?ms" by simp
  note copy = fold_copy [OF assms(2,3) this, of m, folded copy_stat_def]
  have "spike_file_stat E stat buf (File f) dest s = Ret (ucast r) (s\<lparr>mem := copy_stat stat dest buf m,
        trace := trace s @ [HostCall [HTIFSYS_fstat, scast (kfd (spike_files s ! f)), buf, 0, 0, 0, 0, 0]]\<rparr>)"
    using assms(1,4) by (simp add: spike_file_stat_def frontend_syscall_free)
  with copy all show ?thesis by blast
qed

text \<open>A \<^verbatim>\<open>struct stat\<close> in which every member has eight bytes, and a host that reports size 4096.\<close>

definition sample_stat :: "stat_member \<Rightarrow> place" where
  "sample_stat x = (case x of St_dev \<Rightarrow> 0 | St_ino \<Rightarrow> 8 | St_mode \<Rightarrow> 16 | St_nlink \<Rightarrow> 24 | St_uid \<Rightarrow> 32 | St_gid \<Rightarrow> 40
     | St_rdev \<Rightarrow> 48 | St_size \<Rightarrow> 56 | St_blksize \<Rightarrow> 64 | St_blocks \<Rightarrow> 72 | St_atime \<Rightarrow> 80 | St_mtime \<Rightarrow> 88 | St_ctime \<Rightarrow> 96, 8)"

definition stat_env :: env where
  "stat_env = sample_env\<lparr>fesvr := (\<lambda>req m. (0, write64 m 0x81200030 4096))\<rparr>"

lemma sample_stat_ok: "stat_ok 104 sample_stat"
proof -
  have "fst (sample_stat x) + snd (sample_stat x) \<le> 104" for x
    by (cases x) (simp_all add: sample_stat_def)
  moreover have "fst (sample_stat x) + snd (sample_stat x) \<le> fst (sample_stat y) \<or> fst (sample_stat y) + snd (sample_stat y) \<le> fst (sample_stat x)"
    if "x \<noteq> y" for x y
    using that by (cases x; cases y) (simp_all add: sample_stat_def)
  ultimately show ?thesis by (simp add: stat_ok_def)
qed

theorem spike_file_stat_correct_witness:
  "\<exists>t. spike_file_stat stat_env sample_stat 0x81200000 (File 0) 0x81300000 sample_state = Ret 0 t
    \<and> load_member (mem t) 0x81300000 (sample_stat St_size) = 4096"
proof -
  have env: "fesvr stat_env req m = (0, write64 m 0x81200030 4096)" for req m
    by (simp add: stat_env_def)
  have "load_member (write64 (mem sample_state) 0x81200030 4096) 0x81200000 (frontend_stat St_size) = 4096"
    by (simp add: load_member_def flip: read64_def)
  moreover have "take_bit (8 * snd (sample_stat St_size)) (4096 :: uint64) = 4096"
    by (simp add: sample_stat_def)
  moreover have "apart 0x81300000 104 (0x81200000 :: uint64) 128"
    by (simp add: apart_def)
  ultimately show ?thesis
    using spike_file_stat_correct [OF sample_fields(1) sample_stat_ok _ env, of "0x81300000" "0x81200000" 0]
    by fastforce
qed

end
