(* ===== verification/Macros.thy ===== *)
theory Macros
  imports Prelude
begin

text \<open>
  The helper macros of \<^verbatim>\<open>util/functions.h\<close>, for operands of type \<^verbatim>\<open>uint64\<close>.  \<^verbatim>\<open>likely\<close> and \<^verbatim>\<open>unlikely\<close> only
  advise the compiler and have the value of their argument.
\<close>

definition ROUNDUP :: "uint64 \<Rightarrow> uint64 \<Rightarrow> uint64" where
  "ROUNDUP a b = ((a - 1) div b + 1) * b"

definition ROUNDDOWN :: "uint64 \<Rightarrow> uint64 \<Rightarrow> uint64" where
  "ROUNDDOWN a b = a div b * b"

definition MAX_macro :: "uint64 \<Rightarrow> uint64 \<Rightarrow> uint64" where
  "MAX_macro a b = (if a > b then a else b)"

definition MIN_macro :: "uint64 \<Rightarrow> uint64 \<Rightarrow> uint64" where
  "MIN_macro a b = (if a < b then a else b)"

definition ARRAY_SIZE :: "uint64 \<Rightarrow> uint64 \<Rightarrow> uint64" where
  "ARRAY_SIZE size_x size_x0 = size_x div size_x0"

lemma unat_ROUNDDOWN: "unat (ROUNDDOWN a b) = unat a div unat b * unat b"
proof -
  have "unat a div unat b * unat b < 2 ^ 64"
    using div_times_less_eq_dividend [of "unat a" "unat b"] unat_bound64 [of a]
    by (rule order_le_less_trans)
  then show ?thesis
    by (simp add: ROUNDDOWN_def unat_word_ariths unat_div mod_mult_left_eq)
qed

text \<open>Rounding down gives the greatest multiple that is not above, rounding up the least that is not below;
  the latter needs room for the result, and a zero is rounded up to zero only by a divisor of \<open>2 ^ 64\<close>.\<close>

lemma ROUNDDOWN_bounds:
  assumes "b \<noteq> 0"
  shows "unat b dvd unat (ROUNDDOWN a b)" and "ROUNDDOWN a b \<le> a" and "unat a < unat (ROUNDDOWN a b) + unat b"
proof -
  have "0 < unat b" using assms by (simp add: unat_gt_0)
  then show "unat b dvd unat (ROUNDDOWN a b)" "unat a < unat (ROUNDDOWN a b) + unat b"
    using dividend_less_div_times [of "unat b" "unat a"] by (simp_all add: unat_ROUNDDOWN add.commute)
  show "ROUNDDOWN a b \<le> a"
    by (simp add: word_le_nat_alt unat_ROUNDDOWN)
qed

lemma ROUNDUP_bounds:
  assumes "b \<noteq> 0" and "a \<noteq> 0" and "unat a + unat b \<le> 2 ^ 64"
  shows "unat b dvd unat (ROUNDUP a b)" and "a \<le> ROUNDUP a b" and "unat (ROUNDUP a b) < unat a + unat b"
proof -
  let ?d = "unat (ROUNDDOWN (a - 1) b)"
  have pos: "0 < unat b" "0 < unat a" using assms(1,2) by (simp_all add: unat_gt_0)
  have pred: "unat (a - 1) = unat a - 1"
    using pos(2) by (simp add: unat_minus_one assms(2))
  note d = ROUNDDOWN_bounds [OF assms(1), of "a - 1", unfolded word_le_nat_alt pred]
  have "ROUNDUP a b = ROUNDDOWN (a - 1) b + b"
    by (simp add: ROUNDUP_def ROUNDDOWN_def distrib_right)
  moreover have "?d + unat b < 2 ^ 64" using d(2) assms(3) pos by linarith
  ultimately have up: "unat (ROUNDUP a b) = ?d + unat b"
    by (simp add: unat_word_ariths)
  show "unat b dvd unat (ROUNDUP a b)" "a \<le> ROUNDUP a b" "unat (ROUNDUP a b) < unat a + unat b"
    unfolding up word_le_nat_alt using d pos by (auto simp: less_diff_conv2)
qed

lemma ROUNDUP_zero: "ROUNDUP 0 4096 = 0" "ROUNDUP 0 3 \<noteq> 0"
  by (simp_all add: ROUNDUP_def)

lemma max_min_macros: "MAX_macro a b = max a b" "MIN_macro a b = min a b"
  by (auto simp: MAX_macro_def MIN_macro_def max_def min_def)

end
