(* ===== verification/Spec2Isabelle.thy ===== *)
theory Spec2Isabelle
  imports Run HostCall Console FileStat Macros
begin

text \<open>
  A verification library for the PKE proxy kernel on RISC-V (lab1, challenge 1: printing the
  backtrace of a user program).

  \<^bold>\<open>The program.\<close>  The machine starts in \<^verbatim>\<open>_mentry\<close> and \<^verbatim>\<open>m_start\<close> (machine mode), which find the host
  interface and the memory in the device tree, delegate traps, start the timer and enter
  \<^verbatim>\<open>s_start\<close> (supervisor mode).  That prepares one process, loads an ELF file from the host with its
  symbol table, and leaves for user mode by \<^verbatim>\<open>switch_to\<close>.  The process comes back by traps: a system
  call (print, exit, backtrace), the software interrupt that stands for a timer tick, or a fault.
  Everything the kernel shows, reads or stops with goes to the host through \<^verbatim>\<open>frontend_syscall\<close>.

  \<^bold>\<open>How it is modelled.\<close>  An operation is a function from the state to an \<open>outcome\<close> (theory Prelude): it
  returns, stops the machine, leaves by \<^verbatim>\<open>sret\<close> or \<^verbatim>\<open>mret\<close>, runs forever, or is undefined in C.  The
  state \<open>kstate\<close> (Kstate) has the byte memory, the registers, the globals of the C files and the trace
  of what was sent to the host.  Structures that C code reaches through pointers (process, trap frame,
  symbol table, device tree, ELF headers) are bytes of the memory, read and written at the offsets of
  the source.  What the sources do not define is an argument: the answers of the host and the addresses
  the linker and compiler choose are the record \<open>env\<close>, the frames of compiled functions are the record
  \<open>frames\<close>.

  \<^bold>\<open>Theories and sources.\<close>
  \<^item> Prelude, CMem: C integers (\<^verbatim>\<open>util/types.h\<close>), outcomes, byte memory; the locale \<open>byte_codec\<close> is the interface of
    typed accesses, interpreted for 16, 32 and 64 bits.
  \<^item> StringLib: \<^verbatim>\<open>util/string.c\<close>.  Each routine has its functional behaviour on both alignment paths and
    ends; loops that need not end are option-valued.
  \<^item> Snprintf: \<^verbatim>\<open>util/snprintf.c\<close>.  \<open>vsnprintf\<close> equals the truncation of a reference expansion, and printing and
    reading a number are inverse.
  \<^item> Riscv, Atomic, Kstate, SpikeUtils: registers and CSRs (\<^verbatim>\<open>kernel/riscv.h\<close>, \<^verbatim>\<open>util/load_store.S\<close>), atomics and the
    spinlock (\<^verbatim>\<open>atomic.h\<close>), the state and host calls, messages and termination (\<^verbatim>\<open>spike_utils.c\<close>).  The locale
    \<open>printer\<close> is the contract of the console that every later component prints through.
  \<^item> SpikeFile, FileStat: \<^verbatim>\<open>spike_file.c\<close>; the locale \<open>slot_allocator\<close> is interpreted on the table of open files.  The
    status of a file is copied into a \<^verbatim>\<open>struct stat\<close> whose layout, from the C library's headers, is a parameter.
  \<^item> Process: \<^verbatim>\<open>kernel/process.{h,c}\<close>, \<^verbatim>\<open>strap_vector.S\<close>: trap entry and \<^verbatim>\<open>switch_to\<close>; \<open>user_ready\<close> is what holds while a
    process runs.
  \<^item> Syscall: \<^verbatim>\<open>kernel/syscall.c\<close>; \<^verbatim>\<open>sys_user_backtrace\<close> refines the report of the frame-pointer chain, and
    \<^verbatim>\<open>find_symbol_name\<close> a search in the list of symbols.
  \<^item> Strap: \<^verbatim>\<open>kernel/strap.c\<close>: every trap from user mode, from the instruction to the return or the stop.
  \<^item> Elf, ElfCorrect: \<^verbatim>\<open>kernel/elf.{h,c}\<close>; the loader refines an abstract loader of segments, for any
    file, headers that are cut off and symbol tables that overrun their buffer included.
  \<^item> Kernel: \<^verbatim>\<open>kernel/kernel.c\<close>.  Machine: \<^verbatim>\<open>minit.c\<close>, \<^verbatim>\<open>mtrap.c\<close>, \<^verbatim>\<open>mtrap_vector.S\<close>, \<^verbatim>\<open>mentry.S\<close>.
  \<^item> Dts: \<^verbatim>\<open>dts_parse.c\<close>, \<^verbatim>\<open>spike_memory.c\<close>, and the search for HTIF of \<^verbatim>\<open>spike_htif.c\<close>; the scan ends and follows the tree.
    DtsMem: the search for memory over a whole tree.
  \<^item> Htif: the protocol of \<^verbatim>\<open>spike_htif.c\<close> as a step relation of kernel and host, with an invariant of every call at
    every point and a proof that a call can always return; the host may finish the console words it was asked for at any
    later time, in any order with its answers to system calls.  Console: sequences of calls under all interleavings, the
    commands they give the host and the characters they return, and the messages of machine mode made of them
    (\<^verbatim>\<open>putstring\<close> and \<^verbatim>\<open>vprintm\<close> of \<^verbatim>\<open>spike_utils.c\<close>).  HostCall: \<^verbatim>\<open>frontend_syscall\<close> statement by statement on this driver, with the
    host serving its request; it refines the single step that Kstate has for the call, which every other theory uses.
  \<^item> Macros: \<^verbatim>\<open>util/functions.h\<close>.
  \<^item> UserLib, App: \<^verbatim>\<open>user/user_lib.c\<close> and \<^verbatim>\<open>user/app_print_backtrace.c\<close> running on the modelled kernel.
  \<^item> System: process, supervisor and machine mode as one step relation; what holds whenever control is in user
    mode, and that every trap returns or stops the machine, but for a print system call whose text has no end or takes
    arguments as a format string.
  \<^item> Boot, PowerOn: the loader's stages and \<^verbatim>\<open>s_start\<close> put together, up to the first instruction of the application, and
    the machine from \<^verbatim>\<open>_mentry\<close> on.  What the host does (reporting the command line, opening and serving a file) and the
    places of the loader's variables are hypotheses, with an instance that meets them all: a small ELF file, its bytes written out, and a host that serves it.
  \<^item> Run: the whole run, from power-on to the exit of the application, with the names of the backtrace taken from the symbol
    table of the ELF file.

  \<^bold>\<open>Loops.\<close>  There is no fuel.  Loops that end for every input are \<open>function\<close>s with a termination proof (the
  symbol copy, the file tables, the backtrace, whose frame pointers grow).  Those that need not end are
  \<open>partial_function (option)\<close>, and the theorems state that they return (the string loops, the symbol search,
  the device tree scan, \<^verbatim>\<open>poweroff\<close>).

  \<^bold>\<open>Not modelled.\<close>  \<^verbatim>\<open>spike_file_truncate\<close> is declared and never defined.  Of \<^verbatim>\<open>riscv.h\<close> the constants and register
  accessors that no file uses (memory protection, \<^verbatim>\<open>swap_csr\<close>, \<^verbatim>\<open>set_csr\<close>, \<^verbatim>\<open>read_sp\<close>, \<^verbatim>\<open>read_tp\<close>) are left out.  The linker
  scripts and the Makefile only fix addresses and flags.  The 32-bit branches of \<^verbatim>\<open>spike_htif.h\<close> are not compiled.
  Machine mode is entered from user mode and from its own start-up: a machine trap inside a supervisor handler, where the
  loss of \<^verbatim>\<open>t6\<close> in \<^verbatim>\<open>mtrap_vector.S\<close> would hit the handler's own registers, is not a step of System, and the whole run of Run has
  no timer tick between two instructions of the application.
  Memory protection is off in this lab, so that nothing keeps a process from the kernel's memory but its own
  code; theorems about a running process say where it must not write.
\<close>

end
